(* ===== verification/Prelude.thy ===== *)
theory Prelude
  imports "HOL-Library.Word" "HOL-Library.Monad_Syntax"
begin

unbundle bit_operations_syntax

text \<open>
  Prelude of the revice development: the C integer types as words, C arrays whose
  out-of-range accesses are faults (\<open>None\<close>), the counted \<open>for\<close> loop over such a state,
  little-endian numbers, and the interface of a fixed-width byte codec.
\<close>

section \<open>Types and hint collections\<close>

type_synonym u8 = "8 word"
type_synonym u16 = "16 word"
type_synonym u32 = "32 word"
type_synonym u64 = "64 word"

named_theorems array_simps \<comment> \<open>array accesses that are in range\<close>
named_theorems wire_simps \<comment> \<open>lengths and values of encoded fields\<close>

section \<open>Arrays with faults\<close>

text \<open>
  An array of the C code is the list of its elements. Every access goes through the functions
  below; an access outside the array, which C leaves undefined, is \<open>None\<close>. An operation that
  returns \<open>Some\<close> has stayed inside its arrays.
\<close>

definition aget :: "'a list \<Rightarrow> nat \<Rightarrow> 'a option" where
  "aget xs i = (if i < length xs then Some (xs ! i) else None)"

definition aset :: "'a list \<Rightarrow> nat \<Rightarrow> 'a \<Rightarrow> 'a list option" where
  "aset xs i x = (if i < length xs then Some (xs[i := x]) else None)"

definition aput :: "'a list \<Rightarrow> nat \<Rightarrow> 'a list \<Rightarrow> 'a list option" where
  \<comment> \<open>a block written at an offset, as \<open>memcpy (&xs[off], ys, length ys)\<close>\<close>
  "aput xs off ys =
     (if off + length ys \<le> length xs
      then Some (take off xs @ ys @ drop (off + length ys) xs) else None)"

definition aslice :: "'a list \<Rightarrow> nat \<Rightarrow> nat \<Rightarrow> 'a list option" where
  \<comment> \<open>a block read at an offset\<close>
  "aslice xs off n = (if off + n \<le> length xs then Some (take n (drop off xs)) else None)"

lemma aget_Some [array_simps]: "i < length xs \<Longrightarrow> aget xs i = Some (xs ! i)"
  by (simp add: aget_def)

lemma aset_Some [array_simps]: "i < length xs \<Longrightarrow> aset xs i x = Some (xs[i := x])"
  by (simp add: aset_def)

lemma aput_Some [array_simps]:
  "off + length ys \<le> length xs \<Longrightarrow>
     aput xs off ys = Some (take off xs @ ys @ drop (off + length ys) xs)"
  by (simp add: aput_def)

lemma aslice_Some [array_simps]:
  "off + n \<le> length xs \<Longrightarrow> aslice xs off n = Some (take n (drop off xs))"
  by (simp add: aslice_def)

lemma aset_length: "aset xs i x = Some ys \<Longrightarrow> length ys = length xs"
  by (auto simp: aset_def split: if_splits)

lemma aput_length: "aput xs off ys = Some zs \<Longrightarrow> length zs = length xs"
  by (auto simp: aput_def split: if_splits)

lemma take_Suc_update: "n < length xs \<Longrightarrow> take (Suc n) (xs[n := x]) = take n xs @ [x]"
  by (simp add: take_Suc_conv_app_nth)

lemma take_le_eq: "take n xs = take n ys \<Longrightarrow> m \<le> n \<Longrightarrow> take m xs = take m ys"
  by (metis min.absorb_iff1 take_take)

lemma replicate_update [array_simps]: "(replicate m x)[i := x] = replicate m x"
  by (cases "i < m") (simp_all add: list_eq_iff_nth_eq nth_list_update)

section \<open>The counted loop\<close>

text \<open>
  \<open>for_each f is s\<close> runs the loop body \<open>f\<close> for each index in order, on a state; a fault in
  the body is a fault of the loop.
\<close>

fun for_each :: "('a \<Rightarrow> 's \<Rightarrow> 's option) \<Rightarrow> 'a list \<Rightarrow> 's \<Rightarrow> 's option" where
  "for_each f [] s = Some s"
| "for_each f (i # is) s = f i s \<bind> for_each f is"

lemma for_each_append:
  "for_each f (is @ js) s = for_each f is s \<bind> for_each f js"
  by (induction "is" arbitrary: s) (auto split: bind_splits)

text \<open>The loop rule: an invariant indexed by the number of completed rounds.\<close>

lemma for_each_upt:
  assumes "P 0 s"
    and step: "\<And>i t. i < n \<Longrightarrow> P i t \<Longrightarrow> \<exists>t'. f i t = Some t' \<and> P (Suc i) t'"
  shows "\<exists>t. for_each f [0..<n] s = Some t \<and> P n t"
  using step
proof (induction n)
  case 0
  then show ?case using assms(1) by simp
next
  case (Suc n)
  from Suc.IH Suc.prems obtain t where t: "for_each f [0..<n] s = Some t" "P n t"
    by (metis less_Suc_eq)
  from Suc.prems [of n t] t(2) obtain t' where "f n t = Some t'" "P (Suc n) t'"
    by auto
  with t(1) show ?case by (auto simp: for_each_append)
qed

lemma for_each_pure:
  assumes "\<And>i t. i \<in> set is \<Longrightarrow> f i t = Some (g i t)"
  shows "for_each f is s = Some (fold g is s)"
  using assms by (induction "is" arbitrary: s) auto

lemma for_each_keeps:
  assumes "for_each f is s = Some t" and "\<And>i u v. f i u = Some v \<Longrightarrow> g v = g u"
  shows "g t = g s"
  using assms(1) by (induction "is" arbitrary: s) (auto dest: assms(2) split: bind_splits)

text \<open>A loop that stores a computed value at each index of a range.\<close>

lemma for_each_store:
  "off + n \<le> length buf \<Longrightarrow> for_each (\<lambda>i buf. aset buf (off + i) (f i)) [0..<n] buf =
     Some (take off buf @ map f [0..<n] @ drop (off + n) buf)"
proof (induction n)
  case 0
  then show ?case by simp
next
  case (Suc n)
  then have "for_each (\<lambda>i buf. aset buf (off + i) (f i)) [0..<Suc n] buf =
      aset (take off buf @ map f [0..<n] @ drop (off + n) buf) (off + n) (f n)"
    by (cases "aset (take off buf @ map f [0..<n] @ drop (off + n) buf) (off + n) (f n)")
      (simp_all add: for_each_append)
  also have "\<dots> = Some (take off buf @ map f [0..<Suc n] @ drop (off + Suc n) buf)"
    using Suc.prems by (simp add: aset_def list_update_append Cons_nth_drop_Suc [symmetric])
  finally show ?case .
qed

section \<open>Little-endian numbers\<close>

fun le_val :: "u8 list \<Rightarrow> nat" where
  "le_val [] = 0"
| "le_val (b # bs) = unat b + 256 * le_val bs"

fun le_bytes :: "nat \<Rightarrow> nat \<Rightarrow> u8 list" where
  "le_bytes 0 v = []"
| "le_bytes (Suc n) v = word_of_nat v # le_bytes n (v div 256)"

lemma length_le_bytes [simp]: "length (le_bytes n v) = n"
  by (induction n arbitrary: v) auto

lemma le_val_le_bytes: "le_val (le_bytes n v) = v mod 256 ^ n"
proof (induction n arbitrary: v)
  case 0
  then show ?case by simp
next
  case (Suc n)
  have "le_val (le_bytes (Suc n) v) = v mod 256 + 256 * (v div 256 mod 256 ^ n)"
    by (simp add: Suc unat_of_nat)
  also have "\<dots> = v mod (256 * 256 ^ n)"
    by (simp add: mod_mult2_eq)
  finally show ?case by simp
qed

lemma le_val_bound: "le_val bs < 256 ^ length bs"
proof (induction bs)
  case Nil
  then show ?case by simp
next
  case (Cons b bs)
  have "unat b < 256" using unsigned_less [of b] by simp
  with Cons show ?case by simp
qed

lemma le_bytes_le_val: "le_bytes (length bs) (le_val bs) = bs"
proof (induction bs)
  case Nil
  then show ?case by simp
next
  case (Cons b bs)
  have b: "unat b < 256" using unsigned_less [of b] by simp
  then have "(unat b + 256 * le_val bs) div 256 = le_val bs" by simp
  moreover have "(256 :: u8) = 0" by simp
  then have "(word_of_nat (unat b + 256 * le_val bs) :: u8) = b"
    by (simp only: of_nat_add of_nat_mult of_nat_numeral) simp
  ultimately show ?case using Cons by simp
qed

text \<open>A byte of a word, as the code writes it: shifted down and cast or masked.\<close>

lemma ucast_drop_bit_byte:
  "(ucast (drop_bit k (v :: 'a::len word)) :: u8) = word_of_nat (unat v div 2 ^ k)"
proof -
  have "(ucast (drop_bit k v) :: u8) = word_of_nat (unat (drop_bit k v))"
    by (simp add: unsigned_ucast_eq)
  also have "unat (drop_bit k v) = unat v div 2 ^ k"
    by (simp only: unat_drop_bit_eq) (simp add: drop_bit_eq_div)
  finally show ?thesis .
qed

lemma ucast_and_ff:
  "(ucast (v AND 0xff :: 'a::len word) :: u8) = ucast v"
proof -
  have m: "(0xff :: 'a word) = mask 8" by (simp add: mask_eq_exp_minus_1)
  show ?thesis unfolding m by (auto intro!: bit_eqI simp: bit_simps dest: bit_imp_le_length)
qed

lemma le_bytes_map: "le_bytes n v = map (\<lambda>i. word_of_nat (v div 256 ^ i)) [0..<n]"
proof (induction n arbitrary: v)
  case 0
  then show ?case by simp
next
  case (Suc n)
  have "map (\<lambda>i. (word_of_nat (v div 256 ^ i) :: u8)) [0..<Suc n]
      = word_of_nat v # map (\<lambda>i. word_of_nat (v div 256 ^ Suc i)) [0..<n]"
    by (simp only: upt_conv_Cons [OF zero_less_Suc] map_Suc_upt [symmetric] list.map map_map
        o_def power_0 div_by_1)
  also have "\<dots> = le_bytes (Suc n) v"
    by (simp add: Suc div_mult2_eq)
  finally show ?case by simp
qed

lemma le_bytes_word:
  "map (\<lambda>i. (ucast (drop_bit (8 * i) (v :: 'a::len word)) :: u8)) [0..<n] = le_bytes n (unat v)"
  by (simp only: le_bytes_map ucast_drop_bit_byte power_mult) simp

lemma le_val_word:
  assumes "LENGTH('a) \<le> 8 * n"
  shows "le_val (le_bytes n (unat (v :: 'a::len word))) = unat v"
proof -
  have "unat v < 2 ^ LENGTH('a)" by (rule unsigned_less)
  also have "\<dots> \<le> 2 ^ (8 * n)" using assms by (rule power_increasing) simp
  finally show ?thesis by (simp add: le_val_le_bytes power_mult)
qed

text \<open>The two- and four-byte fields as the C code writes them, byte by byte.\<close>

lemma le_bytes_fields:
  "[ucast v, ucast (drop_bit 8 v)] = le_bytes 2 (unat v)"
  "[ucast w, ucast (drop_bit 8 w), ucast (drop_bit 16 w), ucast (drop_bit 24 w)] = le_bytes 4 (unat w)"
  for v :: u16 and w :: u32
  using le_bytes_word [of v 2] le_bytes_word [of w 4] by (simp_all add: upt_rec)

lemma le_val_fields:
  "le_val [ucast v, ucast (drop_bit 8 v)] = unat v"
  "le_val [ucast w, ucast (drop_bit 8 w), ucast (drop_bit 16 w), ucast (drop_bit 24 w)] = unat w"
  for v :: u16 and w :: u32
  unfolding le_bytes_fields by (simp_all add: le_val_word)

section \<open>Bits\<close>

lemma xor_right_cancel [simp]: "a XOR c = b XOR c \<longleftrightarrow> a = b" for a b c :: "'a::len word"
  by (auto simp: bit_eq_iff bit_xor_iff)

lemma xor_left_cancel [simp]: "c XOR a = c XOR b \<longleftrightarrow> a = b" for a b c :: "'a::len word"
  by (auto simp: bit_eq_iff bit_xor_iff)

lemma u8_less: "unat (b :: u8) < 256"
  using unsigned_less [of b] by simp

lemma unat_ucast_up [simp]:
  assumes "LENGTH('a) \<le> LENGTH('b)"
  shows "unat (ucast (a :: 'a::len word) :: 'b::len word) = unat a"
proof -
  have "unat a < 2 ^ LENGTH('a)" by (rule unsigned_less)
  also have "\<dots> \<le> 2 ^ LENGTH('b)" using assms by (rule power_increasing) simp
  finally show ?thesis by (simp add: unsigned_ucast_eq take_bit_nat_eq_self)
qed

lemma unat_u8_add:
  "unat a + n < 256 \<Longrightarrow> unat (a + of_nat n :: u8) = unat a + n"
  by (simp add: unat_word_ariths unat_of_nat)

lemma ucast_up_inject:
  assumes "LENGTH('a) \<le> LENGTH('b)"
  shows "(ucast (a :: 'a::len word) :: 'b::len word) = ucast b \<longleftrightarrow> a = b"
proof
  assume eq: "(ucast a :: 'b word) = ucast b"
  show "a = b"
  proof (rule bit_word_eqI)
    fix n
    assume "n < LENGTH('a)"
    with assms eq show "bit a n = bit b n" by (metis bit_ucast_iff less_le_trans)
  qed
qed simp

section \<open>Fixed-width codecs\<close>

text \<open>
  The interface every wire field and every trace record relies on: an encoder of constant
  width and a decoder that inverts it. Streams of records are read by striding.
\<close>

fun chop :: "nat \<Rightarrow> nat \<Rightarrow> 'a list \<Rightarrow> 'a list list" where
  "chop w 0 bs = []"
| "chop w (Suc n) bs = take w bs # chop w n (drop w bs)"

locale byte_codec =
  fixes enc :: "'a \<Rightarrow> u8 list" and dec :: "u8 list \<Rightarrow> 'a" and width :: nat
  assumes length_enc: "length (enc x) = width"
    and dec_enc: "dec (enc x) = x"
begin

lemma enc_inject: "enc x = enc y \<longleftrightarrow> x = y"
  using dec_enc by metis

lemma take_enc: "take width (enc x @ r) = enc x"
  by (simp add: length_enc)

lemma drop_enc: "drop width (enc x @ r) = r"
  by (simp add: length_enc)

lemma length_stream: "length (concat (map enc xs)) = width * length xs"
  by (induction xs) (simp_all add: length_enc)

lemma stream_dec: "map dec (chop width (length xs) (concat (map enc xs) @ r)) = xs"
  by (induction xs) (simp_all add: length_enc dec_enc)

end

section \<open>C strings\<close>

definition cstr :: "u8 list \<Rightarrow> u8 list" where
  \<comment> \<open>the C string in a buffer: what precedes the first NUL\<close>
  "cstr buf = takeWhile (\<lambda>c. c \<noteq> 0) buf"

lemma cstr_append_zero: "cstr (p @ 0 # z) = cstr p"
  by (auto simp: cstr_def takeWhile_append takeWhile_eq_all_conv intro: sym)

end
