(* ===== verification/Asid.thy ===== *)
theory Asid
  imports Prelude "HOL-Library.Sublist"
begin

unbundle bit_operations_syntax

text \<open>
  The ASID-over-MIDI codec of \<open>libs/asid/src/asid_core.c\<close>: the per-chip register file with its
  dirty flags, the two message buffers, \<open>asid_core_init\<close>, \<open>asid_core_flush\<close> and
  \<open>asid_core_set_reg\<close>. The buffers are the C arrays and every access to them can fault, so the
  lemmas about \<open>Some\<close> results are also the proof that no access leaves an array and that the
  8-bit cursors do not wrap.
\<close>

section \<open>Tables and state\<close>

text \<open>The constants of \<open>revice_asid.h\<close>, at the types they are used at.\<close>

abbreviation (input) ASID_SYSEX_START :: u8 where "ASID_SYSEX_START \<equiv> 0xf0"
abbreviation (input) ASID_SYSEX_MAN_ID :: u8 where "ASID_SYSEX_MAN_ID \<equiv> 0x2d"
abbreviation (input) ASID_SYSEX_STOP :: u8 where "ASID_SYSEX_STOP \<equiv> 0xf7"
abbreviation (input) ASID_CMD_START :: u8 where "ASID_CMD_START \<equiv> 0x4c"
abbreviation (input) ASID_CMD_STOP :: u8 where "ASID_CMD_STOP \<equiv> 0x4d"
abbreviation (input) ASID_CMD_UPDATE :: u8 where "ASID_CMD_UPDATE \<equiv> 0x4e"
abbreviation (input) ASID_CMD_UPDATE2 :: u8 where "ASID_CMD_UPDATE2 \<equiv> 0x50"
abbreviation (input) ASID_CMD_UPDATE_REG :: u8 where "ASID_CMD_UPDATE_REG \<equiv> 0x6c"
abbreviation (input) ASID_CMD_UPDATE2_REG :: u8 where "ASID_CMD_UPDATE2_REG \<equiv> 0x6d"
abbreviation (input) ASID_CHIPS :: "'a::numeral" where "ASID_CHIPS \<equiv> 2"
abbreviation (input) ASID_NUM_REGS :: "'a::numeral" where "ASID_NUM_REGS \<equiv> 25"
abbreviation (input) ASID_MAX_SID_REG :: u8 where "ASID_MAX_SID_REG \<equiv> 24"
abbreviation (input) ASID_BUFFER_SIZE :: "'a::numeral" where "ASID_BUFFER_SIZE \<equiv> 256"
abbreviation (input) ASID_CYCLE_PAD :: u64 where "ASID_CYCLE_PAD \<equiv> 20000"
abbreviation (input) ASID_IRQ_FLUSH_THRESHOLD :: u64 where "ASID_IRQ_FLUSH_THRESHOLD \<equiv> 256"

definition asid_start_msg :: "u8 list" where
  "asid_start_msg = [ASID_SYSEX_START, ASID_SYSEX_MAN_ID, ASID_CMD_START, ASID_SYSEX_STOP]"
definition asid_stop_msg :: "u8 list" where
  "asid_stop_msg = [ASID_SYSEX_START, ASID_SYSEX_MAN_ID, ASID_CMD_STOP, ASID_SYSEX_STOP]"
definition asid_prefix :: "u8 list" where "asid_prefix = [ASID_SYSEX_START, ASID_SYSEX_MAN_ID]"
definition asid_update :: "u8 list" where "asid_update = [ASID_CMD_UPDATE, ASID_CMD_UPDATE2]"
definition asid_update_reg :: "u8 list" where "asid_update_reg = [ASID_CMD_UPDATE_REG, ASID_CMD_UPDATE2_REG]"

definition regmap :: "u8 list" where
  "regmap = [0, 1, 2, 3, 5, 6, 7, 8, 9, 10, 12, 13, 14,
     15, 16, 17, 19, 20, 21, 22, 23, 24, 4, 11, 18]"

definition regmask :: "u8 list" where
  "regmask = [255, 255, 255, 15, 255, 255, 255, 255,
     255, 255, 15, 255, 255, 255, 255, 255,
     255, 15, 255, 255, 255, 7, 255, 255, 255]"

record asid_chip_t =
  update_buffer :: "u8 list"
  update_reg_buffer :: "u8 list"
  sid_register :: "u8 list"
  sid_modified :: "bool list"
  sid_modified_flag :: bool

record asid_core_t =
  chips :: "asid_chip_t list"
  use_update_reg :: bool
  bytes_saved :: u32

type_synonym 'h asid_emit_fn = "u8 \<Rightarrow> u8 list \<Rightarrow> u64 \<Rightarrow> 'h \<Rightarrow> 'h"

section \<open>Initialisation\<close>

definition asid_chip_zero :: asid_chip_t where
  "asid_chip_zero = \<lparr>update_buffer = replicate ASID_BUFFER_SIZE 0, update_reg_buffer = replicate ASID_BUFFER_SIZE 0,
     sid_register = replicate ASID_NUM_REGS 0, sid_modified = replicate ASID_NUM_REGS False, sid_modified_flag = False\<rparr>"

definition asid_seed_buffer :: "u8 list \<Rightarrow> u8 list \<Rightarrow> nat \<Rightarrow> u8 list option" where
  \<comment> \<open>\<open>memcpy\<close> of the prefix, then the chip's command byte after it\<close>
  "asid_seed_buffer buf cmds chip = do {
     buf \<leftarrow> aput buf 0 asid_prefix;
     cmd \<leftarrow> aget cmds chip;
     aset buf (length asid_prefix) cmd
   }"

definition asid_init_chip :: "nat \<Rightarrow> asid_core_t \<Rightarrow> asid_core_t option" where
  "asid_init_chip i core = do {
     state \<leftarrow> aget (chips core) i;
     ub \<leftarrow> asid_seed_buffer (update_buffer state) asid_update i;
     rb \<leftarrow> asid_seed_buffer (update_reg_buffer state) asid_update_reg i;
     cs \<leftarrow> aset (chips core) i (state\<lparr>update_buffer := ub, update_reg_buffer := rb\<rparr>);
     Some (core\<lparr>chips := cs\<rparr>)
   }"

definition asid_core_init :: "int \<Rightarrow> asid_core_t option" where
  "asid_core_init use = for_each asid_init_chip [0..<ASID_CHIPS]
     \<lparr>chips = replicate ASID_CHIPS asid_chip_zero, use_update_reg = (use \<noteq> 0), bytes_saved = 0\<rparr>"

section \<open>Flush\<close>

definition asid_reg_step :: "asid_chip_t \<Rightarrow> nat \<Rightarrow> u8 list \<times> u8 \<Rightarrow> (u8 list \<times> u8) option" where
  "asid_reg_step state i = (\<lambda>(buf, t). do {
     reg \<leftarrow> aget regmap i;
     dirty \<leftarrow> aget (sid_modified state) (unat reg);
     if \<not> dirty then Some (buf, t)
     else do {
       val \<leftarrow> aget (sid_register state) (unat reg);
       buf \<leftarrow> aset buf (unat t) (if 0x7f < val then reg OR 0x40 else reg);
       buf \<leftarrow> aset buf (unat (t + 1)) (val AND 0x7f);
       Some (buf, t + 2)
     }
   })"

definition asid_upd_step ::
    "asid_chip_t \<Rightarrow> nat \<Rightarrow> u8 list \<times> u8 \<times> u32 \<times> u32 \<Rightarrow> (u8 list \<times> u8 \<times> u32 \<times> u32) option" where
  "asid_upd_step state i = (\<lambda>(buf, p, mask, msb). do {
     mapped_reg \<leftarrow> aget regmap i;
     dirty \<leftarrow> aget (sid_modified state) (unat mapped_reg);
     if \<not> dirty then Some (buf, p, mask, msb)
     else do {
       val \<leftarrow> aget (sid_register state) (unat mapped_reg);
       buf \<leftarrow> aset buf (unat p) (val AND 0x7f);
       Some (buf, p + 1, mask OR push_bit i 1,
         if 0x7f < val then msb OR push_bit i 1 else msb)
     }
   })"

definition asid_bits_step :: "nat \<Rightarrow> u8 list \<times> u8 \<times> u32 \<Rightarrow> (u8 list \<times> u8 \<times> u32) option" where
  \<comment> \<open>seven bits of a header word per byte, least significant first\<close>
  "asid_bits_step i = (\<lambda>(buf, m, bits). do {
     buf \<leftarrow> aset buf (unat m) (ucast (bits AND 0x7f));
     Some (buf, m + 1, drop_bit 7 bits)
   })"

definition asid_reg_form :: "asid_chip_t \<Rightarrow> (u8 list \<times> u8) option" where
  "asid_reg_form state = do {
     (buf, t) \<leftarrow> for_each (asid_reg_step state) [0..<ASID_NUM_REGS] (update_reg_buffer state, 3);
     buf \<leftarrow> aset buf (unat t) ASID_SYSEX_STOP;
     Some (buf, t + 1)
   }"

definition asid_upd_form :: "asid_chip_t \<Rightarrow> (u8 list \<times> u8) option" where
  "asid_upd_form state = do {
     (buf, p, mask, msb) \<leftarrow>
       for_each (asid_upd_step state) [0..<ASID_NUM_REGS] (update_buffer state, 3 + 8, 0, 0);
     (buf, m, _) \<leftarrow> for_each asid_bits_step [0..<4] (buf, 3, mask);
     (buf, m, _) \<leftarrow> for_each asid_bits_step [0..<4] (buf, m, msb);
     buf \<leftarrow> aset buf (unat p) ASID_SYSEX_STOP;
     Some (buf, p + 1)
   }"

definition asid_core_flush ::
    "'h asid_emit_fn \<Rightarrow> u8 \<Rightarrow> u64 \<Rightarrow> asid_core_t \<times> 'h \<Rightarrow> (asid_core_t \<times> 'h) option" where
  "asid_core_flush emit chip nsec = (\<lambda>(core, h).
     if ASID_CHIPS \<le> chip then Some (core, h)
     else do {
       state \<leftarrow> aget (chips core) (unat chip);
       if \<not> sid_modified_flag state then Some (core, h)
       else do {
         (rbuf, t) \<leftarrow> asid_reg_form state;
         (ubuf, p) \<leftarrow> asid_upd_form state;
         cs \<leftarrow> aset (chips core) (unat chip)
           (state\<lparr>update_reg_buffer := rbuf, update_buffer := ubuf,
              sid_modified_flag := False, sid_modified := replicate ASID_NUM_REGS False\<rparr>);
         if use_update_reg core \<and> t < p then do {
           msg \<leftarrow> aslice rbuf 0 (unat t);
           Some (core\<lparr>chips := cs, bytes_saved := bytes_saved core + ucast (p - t)\<rparr>,
             emit chip msg nsec h)
         }
         else do {
           msg \<leftarrow> aslice ubuf 0 (unat p);
           Some (core\<lparr>chips := cs\<rparr>, emit chip msg nsec h)
         }
       }
     })"

definition asid_core_set_reg ::
    "'h asid_emit_fn \<Rightarrow> u8 \<Rightarrow> u8 \<Rightarrow> u8 \<Rightarrow> asid_core_t \<times> 'h \<Rightarrow> (asid_core_t \<times> 'h) option" where
  "asid_core_set_reg emit chip reg byte = (\<lambda>(core, h).
     if ASID_CHIPS \<le> chip \<or> ASID_NUM_REGS \<le> reg then Some (core, h)
     else do {
       state \<leftarrow> aget (chips core) (unat chip);
       m \<leftarrow> aget regmask (unat reg);
       let byte = m AND byte;
       old \<leftarrow> aget (sid_register state) (unat reg);
       if old = byte then Some (core, h)
       else do {
         dirty \<leftarrow> aget (sid_modified state) (unat reg);
         (core, h) \<leftarrow> (if (reg = 4 \<or> reg = 11 \<or> reg = 18) \<and> dirty
                       then asid_core_flush emit chip 0 (core, h) else Some (core, h));
         state \<leftarrow> aget (chips core) (unat chip);
         regs \<leftarrow> aset (sid_register state) (unat reg) byte;
         mods \<leftarrow> aset (sid_modified state) (unat reg) True;
         cs \<leftarrow> aset (chips core) (unat chip)
           (state\<lparr>sid_register := regs, sid_modified := mods, sid_modified_flag := True\<rparr>);
         Some (core\<lparr>chips := cs\<rparr>, h)
       }
     })"

definition asid_should_flush_on_irq :: "u64 \<Rightarrow> u64 \<Rightarrow> bool" where
  "asid_should_flush_on_irq irq_clk last_irq = (ASID_IRQ_FLUSH_THRESHOLD < irq_clk - last_irq)"

section \<open>The messages\<close>

text \<open>The dirty registers among the first \<open>n\<close> of the packing order, and the two encodings.\<close>

definition dirty_upto :: "asid_chip_t \<Rightarrow> nat \<Rightarrow> u8 list" where
  "dirty_upto st n = filter (\<lambda>r. sid_modified st ! unat r) (take n regmap)"

abbreviation dirty_regs :: "asid_chip_t \<Rightarrow> u8 list" where
  "dirty_regs st \<equiv> dirty_upto st 25"

definition reg_pair :: "u8 \<Rightarrow> u8 \<Rightarrow> u8 list" where
  "reg_pair r v = [if 0x7f < v then r OR 0x40 else r, v AND 0x7f]"

definition reg_pairs :: "asid_chip_t \<Rightarrow> u8 list \<Rightarrow> u8 list" where
  "reg_pairs st rs = concat (map (\<lambda>r. reg_pair r (sid_register st ! unat r)) rs)"

definition chip_wf :: "asid_chip_t \<Rightarrow> bool" where
  "chip_wf st \<longleftrightarrow> length (update_buffer st) = 256 \<and> length (update_reg_buffer st) = 256 \<and>
     length (sid_register st) = 25 \<and> length (sid_modified st) = 25"

lemma length_regmap [simp]: "length regmap = 25"
  by (simp add: regmap_def)

lemma length_regmask [simp]: "length regmask = 25"
  by (simp add: regmask_def)

lemma regmap_bound: "r \<in> set regmap \<Longrightarrow> unat r < 25"
  by (auto simp: regmap_def)

lemma regmap_nth_bound: "i < 25 \<Longrightarrow> unat (regmap ! i) < 25"
  by (simp add: regmap_bound)

lemma dirty_upto_0 [simp]: "dirty_upto st 0 = []"
  by (simp add: dirty_upto_def)

lemma dirty_upto_Suc:
  "i < 25 \<Longrightarrow> dirty_upto st (Suc i) =
     dirty_upto st i @ (if sid_modified st ! unat (regmap ! i) then [regmap ! i] else [])"
  by (simp add: dirty_upto_def take_Suc_conv_app_nth)

lemma length_dirty_upto: "length (dirty_upto st n) \<le> n"
  by (metis dirty_upto_def le_trans length_filter_le length_take min.cobounded2)

lemma length_reg_pairs: "length (reg_pairs st rs) = 2 * length rs"
  by (induction rs) (simp_all add: reg_pairs_def reg_pair_def)

lemma asid_reg_step_ok:
  assumes wf: "chip_wf st" and i: "i < 25"
    and buf: "length buf = 256" "unat t = 3 + 2 * length (dirty_upto st i)"
      "take (unat t) buf = pre @ reg_pairs st (dirty_upto st i)"
  shows "\<exists>buf' t'. asid_reg_step st i (buf, t) = Some (buf', t') \<and> length buf' = 256 \<and>
    unat t' = 3 + 2 * length (dirty_upto st (Suc i)) \<and>
    take (unat t') buf' = pre @ reg_pairs st (dirty_upto st (Suc i))"
proof (cases "sid_modified st ! unat (regmap ! i)")
  case False
  with assms regmap_nth_bound [OF i] show ?thesis
    by (simp add: asid_reg_step_def aget_def chip_wf_def dirty_upto_Suc)
next
  case True
  have b: "unat t + 2 < 256" using buf(2) length_dirty_upto [of st i] i by simp
  then have t: "unat (t + 1) = Suc (unat t)" "unat (t + 2) = Suc (Suc (unat t))"
    using unat_u8_add [of t 1] unat_u8_add [of t 2] by simp_all
  have "take (Suc (Suc (unat t))) (buf[unat t := x, Suc (unat t) := y]) = take (unat t) buf @ [x, y]"
    for x y using b buf(1) by (simp add: take_Suc_update)
  with True assms regmap_nth_bound [OF i] b t show ?thesis
    by (simp add: asid_reg_step_def aget_def aset_def chip_wf_def dirty_upto_Suc reg_pairs_def reg_pair_def)
qed

lemma asid_reg_form_ok:
  assumes "chip_wf st"
  shows "\<exists>buf t. asid_reg_form st = Some (buf, t) \<and> length buf = 256 \<and>
    unat t = 4 + 2 * length (dirty_regs st) \<and>
    take (unat t) buf = take 3 (update_reg_buffer st) @ reg_pairs st (dirty_regs st) @ [0xf7]"
proof -
  let ?P = "\<lambda>i (buf, t). length buf = 256 \<and> unat (t :: u8) = 3 + 2 * length (dirty_upto st i) \<and>
    take (unat t) buf = take 3 (update_reg_buffer st) @ reg_pairs st (dirty_upto st i)"
  have "\<exists>s. for_each (asid_reg_step st) [0..<25] (update_reg_buffer st, 3) = Some s \<and> ?P 25 s"
  proof (rule for_each_upt)
    show "?P 0 (update_reg_buffer st, 3)" using assms by (simp add: chip_wf_def reg_pairs_def)
  next
    fix i s
    assume "i < 25" "?P i s"
    with asid_reg_step_ok [OF assms] show "\<exists>s'. asid_reg_step st i s = Some s' \<and> ?P (Suc i) s'"
      by (cases s) fastforce
  qed
  then obtain buf t where f: "for_each (asid_reg_step st) [0..<25] (update_reg_buffer st, 3) = Some (buf, t)"
    "length buf = 256" "unat t = 3 + 2 * length (dirty_regs st)"
    "take (unat t) buf = take 3 (update_reg_buffer st) @ reg_pairs st (dirty_regs st)" by auto
  have b: "unat t + 1 < 256" using f(3) length_dirty_upto [of st 25] by simp
  then have "unat (t + 1) = Suc (unat t)" using unat_u8_add [of t 1] by simp
  moreover have "take (Suc (unat t)) (buf[unat t := 0xf7]) = take (unat t) buf @ [0xf7]"
    by (rule take_Suc_update) (use b f(2) in simp)
  ultimately show ?thesis using f b by (simp add: asid_reg_form_def aset_def)
qed

text \<open>The header words of the standard form, and its payload.\<close>

primrec mask_of :: "(nat \<Rightarrow> bool) \<Rightarrow> nat \<Rightarrow> u32" where
  "mask_of P 0 = 0"
| "mask_of P (Suc i) = (if P i then mask_of P i OR push_bit i 1 else mask_of P i)"

definition sevens :: "u32 \<Rightarrow> u8 list" where
  "sevens w = map (\<lambda>i. ucast (drop_bit (7 * i) w AND 0x7f)) [0..<4]"

definition dirty_bit :: "asid_chip_t \<Rightarrow> nat \<Rightarrow> bool" where
  "dirty_bit st i = sid_modified st ! unat (regmap ! i)"

definition msb_bit :: "asid_chip_t \<Rightarrow> nat \<Rightarrow> bool" where
  "msb_bit st i = (dirty_bit st i \<and> 0x7f < sid_register st ! unat (regmap ! i))"

definition payload :: "asid_chip_t \<Rightarrow> u8 list \<Rightarrow> u8 list" where
  "payload st rs = map (\<lambda>r. (sid_register st ! unat r) AND 0x7f) rs"

definition upd_msg :: "u8 list \<Rightarrow> asid_chip_t \<Rightarrow> u8 list" where
  "upd_msg pre st = pre @ sevens (mask_of (dirty_bit st) 25) @ sevens (mask_of (msb_bit st) 25) @
     payload st (dirty_regs st) @ [0xf7]"

definition reg_msg :: "u8 list \<Rightarrow> asid_chip_t \<Rightarrow> u8 list" where
  "reg_msg pre st = pre @ reg_pairs st (dirty_regs st) @ [0xf7]"

lemma asid_upd_step_ok:
  assumes wf: "chip_wf st" and i: "i < 25"
    and buf: "length buf = 256" "unat p = 11 + length (dirty_upto st i)"
      "take 3 buf = pre" "drop 11 (take (unat p) buf) = payload st (dirty_upto st i)"
  shows "\<exists>buf' p'. asid_upd_step st i (buf, p, mask_of (dirty_bit st) i, mask_of (msb_bit st) i) =
      Some (buf', p', mask_of (dirty_bit st) (Suc i), mask_of (msb_bit st) (Suc i)) \<and> length buf' = 256 \<and>
    unat p' = 11 + length (dirty_upto st (Suc i)) \<and> take 3 buf' = pre \<and>
    drop 11 (take (unat p') buf') = payload st (dirty_upto st (Suc i))"
proof (cases "sid_modified st ! unat (regmap ! i)")
  case False
  with assms regmap_nth_bound [OF i] show ?thesis
    by (simp add: asid_upd_step_def aget_def chip_wf_def dirty_upto_Suc dirty_bit_def msb_bit_def)
next
  case True
  have b: "unat p + 1 < 256" using buf(2) length_dirty_upto [of st i] i by simp
  then have p: "unat (p + 1) = Suc (unat p)" using unat_u8_add [of p 1] by simp
  have "take (Suc (unat p)) (buf[unat p := x]) = take (unat p) buf @ [x]" for x
    using b buf(1) by (simp add: take_Suc_update)
  then have "drop 11 (take (unat (p + 1)) (buf[unat p := x])) = payload st (dirty_upto st i) @ [x]" for x
    using b buf p by simp
  with True assms regmap_nth_bound [OF i] b p show ?thesis
    by (simp add: asid_upd_step_def aget_def aset_def chip_wf_def dirty_upto_Suc dirty_bit_def
        msb_bit_def payload_def)
qed

lemma update_four:
  "k + 4 \<le> length xs \<Longrightarrow>
     xs[k := a, Suc k := b, k + 2 := c, k + 3 := d] = take k xs @ [a, b, c, d] @ drop (k + 4) xs"
  by (rule nth_equalityI) (auto simp: nth_append nth_list_update nth_Cons' not_less)

lemma sevens_loop:
  assumes "length buf = 256" "unat m = k" "k + 4 < 256"
  shows "for_each asid_bits_step [0..<4] (buf, m, w) =
    Some (take k buf @ sevens w @ drop (k + 4) buf, m + 4, drop_bit 28 w)"
proof -
  have u: "unat (m + 1) = Suc k" "unat (m + 2) = k + 2" "unat (m + 3) = k + 3"
    using assms unat_u8_add [of m 1] unat_u8_add [of m 2] unat_u8_add [of m 3] by simp_all
  have four: "[0..<4] = [0, 1, 2, 3 :: nat]" by (simp add: upt_rec)
  show ?thesis using assms u
    by (simp add: four asid_bits_step_def aset_def sevens_def drop_bit_drop_bit add.assoc
        update_four [simplified] del: drop_bit_and)
qed

lemma take_prefix_drop: "length h = k \<Longrightarrow> take (k + n) (h @ drop k xs) = h @ drop k (take (k + n) xs)"
  by (simp add: take_drop add.commute)

lemma asid_upd_form_ok:
  assumes "chip_wf st"
  shows "\<exists>buf p. asid_upd_form st = Some (buf, p) \<and> length buf = 256 \<and>
    unat p = 12 + length (dirty_regs st) \<and>
    take (unat p) buf = upd_msg (take 3 (update_buffer st)) st"
proof -
  let ?n = "length (dirty_regs st)"
  let ?pre = "take 3 (update_buffer st)"
  let ?mask = "mask_of (dirty_bit st) 25" and ?msb = "mask_of (msb_bit st) 25"
  let ?P = "\<lambda>i (buf, p, mask, msb). length buf = 256 \<and> unat (p :: u8) = 11 + length (dirty_upto st i) \<and>
    take 3 buf = ?pre \<and> drop 11 (take (unat p) buf) = payload st (dirty_upto st i) \<and>
    mask = mask_of (dirty_bit st) i \<and> msb = mask_of (msb_bit st) i"
  have "\<exists>s. for_each (asid_upd_step st) [0..<25] (update_buffer st, 3 + 8, 0, 0) = Some s \<and> ?P 25 s"
  proof (rule for_each_upt)
    show "?P 0 (update_buffer st, 3 + 8, 0, 0)" using assms by (simp add: chip_wf_def payload_def)
  next
    fix i s
    assume "i < 25" "?P i s"
    with asid_upd_step_ok [OF assms] show "\<exists>s'. asid_upd_step st i s = Some s' \<and> ?P (Suc i) s'"
      by (cases s) fastforce
  qed
  then obtain buf p where f:
    "for_each (asid_upd_step st) [0..<25] (update_buffer st, 3 + 8, 0, 0) = Some (buf, p, ?mask, ?msb)"
    "length buf = 256" "unat p = 11 + ?n" "take 3 buf = ?pre"
    "drop 11 (take (unat p) buf) = payload st (dirty_regs st)" by auto
  have n: "?n \<le> 25" by (rule length_dirty_upto)
  have b: "unat (p + 1) = 12 + ?n" using f(3) n unat_u8_add [of p 1] by simp
  let ?hdr = "?pre @ sevens ?mask @ sevens ?msb"
  let ?buf = "?hdr @ drop 11 buf"
  have len: "length ?hdr = 11" using assms by (simp add: chip_wf_def sevens_def)
  have one: "for_each asid_bits_step [0..<4] (buf, 3, ?mask) =
      Some (?pre @ sevens ?mask @ drop 7 buf, 7, drop_bit 28 ?mask)"
    using sevens_loop [of buf 3 3 ?mask] f by simp
  have two: "for_each asid_bits_step [0..<4] (?pre @ sevens ?mask @ drop 7 buf, 7, ?msb) =
      Some (?buf, 11, drop_bit 28 ?msb)"
    using sevens_loop [of "?pre @ sevens ?mask @ drop 7 buf" 7 7 ?msb] f assms
    by (simp add: chip_wf_def sevens_def)
  have t: "take (Suc (unat p)) (?buf[unat p := 0xf7]) = take (unat p) ?buf @ [0xf7]"
    by (rule take_Suc_update) (use f n len in simp)
  have "take (unat p) ?buf = ?hdr @ drop 11 (take (unat p) buf)"
    unfolding f(3) by (rule take_prefix_drop [OF len])
  with t f(5) have "take (12 + ?n) (?buf[unat p := 0xf7]) = upd_msg ?pre st"
    using f(3) by (simp add: upd_msg_def)
  then show ?thesis using f(1,2,3) one two b n len
    by (simp add: asid_upd_form_def aset_def del: upt_Suc)
qed

section \<open>A receiver\<close>

text \<open>
  The ASID receiver the messages are for: it reads the two update forms of either chip back
  into the register writes they carry.
\<close>

fun unsevens :: "u8 list \<Rightarrow> u32" where
  "unsevens [] = 0"
| "unsevens (b # bs) = ucast b OR push_bit 7 (unsevens bs)"

fun unpack :: "u32 \<Rightarrow> u32 \<Rightarrow> nat list \<Rightarrow> u8 list \<Rightarrow> (u8 \<times> u8) list" where
  "unpack present msb [] ps = []"
| "unpack present msb (i # is) ps =
     (if bit present i
      then (case ps of [] \<Rightarrow> []
            | p # ps' \<Rightarrow> (regmap ! i, if bit msb i then p OR 0x80 else p) # unpack present msb is ps')
      else unpack present msb is ps)"

fun unpair :: "u8 list \<Rightarrow> (u8 \<times> u8) list" where
  "unpair (r # v # bs) = (r AND 0x3f, if bit r 6 then v OR 0x80 else v) # unpair bs"
| "unpair _ = []"

definition receive :: "u8 list \<Rightarrow> (u8 \<times> (u8 \<times> u8) list) option" where
  "receive msg =
     (case msg of a # b # cmd # body \<Rightarrow>
        if a = 0xf0 \<and> b = 0x2d \<and> body \<noteq> [] \<and> last body = 0xf7 then
          let body = butlast body;
              upd = unpack (unsevens (take 4 body)) (unsevens (take 4 (drop 4 body))) [0..<25] (drop 8 body)
          in if cmd = 0x4e then Some (0, upd) else if cmd = 0x50 then Some (1, upd)
             else if cmd = 0x6c then Some (0, unpair body) else if cmd = 0x6d then Some (1, unpair body)
             else None
        else None
      | _ \<Rightarrow> None)"

lemma u8_msb: "0x7f < v \<longleftrightarrow> bit v 7" for v :: u8
proof -
  have "bit v 7 \<longleftrightarrow> odd (unat v div 2 ^ 7)"
    by (simp only: bit_iff_odd [symmetric] bit_unsigned_iff) simp
  moreover have "unat v div 128 < 2" using u8_less [of v] by (simp add: less_mult_imp_div_less)
  ultimately show ?thesis
    by (cases "unat v div 128 = 0") (auto simp: div_eq_0_iff less_2_cases_iff word_less_nat_alt)
qed

lemma u8_split: "(if bit v 7 then (v AND 0x7f) OR 0x80 else v AND 0x7f) = v" for v :: u8
proof -
  have m: "(0x7f :: u8) = mask 7" "(0x80 :: u8) = push_bit 7 1" by (simp_all add: mask_eq_exp_minus_1)
  show ?thesis unfolding m
    by (rule bit_eqI) (auto simp: bit_simps less_Suc_eq eval_nat_numeral simp del: push_bit_Suc)
qed

lemma bit_mask_of: "n \<le> 32 \<Longrightarrow> bit (mask_of P n) i \<longleftrightarrow> i < n \<and> P i"
  by (induction n) (auto simp: bit_simps less_Suc_eq)

lemma bit_unsevens:
  assumes "i < 28"
  shows "bit (unsevens (sevens w)) i = bit w i"
proof -
  have m: "(0x7f :: u32) = mask 7" by (simp add: mask_eq_exp_minus_1)
  have four: "[0..<4] = [0, 1, 2, 3 :: nat]" by (simp add: upt_rec)
  consider "i < 7" | "7 \<le> i" "i < 14" | "14 \<le> i" "i < 21" | "21 \<le> i" using assms by linarith
  then show ?thesis
    using assms by cases (auto simp: sevens_def four m bit_simps simp del: push_bit_Suc)
qed

lemma map_nth_regmap: "map ((!) regmap) [0..<25] = regmap"
  using map_nth [of regmap] by (simp only: length_regmap)

lemma unpack_payload:
  assumes "\<And>i. i \<in> set is \<Longrightarrow> bit p i = dirty_bit st i" "\<And>i. i \<in> set is \<Longrightarrow> bit m i = msb_bit st i"
  shows "unpack p m is (payload st (filter (\<lambda>r. sid_modified st ! unat r) (map ((!) regmap) is))) =
    map (\<lambda>r. (r, sid_register st ! unat r)) (filter (\<lambda>r. sid_modified st ! unat r) (map ((!) regmap) is))"
  using assms
proof (induction "is")
  case Nil
  then show ?case by (simp add: payload_def)
next
  case (Cons i "is")
  have "bit p i = dirty_bit st i" "bit m i = msb_bit st i" using Cons.prems by simp_all
  moreover note IH = Cons.IH [OF Cons.prems(1) Cons.prems(2)]
  ultimately show ?case
    using u8_split [of "sid_register st ! unat (regmap ! i)"]
    by (simp add: payload_def dirty_bit_def msb_bit_def u8_msb)
qed

definition writes_out :: "asid_chip_t \<Rightarrow> (u8 \<times> u8) list" where
  \<comment> \<open>the register writes a flush of the chip carries\<close>
  "writes_out st = map (\<lambda>r. (r, sid_register st ! unat r)) (dirty_regs st)"

lemma unpack_msg:
  "unpack (unsevens (sevens (mask_of (dirty_bit st) 25))) (unsevens (sevens (mask_of (msb_bit st) 25)))
     [0..<25] (payload st (dirty_regs st)) = writes_out st"
  using unpack_payload [of "[0..<25]" _ st] unfolding map_nth_regmap
  by (simp add: bit_unsevens bit_mask_of writes_out_def dirty_upto_def del: upt_Suc)

lemma reg_code: "r \<in> set regmap \<Longrightarrow>
    (r OR 0x40) AND 0x3f = r \<and> r AND 0x3f = r \<and> bit (r OR 0x40) 6 \<and> \<not> bit r 6 \<and> r OR 0x40 < 0x80 \<and> r < 0x80"
  by (auto simp: regmap_def)

lemma unpair_pairs:
  "set rs \<subseteq> set regmap \<Longrightarrow> unpair (reg_pairs st rs) = map (\<lambda>r. (r, sid_register st ! unat r)) rs"
proof (induction rs)
  case Nil
  then show ?case by (simp add: reg_pairs_def)
next
  case (Cons r rs)
  then show ?case
    using u8_split [of "sid_register st ! unat r"] reg_code [of r]
    by (auto simp: reg_pairs_def reg_pair_def u8_msb)
qed

lemma set_dirty_regs: "set (dirty_regs st) \<subseteq> set regmap"
  by (auto simp: dirty_upto_def dest: in_set_takeD)

lemma length_sevens [simp]: "length (sevens w) = 4"
  by (simp add: sevens_def)

lemma receive_upd:
  assumes "c < 2"
  shows "receive (upd_msg [0xf0, 0x2d, asid_update ! c] st) = Some (of_nat c, writes_out st)"
  using assms unpack_msg [of st]
  by (auto simp: receive_def upd_msg_def asid_update_def less_2_cases_iff Let_def butlast_append simp del: upt_Suc)

lemma receive_reg:
  assumes "c < 2"
  shows "receive (reg_msg [0xf0, 0x2d, asid_update_reg ! c] st) = Some (of_nat c, writes_out st)"
  using assms unpair_pairs [OF set_dirty_regs, of st]
  by (auto simp: receive_def reg_msg_def asid_update_reg_def less_2_cases_iff Let_def butlast_append writes_out_def)

section \<open>The codec's invariant\<close>

definition chip_ok :: "nat \<Rightarrow> asid_chip_t \<Rightarrow> bool" where
  "chip_ok c st \<longleftrightarrow> chip_wf st \<and> take 3 (update_buffer st) = [0xf0, 0x2d, asid_update ! c] \<and>
     take 3 (update_reg_buffer st) = [0xf0, 0x2d, asid_update_reg ! c] \<and>
     (sid_modified_flag st \<longleftrightarrow> True \<in> set (sid_modified st))"

definition core_wf :: "asid_core_t \<Rightarrow> bool" where
  "core_wf core \<longleftrightarrow> length (chips core) = 2 \<and> (\<forall>c<2. chip_ok c (chips core ! c))"

definition saves :: "asid_core_t \<Rightarrow> asid_chip_t \<Rightarrow> bool" where
  "saves core st = (use_update_reg core \<and> length (dirty_regs st) < 8)"

definition flush_msg :: "asid_core_t \<Rightarrow> nat \<Rightarrow> u8 list" where
  "flush_msg core c =
     (let st = chips core ! c
      in if saves core st then reg_msg [0xf0, 0x2d, asid_update_reg ! c] st
         else upd_msg [0xf0, 0x2d, asid_update ! c] st)"

definition flushed :: "u8 list \<Rightarrow> u8 list \<Rightarrow> nat \<Rightarrow> asid_core_t \<Rightarrow> asid_core_t" where
  \<comment> \<open>the core after a flush, up to the contents of the two working buffers\<close>
  "flushed ub rb c core =
     (let st = chips core ! c
      in core\<lparr>chips := (chips core)[c := st\<lparr>update_reg_buffer := rb, update_buffer := ub,
             sid_modified_flag := False, sid_modified := replicate 25 False\<rparr>],
           bytes_saved := bytes_saved core +
             (if saves core st then 8 - of_nat (length (dirty_regs st)) else 0)\<rparr>)"

lemma chip_ok_nth: "core_wf core \<Longrightarrow> c < 2 \<Longrightarrow> chip_ok c (chips core ! c)"
  by (simp add: core_wf_def)

lemma core_wf_update:
  "core_wf core \<Longrightarrow> c < 2 \<Longrightarrow> chip_ok c st \<Longrightarrow> chips core' = (chips core)[c := st] \<Longrightarrow> core_wf core'"
  by (auto simp: core_wf_def nth_list_update)

lemma asid_core_flush_ok:
  assumes wf: "core_wf core" and c: "unat chip < 2"
    and flag: "sid_modified_flag (chips core ! unat chip)"
  shows "\<exists>ub rb. asid_core_flush emit chip nsec (core, h) =
      Some (flushed ub rb (unat chip) core, emit chip (flush_msg core (unat chip)) nsec h) \<and>
    core_wf (flushed ub rb (unat chip) core)"
proof -
  let ?c = "unat chip"
  let ?st = "chips core ! ?c"
  let ?n = "length (dirty_regs ?st)"
  have ok: "chip_ok ?c ?st" "chip_wf ?st" using chip_ok_nth [OF wf c] by (simp_all add: chip_ok_def)
  obtain rb t where r: "asid_reg_form ?st = Some (rb, t)" "length rb = 256" "unat t = 4 + 2 * ?n"
    "take (unat t) rb = reg_msg [0xf0, 0x2d, asid_update_reg ! ?c] ?st"
    using asid_reg_form_ok [OF ok(2)] ok(1) by (auto simp: chip_ok_def reg_msg_def)
  obtain ub p where u: "asid_upd_form ?st = Some (ub, p)" "length ub = 256" "unat p = 12 + ?n"
    "take (unat p) ub = upd_msg [0xf0, 0x2d, asid_update ! ?c] ?st"
    using asid_upd_form_ok [OF ok(2)] ok(1) by (auto simp: chip_ok_def)
  have n: "?n \<le> 25" by (rule length_dirty_upto)
  have lt: "t < p \<longleftrightarrow> ?n < 8" using r(3) u(3) by (auto simp: word_less_nat_alt)
  have diff: "ucast (p - t) = (8 - of_nat ?n :: u32)" if "?n < 8"
  proof -
    have "unat (p - t) = 8 - ?n" using that r(3) u(3) lt by (simp add: unat_sub word_le_nat_alt)
    then have "(ucast (p - t) :: u32) = of_nat (8 - ?n)" by (metis of_nat_unat)
    with that show ?thesis by (simp add: of_nat_diff)
  qed
  have pre: "take 3 rb = take 3 (take (unat t) rb)" "take 3 ub = take 3 (take (unat p) ub)"
    using r(3) u(3) by simp_all
  have "chip_ok ?c (?st\<lparr>update_reg_buffer := rb, update_buffer := ub,
      sid_modified_flag := False, sid_modified := replicate 25 False\<rparr>)"
    using ok pre r(2,4) u(2,4) by (simp add: chip_ok_def chip_wf_def reg_msg_def upd_msg_def)
  then have wf': "core_wf (flushed ub rb ?c core)"
    by (rule core_wf_update [OF wf c]) (simp add: flushed_def Let_def)
  have "\<not> 2 \<le> chip" "?c < length (chips core)"
    using c wf by (auto simp: word_le_nat_alt core_wf_def)
  moreover have "4 + 2 * ?n \<le> 256" "12 + ?n \<le> 256" using n by simp_all
  ultimately have "asid_core_flush emit chip nsec (core, h) =
      Some (flushed ub rb ?c core, emit chip (flush_msg core ?c) nsec h)"
    using flag r u lt diff
    by (auto simp: asid_core_flush_def flushed_def flush_msg_def saves_def array_simps Let_def)
  with wf' show ?thesis by blast
qed

text \<open>No access of either operation leaves an array, whatever the caller passes and does.\<close>

lemma asid_flush_wf:
  assumes "core_wf core"
  shows "\<exists>core' h'. asid_core_flush emit chip nsec (core, h) = Some (core', h') \<and> core_wf core'"
proof (cases "unat chip < 2 \<and> sid_modified_flag (chips core ! unat chip)")
  case True
  then show ?thesis using asid_core_flush_ok [OF assms, of chip emit nsec h] by blast
next
  case False
  then have "asid_core_flush emit chip nsec (core, h) = Some (core, h)"
    using assms by (auto simp: asid_core_flush_def core_wf_def aget_def word_le_nat_alt)
  with assms show ?thesis by blast
qed

lemma asid_set_reg_wf:
  assumes wf: "core_wf core"
  shows "\<exists>core' h'. asid_core_set_reg emit chip reg byte (core, h) = Some (core', h') \<and> core_wf core'"
proof (cases "unat chip < 2 \<and> unat reg < 25 \<and>
    sid_register (chips core ! unat chip) ! unat reg \<noteq> (regmask ! unat reg AND byte)")
  case False
  then have "asid_core_set_reg emit chip reg byte (core, h) = Some (core, h)"
    using chip_ok_nth [OF wf, of "unat chip"] wf
    by (auto simp: asid_core_set_reg_def core_wf_def chip_ok_def chip_wf_def array_simps word_le_nat_alt Let_def)
  with wf show ?thesis by blast
next
  case True
  let ?c = "unat chip" and ?r = "unat reg" and ?v = "regmask ! unat reg AND byte"
  let ?flush = "(reg = 4 \<or> reg = 11 \<or> reg = 18) \<and> sid_modified (chips core ! ?c) ! ?r"
  have "\<exists>core1 h1. (if ?flush then asid_core_flush emit chip 0 (core, h) else Some (core, h)) = Some (core1, h1) \<and> core_wf core1"
    using asid_flush_wf [OF wf, of emit chip 0 h] wf by (cases ?flush) simp_all
  then obtain core1 h1 where mid:
    "(if ?flush then asid_core_flush emit chip 0 (core, h) else Some (core, h)) = Some (core1, h1)" "core_wf core1" by blast
  let ?st = "chips core1 ! ?c"
  let ?st' = "?st\<lparr>sid_register := (sid_register ?st)[?r := ?v], sid_modified := (sid_modified ?st)[?r := True],
      sid_modified_flag := True\<rparr>"
  have ok: "chip_ok ?c (chips core ! ?c)" "chip_ok ?c ?st" using chip_ok_nth wf mid(2) True by blast+
  then have "chip_ok ?c ?st'" using True by (auto simp: chip_ok_def chip_wf_def set_update_memI)
  then have "core_wf (core1\<lparr>chips := (chips core1)[?c := ?st']\<rparr>)"
    by (rule core_wf_update [OF mid(2) True [THEN conjunct1]]) simp
  moreover have "asid_core_set_reg emit chip reg byte (core, h) = Some (core1\<lparr>chips := (chips core1)[?c := ?st']\<rparr>, h1)"
    using True ok wf mid
    by (simp add: asid_core_set_reg_def core_wf_def chip_ok_def chip_wf_def array_simps word_le_nat_alt Let_def)
  ultimately show ?thesis by blast
qed

section \<open>What the codec promises\<close>

text \<open>
  The contract, with no bytes in it: two register files with dirty sets, and the list of update
  batches, each a list of (register, value) writes in the packing order. A control register
  that is dirty is sent before it changes again.
\<close>

datatype asid_op = Set_Reg u8 u8 u8 | Flush u8 u64

definition asid_do :: "'h asid_emit_fn \<Rightarrow> asid_op \<Rightarrow> asid_core_t \<times> 'h \<Rightarrow> (asid_core_t \<times> 'h) option" where
  "asid_do emit op = (case op of
     Set_Reg chip reg byte \<Rightarrow> asid_core_set_reg emit chip reg byte
   | Flush chip nsec \<Rightarrow> asid_core_flush emit chip nsec)"

definition asid_run ::
    "'h asid_emit_fn \<Rightarrow> int \<Rightarrow> asid_op list \<Rightarrow> 'h \<Rightarrow> (asid_core_t \<times> 'h) option" where
  "asid_run emit use ops h = do {
     core \<leftarrow> asid_core_init use;
     for_each (asid_do emit) ops (core, h)
   }"

record asid_spec =
  sp_file :: "nat \<Rightarrow> nat \<Rightarrow> u8"
  sp_dirty :: "nat \<Rightarrow> nat \<Rightarrow> bool"
  sp_out :: "(u8 \<times> (u8 \<times> u8) list) list"

definition sp_init :: asid_spec where
  "sp_init = \<lparr>sp_file = (\<lambda>_ _. 0), sp_dirty = (\<lambda>_ _. False), sp_out = []\<rparr>"

definition control_reg :: "nat \<Rightarrow> bool" where
  "control_reg r \<longleftrightarrow> r \<in> {4, 11, 18}"

definition sp_flush :: "nat \<Rightarrow> asid_spec \<Rightarrow> asid_spec" where
  "sp_flush c s =
     (let rs = filter (\<lambda>r. sp_dirty s c (unat r)) regmap
      in if rs = [] then s
         else s\<lparr>sp_out := sp_out s @ [(of_nat c, map (\<lambda>r. (r, sp_file s c (unat r))) rs)],
                sp_dirty := (sp_dirty s)(c := \<lambda>_. False)\<rparr>)"

definition sp_set :: "nat \<Rightarrow> nat \<Rightarrow> u8 \<Rightarrow> asid_spec \<Rightarrow> asid_spec" where
  "sp_set c r v s =
     (if sp_file s c r = v then s
      else
        let s = (if control_reg r \<and> sp_dirty s c r then sp_flush c s else s)
        in s\<lparr>sp_file := (sp_file s)(c := (sp_file s c)(r := v)),
             sp_dirty := (sp_dirty s)(c := (sp_dirty s c)(r := True))\<rparr>)"

definition sp_do :: "asid_op \<Rightarrow> asid_spec \<Rightarrow> asid_spec" where
  "sp_do op s = (case op of
     Set_Reg chip reg byte \<Rightarrow>
       if chip < 2 \<and> reg < 25 then sp_set (unat chip) (unat reg) (regmask ! unat reg AND byte) s else s
   | Flush chip nsec \<Rightarrow> if chip < 2 then sp_flush (unat chip) s else s)"

definition chip_rel :: "asid_spec \<Rightarrow> nat \<Rightarrow> asid_chip_t \<Rightarrow> bool" where
  "chip_rel s c st \<longleftrightarrow>
     (\<forall>r<25. sid_register st ! r = sp_file s c r \<and> sid_modified st ! r = sp_dirty s c r)"

definition asid_rel :: "asid_core_t \<Rightarrow> u8 list list \<Rightarrow> asid_spec \<Rightarrow> bool" where
  "asid_rel core out s \<longleftrightarrow>
     core_wf core \<and> (\<forall>c<2. chip_rel s c (chips core ! c)) \<and> map receive out = map Some (sp_out s)"

lemma regmap_onto: "unat ` set regmap = {..<25}"
proof (rule card_subset_eq)
  have "distinct regmap" by (simp add: regmap_def)
  then have "card (set regmap) = 25" using distinct_card by fastforce
  moreover have "inj_on unat (set regmap)" by (rule inj_onI) (simp add: word_unat_eq_iff)
  ultimately show "card (unat ` set regmap) = card {..<25 :: nat}" by (simp add: card_image)
qed (use regmap_bound in auto)

lemma dirty_regs_rel:
  assumes "chip_rel s c st"
  shows "dirty_regs st = filter (\<lambda>r. sp_dirty s c (unat r)) regmap"
  using assms regmap_bound by (auto simp: dirty_upto_def chip_rel_def intro!: filter_cong)

lemma writes_out_rel:
  assumes "chip_rel s c st"
  shows "writes_out st = map (\<lambda>r. (r, sp_file s c (unat r))) (filter (\<lambda>r. sp_dirty s c (unat r)) regmap)"
  using assms regmap_bound by (auto simp: writes_out_def dirty_regs_rel [OF assms] chip_rel_def)

lemma flag_rel:
  assumes "chip_ok c st"
  shows "sid_modified_flag st \<longleftrightarrow> dirty_regs st \<noteq> []"
proof -
  have "sid_modified_flag st \<longleftrightarrow> (\<exists>i\<in>{..<25}. sid_modified st ! i)"
    using assms by (auto simp: chip_ok_def chip_wf_def in_set_conv_nth)
  also have "\<dots> \<longleftrightarrow> (\<exists>r\<in>set regmap. sid_modified st ! unat r)"
    unfolding regmap_onto [symmetric] by simp
  finally show ?thesis by (auto simp: dirty_upto_def filter_empty_conv)
qed

lemma receive_flush:
  "c < 2 \<Longrightarrow> receive (flush_msg core c) = Some (of_nat c, writes_out (chips core ! c))"
  by (simp add: flush_msg_def Let_def receive_upd receive_reg)

text \<open>A MIDI system exclusive message: manufacturer id, then data bytes with the top bit clear.\<close>

definition framed :: "u8 list \<Rightarrow> bool" where
  "framed msg \<longleftrightarrow> length msg \<le> 37 \<and> take 2 msg = [0xf0, 0x2d] \<and> last msg = 0xf7 \<and>
     (\<forall>b\<in>set (butlast (drop 2 msg)). b < 0x80)"

lemma low_seven: "v AND 0x7f < 0x80" for v :: "u8"
proof -
  have "v AND 0x7f \<le> 0x7f" by (rule word_and_le1)
  then show ?thesis by (rule order.strict_trans1) simp
qed

lemma sevens_low: "b \<in> set (sevens w) \<Longrightarrow> b < 0x80"
proof -
  assume "b \<in> set (sevens w)"
  then obtain x where "b = (ucast (x AND 0x7f :: u32) :: u8)" by (auto simp: sevens_def)
  then have "b = ucast x AND 0x7f" by (simp add: unsigned_and_eq)
  then show ?thesis by (simp add: low_seven)
qed

lemma reg_pairs_low:
  assumes "set rs \<subseteq> set regmap"
  shows "\<forall>b\<in>set (reg_pairs st rs). b < 0x80"
  using assms reg_code by (induction rs) (auto simp: reg_pairs_def reg_pair_def low_seven)

lemma framed_flush_msg:
  assumes "c < 2"
  shows "framed (flush_msg core c)"
proof -
  have "length (dirty_regs (chips core ! c)) \<le> 25" by (rule length_dirty_upto)
  moreover have "asid_update ! c < 0x80" "asid_update_reg ! c < 0x80"
    using assms by (auto simp: asid_update_def asid_update_reg_def less_2_cases_iff)
  ultimately show ?thesis
    using reg_pairs_low [OF set_dirty_regs]
    by (auto simp: framed_def flush_msg_def saves_def Let_def upd_msg_def reg_msg_def payload_def
        length_reg_pairs butlast_append low_seven dest: sevens_low)
qed

definition asid_fresh :: "int \<Rightarrow> asid_core_t" where
  \<comment> \<open>the core after \<open>asid_core_init\<close>\<close>
  "asid_fresh use = \<lparr>chips = map (\<lambda>c. asid_chip_zero
       \<lparr>update_buffer := [0xf0, 0x2d, asid_update ! c] @ replicate 253 0,
        update_reg_buffer := [0xf0, 0x2d, asid_update_reg ! c] @ replicate 253 0\<rparr>) [0, 1],
     use_update_reg = (use \<noteq> 0), bytes_saved = 0\<rparr>"

lemma asid_seed_buffer_zero:
  "c < length cmds \<Longrightarrow>
     asid_seed_buffer (replicate 256 0) cmds c = Some ([0xf0, 0x2d, cmds ! c] @ replicate 253 0)"
  by (simp add: asid_seed_buffer_def asid_prefix_def array_simps drop_Cons' numeral_eq_Suc)

lemma asid_core_init_fresh: "asid_core_init use = Some (asid_fresh use)"
proof -
  have two: "[0..<2] = [0, 1 :: nat]" by (simp add: upt_rec)
  show ?thesis
    by (simp add: asid_core_init_def two asid_init_chip_def asid_chip_zero_def asid_seed_buffer_zero
        aget_def aset_def asid_fresh_def asid_update_def asid_update_reg_def numeral_2_eq_2)
qed

lemma asid_rel_fresh: "asid_rel (asid_fresh use) [] sp_init"
  by (auto simp: asid_rel_def asid_fresh_def asid_chip_zero_def core_wf_def chip_ok_def chip_wf_def
      chip_rel_def sp_init_def less_2_cases_iff)

section \<open>The transport\<close>

text \<open>
  What the codec needs of the emit callback: while the transport is up, a well-formed message is
  appended unchanged to what has been sent, and the transport stays up.
\<close>

locale asid_transport =
  fixes emit :: "'h asid_emit_fn" and sent :: "'h \<Rightarrow> u8 list list" and up :: "'h \<Rightarrow> bool"
    and timely :: "u64 \<Rightarrow> bool"
  assumes sent_emit: "up h \<Longrightarrow> framed msg \<Longrightarrow> timely nsec \<Longrightarrow> sent (emit chip msg nsec h) = sent h @ [msg]"
    and up_emit: "up h \<Longrightarrow> framed msg \<Longrightarrow> timely nsec \<Longrightarrow> up (emit chip msg nsec h)"
    and timely_now: "timely 0"
begin

definition op_timely :: "asid_op \<Rightarrow> bool" where
  "op_timely op \<longleftrightarrow> (case op of Set_Reg _ _ _ \<Rightarrow> True | Flush _ nsec \<Rightarrow> timely nsec)"

definition rel :: "asid_core_t \<times> 'h \<Rightarrow> asid_spec \<Rightarrow> bool" where
  "rel = (\<lambda>(core, h) s. up h \<and> asid_rel core (sent h) s)"

lemma flush_sim:
  assumes "rel (core, h) s" "unat chip < 2" "timely nsec"
  shows "\<exists>core' h'. asid_core_flush emit chip nsec (core, h) = Some (core', h') \<and>
    rel (core', h') (sp_flush (unat chip) s)"
proof -
  let ?c = "unat chip"
  let ?st = "chips core ! ?c"
  have rel: "up h" "core_wf core" "chip_rel s ?c ?st" "map receive (sent h) = map Some (sp_out s)"
    using assms by (auto simp: rel_def asid_rel_def)
  have len: "?c < length (chips core)" using rel(2) assms(2) by (simp add: core_wf_def)
  note dirty = dirty_regs_rel [OF rel(3)]
  show ?thesis
  proof (cases "sid_modified_flag ?st")
    case False
    then have "sp_flush ?c s = s"
      using flag_rel [OF chip_ok_nth [OF rel(2) assms(2)]] dirty by (simp add: sp_flush_def Let_def)
    moreover have "\<not> 2 \<le> chip" using assms(2) by (simp add: word_le_nat_alt)
    ultimately show ?thesis using False assms len
      by (simp add: asid_core_flush_def aget_def)
  next
    case True
    obtain ub rb where f: "asid_core_flush emit chip nsec (core, h) =
        Some (flushed ub rb ?c core, emit chip (flush_msg core ?c) nsec h)"
      "core_wf (flushed ub rb ?c core)"
      using asid_core_flush_ok [OF rel(2) assms(2) True, of emit nsec h] by blast
    have ne: "filter (\<lambda>r. sp_dirty s ?c (unat r)) regmap \<noteq> []"
      using True flag_rel [OF chip_ok_nth [OF rel(2) assms(2)]] dirty by simp
    have "rel (flushed ub rb ?c core, emit chip (flush_msg core ?c) nsec h) (sp_flush ?c s)"
      using f(2) rel assms ne len
      by (auto simp: rel_def asid_rel_def sp_flush_def Let_def up_emit sent_emit framed_flush_msg
          receive_flush writes_out_rel flushed_def chip_rel_def nth_list_update)
    with f(1) show ?thesis by blast
  qed
qed

lemma put_rel:
  assumes "rel (core, h) s" "c < 2" "r < 25"
    and st: "st = chips core ! c"
  shows "\<exists>regs mods cs.
     aget (chips core) c = Some st \<and>
     aset (sid_register st) r v = Some regs \<and> aset (sid_modified st) r True = Some mods \<and>
     aset (chips core) c (st\<lparr>sid_register := regs, sid_modified := mods, sid_modified_flag := True\<rparr>) = Some cs \<and>
     rel (core\<lparr>chips := cs\<rparr>, h)
       (s\<lparr>sp_file := (sp_file s)(c := (sp_file s c)(r := v)),
          sp_dirty := (sp_dirty s)(c := (sp_dirty s c)(r := True))\<rparr>)"
proof -
  have wf: "core_wf core" "length (chips core) = 2" and ok: "chip_ok c st"
    using assms by (auto simp: rel_def asid_rel_def core_wf_def)
  then have len: "length (sid_register st) = 25" "length (sid_modified st) = 25"
    by (auto simp: chip_ok_def chip_wf_def)
  let ?st = "st\<lparr>sid_register := (sid_register st)[r := v], sid_modified := (sid_modified st)[r := True],
      sid_modified_flag := True\<rparr>"
  have "chip_ok c ?st"
    using ok len assms(3) by (auto simp: chip_ok_def chip_wf_def set_update_memI)
  then have "core_wf (core\<lparr>chips := (chips core)[c := ?st]\<rparr>)"
    by (rule core_wf_update [OF wf(1) assms(2)]) simp
  then have "rel (core\<lparr>chips := (chips core)[c := ?st]\<rparr>, h)
      (s\<lparr>sp_file := (sp_file s)(c := (sp_file s c)(r := v)),
         sp_dirty := (sp_dirty s)(c := (sp_dirty s c)(r := True))\<rparr>)"
    using assms wf len by (auto simp: rel_def asid_rel_def chip_rel_def nth_list_update)
  then show ?thesis using wf len assms by (simp add: array_simps)
qed

lemma set_sim:
  assumes "rel (core, h) s" "unat chip < 2" "unat reg < 25"
  shows "\<exists>core' h'. asid_core_set_reg emit chip reg byte (core, h) = Some (core', h') \<and>
    rel (core', h') (sp_set (unat chip) (unat reg) (regmask ! unat reg AND byte) s)"
proof -
  let ?c = "unat chip" and ?r = "unat reg" and ?v = "regmask ! unat reg AND byte"
  let ?st = "chips core ! ?c"
  let ?flush = "(reg = 4 \<or> reg = 11 \<or> reg = 18) \<and> sid_modified ?st ! ?r"
  have rel: "core_wf core" "chip_rel s ?c ?st" and ok: "chip_ok ?c ?st"
    using assms by (auto simp: rel_def asid_rel_def core_wf_def)
  have guard: "\<not> (2 \<le> chip \<or> 25 \<le> reg)" using assms(2,3) by (auto simp: word_le_nat_alt)
  have get: "aget (chips core) ?c = Some ?st" "aget regmask ?r = Some (regmask ! ?r)"
    "aget (sid_register ?st) ?r = Some (sid_register ?st ! ?r)"
    "aget (sid_modified ?st) ?r = Some (sid_modified ?st ! ?r)"
    using rel(1) ok assms by (simp_all add: core_wf_def chip_ok_def chip_wf_def array_simps)
  have cr: "control_reg ?r \<longleftrightarrow> reg = 4 \<or> reg = 11 \<or> reg = 18"
    by (simp add: control_reg_def word_unat_eq_iff)
  have view: "sid_register ?st ! ?r = sp_file s ?c ?r" "sid_modified ?st ! ?r = sp_dirty s ?c ?r"
    using rel(2) assms(3) by (simp_all add: chip_rel_def)
  show ?thesis
  proof (cases "sid_register ?st ! ?r = ?v")
    case True
    then show ?thesis using assms guard get view
      by (simp add: asid_core_set_reg_def sp_set_def Let_def)
  next
    case False
    have iff: "?flush \<longleftrightarrow> control_reg ?r \<and> sp_dirty s ?c ?r" using cr view(2) by simp
    define s1 where "s1 = (if control_reg ?r \<and> sp_dirty s ?c ?r then sp_flush ?c s else s)"
    have "\<exists>core1 h1. (if ?flush then asid_core_flush emit chip 0 (core, h) else Some (core, h)) =
        Some (core1, h1) \<and> rel (core1, h1) s1"
    proof (cases ?flush)
      case True
      with flush_sim [OF assms(1,2) timely_now] iff show ?thesis by (simp add: s1_def)
    next
      case False
      with assms(1) iff show ?thesis unfolding s1_def by (simp only: if_False) blast
    qed
    then obtain core1 h1 where mid:
      "(if ?flush then asid_core_flush emit chip 0 (core, h) else Some (core, h)) = Some (core1, h1)"
      "rel (core1, h1) s1" by blast
    show ?thesis
      using put_rel [OF mid(2) assms(2,3) refl, of ?v] False guard get mid view
      by (auto simp: asid_core_set_reg_def sp_set_def Let_def s1_def [symmetric])
  qed
qed

lemma do_sim:
  assumes "rel (core, h) s" "op_timely op"
  shows "\<exists>core' h'. asid_do emit op (core, h) = Some (core', h') \<and> rel (core', h') (sp_do op s)"
proof (cases op)
  case (Set_Reg chip reg byte)
  then show ?thesis
    using set_sim [OF assms(1), of chip reg byte] assms
    by (cases "chip < 2 \<and> reg < 25")
      (auto simp: asid_do_def sp_do_def word_less_nat_alt asid_core_set_reg_def word_le_nat_alt not_less)
next
  case (Flush chip nsec)
  then show ?thesis
    using flush_sim [OF assms(1), of chip nsec] assms
    by (cases "chip < 2")
      (auto simp: op_timely_def asid_do_def sp_do_def word_less_nat_alt asid_core_flush_def word_le_nat_alt not_less)
qed

lemma run_sim:
  "rel (core, h) s \<Longrightarrow> list_all op_timely ops \<Longrightarrow>
    \<exists>core' h'. for_each (asid_do emit) ops (core, h) = Some (core', h') \<and> rel (core', h') (fold sp_do ops s)"
proof (induction ops arbitrary: core h s)
  case Nil
  then show ?case by simp
next
  case (Cons op ops)
  obtain core1 h1 where s: "asid_do emit op (core, h) = Some (core1, h1)" "rel (core1, h1) (sp_do op s)"
    using do_sim [OF Cons.prems(1), of op] Cons.prems(2) by auto
  from Cons.IH [OF s(2)] s(1) Cons.prems(2) show ?case by simp
qed

end

section \<open>What a receiver hears\<close>

text \<open>
  For one register of one chip: the values written to it, the changes among them, the values
  the batches carry for it, and those together with a change not yet sent.
\<close>

definition writes :: "nat \<Rightarrow> nat \<Rightarrow> asid_op list \<Rightarrow> u8 list" where
  "writes c r ops = concat (map (\<lambda>op. case op of
       Set_Reg chip reg byte \<Rightarrow> if unat chip = c \<and> unat reg = r then [regmask ! r AND byte] else []
     | Flush _ _ \<Rightarrow> []) ops)"

definition changes :: "u8 list \<Rightarrow> u8 list" where
  \<comment> \<open>the register starts at zero; a write of the value it has is no change\<close>
  "changes vs = tl (remdups_adj (0 # vs))"

definition heard :: "nat \<Rightarrow> nat \<Rightarrow> (u8 \<times> (u8 \<times> u8) list) list \<Rightarrow> u8 list" where
  "heard c r out = concat (map (\<lambda>(chip, ws).
     if unat chip = c then map snd (filter (\<lambda>(reg, v). unat reg = r) ws) else []) out)"

definition pend :: "nat \<Rightarrow> nat \<Rightarrow> asid_spec \<Rightarrow> u8 list" where
  "pend c r s = heard c r (sp_out s) @ (if sp_dirty s c r then [sp_file s c r] else [])"

lemma changes_snoc:
  "changes (vs @ [v]) = (if last (0 # vs) = v then changes vs else changes vs @ [v])"
proof (cases vs rule: rev_cases)
  case Nil
  then show ?thesis by (simp add: changes_def)
next
  case (snoc us u)
  have "remdups_adj ((0 # us) @ [u, v]) = remdups_adj ((0 # us) @ [u]) @ (if u = v then [] else [v])"
    by (rule remdups_adj_append_two)
  moreover have "remdups_adj (0 # us @ [u]) \<noteq> []" by simp
  ultimately show ?thesis using snoc by (auto simp: changes_def tl_append2)
qed

lemma filter_single: "distinct xs \<Longrightarrow> x \<in> set xs \<Longrightarrow> filter (\<lambda>y. y = x) xs = [x]"
  by (induction xs) (auto intro: filter_False)

lemma filter_regmap:
  assumes "r < 25"
  shows "filter (\<lambda>x. P x \<and> unat x = r) regmap = (if P (of_nat r) then [of_nat r] else [])"
proof -
  have "unat (of_nat r :: u8) = r" using assms by (simp add: unat_of_nat)
  then have eq: "unat x = r \<longleftrightarrow> x = of_nat r" for x :: u8 by auto
  have "r \<in> unat ` set regmap" using assms by (simp add: regmap_onto)
  then obtain x where "x \<in> set regmap" "unat x = r" by auto
  then have mem: "of_nat r \<in> set regmap" by (simp add: eq)
  have "distinct regmap" by (simp add: regmap_def)
  with mem have "filter (\<lambda>x. x = of_nat r) regmap = [of_nat r]"
    by (simp add: filter_single)
  then have "filter P (filter (\<lambda>x. x = of_nat r) regmap) = (if P (of_nat r) then [of_nat r] else [])"
    by simp
  then show ?thesis by (simp add: eq conj_commute)
qed

lemma pend_flush:
  assumes "r < 25" "c < 2" "c' < 2"
  shows "pend c r (sp_flush c' s) = pend c r s"
proof -
  have u: "unat (of_nat c' :: u8) = c'" "unat (of_nat r :: u8) = r" using assms by (simp_all add: unat_of_nat)
  have f: "filter (\<lambda>(reg, v). unat reg = r) (map (\<lambda>x. (x, sp_file s c (unat x)))
        (filter (\<lambda>x. sp_dirty s c (unat x)) regmap)) = (if sp_dirty s c r then [(of_nat r, sp_file s c r)] else [])"
    using filter_regmap [OF assms(1), of "\<lambda>x. sp_dirty s c (unat x)"] u
    by (simp add: filter_map o_def conj_commute)
  have ne: "filter (\<lambda>x. sp_dirty s c (unat x)) regmap = [] \<Longrightarrow> \<not> sp_dirty s c r"
    using f by (auto split: if_splits)
  show ?thesis using f ne u
    by (auto simp: sp_flush_def pend_def heard_def Let_def)
qed

lemma sp_flush_simps [simp]:
  "sp_file (sp_flush c s) = sp_file s"
  "sp_dirty (sp_flush c s) c = (\<lambda>_. False) \<or> sp_flush c s = s"
  by (simp_all add: sp_flush_def Let_def)

lemma sp_flush_clean:
  assumes "r < 25"
  shows "\<not> sp_dirty (sp_flush c s) c r"
proof -
  have "r \<in> unat ` set regmap" using assms by (simp add: regmap_onto)
  then show ?thesis by (auto simp: sp_flush_def Let_def filter_empty_conv)
qed

lemma pend_clean: "\<not> sp_dirty s c r \<Longrightarrow> pend c r s = heard c r (sp_out s)"
  by (simp add: pend_def)

lemma pend_set_other:
  assumes "r < 25" "c < 2" "c' < 2" "(c', r') \<noteq> (c, r)"
  shows "pend c r (sp_set c' r' v s) = pend c r s"
  using assms pend_flush [OF assms(1-3), of s]
  by (auto simp: sp_set_def Let_def) (auto simp: pend_def)

lemma pend_set_same:
  assumes "r < 25" "c < 2"
  shows "pend c r (sp_set c r v s) =
    (if sp_file s c r = v then pend c r s
     else if sp_dirty s c r \<and> \<not> control_reg r then butlast (pend c r s) @ [v]
     else pend c r s @ [v])"
proof (cases "control_reg r \<and> sp_dirty s c r")
  case True
  then show ?thesis
    using pend_flush [OF assms assms(2), of s] sp_flush_clean [OF assms(1), of c s]
    by (auto simp: sp_set_def Let_def) (auto simp: pend_def)
next
  case False
  then show ?thesis by (auto simp: sp_set_def Let_def pend_def)
qed

lemma sp_file_set: "sp_file (sp_set c' r' v s) c r = (if (c', r') = (c, r) then v else sp_file s c r)"
  by (auto simp: sp_set_def Let_def)

text \<open>The history invariant of one register.\<close>

definition hist_inv :: "nat \<Rightarrow> nat \<Rightarrow> u8 list \<Rightarrow> asid_spec \<Rightarrow> bool" where
  "hist_inv c r vs s \<longleftrightarrow>
     sp_file s c r = last (0 # vs) \<and> last (0 # pend c r s) = sp_file s c r \<and>
     subseq (pend c r s) (changes vs) \<and> (control_reg r \<longrightarrow> pend c r s = changes vs)"

lemma hist_inv_init: "hist_inv c r [] sp_init"
  by (simp add: hist_inv_def sp_init_def pend_def heard_def changes_def)

lemma hist_inv_same:
  assumes "hist_inv c r vs s" "r < 25" "c < 2"
  shows "hist_inv c r (vs @ [v]) (sp_set c r v s)"
proof -
  have drop_last: "subseq (butlast (pend c r s)) (changes vs)" if "subseq (pend c r s) (changes vs)"
    by (rule subseq_order.trans [OF prefix_imp_subseq [OF prefixeq_butlast] that])
  show ?thesis
    using assms drop_last
    by (auto simp: hist_inv_def changes_snoc pend_set_same sp_file_set subseq_append_iff list_emb_append_mono)
qed

lemma hist_inv_other:
  assumes "hist_inv c r vs s" "r < 25" "c < 2"
  shows "(c', r') \<noteq> (c, r) \<Longrightarrow> c' < 2 \<Longrightarrow> hist_inv c r vs (sp_set c' r' v s)"
    and "c' < 2 \<Longrightarrow> hist_inv c r vs (sp_flush c' s)"
  using assms by (auto simp: hist_inv_def pend_set_other pend_flush sp_file_set)

lemma hist_inv_do:
  assumes "hist_inv c r vs s" "r < 25" "c < 2"
  shows "hist_inv c r (vs @ writes c r [op]) (sp_do op s)"
proof (cases op)
  case (Set_Reg chip reg byte)
  show ?thesis
  proof (cases "unat chip = c \<and> unat reg = r")
    case True
    then have "chip < 2" "reg < 25" using assms(2,3) by (simp_all add: word_less_nat_alt)
    with True Set_Reg show ?thesis
      using hist_inv_same [OF assms, of "regmask ! r AND byte"] by (simp add: sp_do_def writes_def)
  next
    case False
    with Set_Reg show ?thesis
      using hist_inv_other(1) [OF assms, of "unat chip" "unat reg"] assms(1)
      by (auto simp: sp_do_def writes_def word_less_nat_alt)
  qed
next
  case (Flush chip nsec)
  then show ?thesis
    using hist_inv_other(2) [OF assms, of "unat chip"] assms(1)
    by (auto simp: sp_do_def writes_def word_less_nat_alt)
qed

lemma hist_inv_run:
  assumes "r < 25" "c < 2"
  shows "hist_inv c r (writes c r ops) (fold sp_do ops sp_init)"
proof (induction ops rule: rev_induct)
  case Nil
  show ?case using hist_inv_init by (simp add: writes_def)
next
  case (snoc op ops)
  then show ?case using hist_inv_do [OF _ assms, of "writes c r ops" "fold sp_do ops sp_init" op]
    by (simp add: writes_def)
qed

lemma hist_inv_flushed:
  assumes "r < 25" "c < 2" and s: "s = fold sp_do (ops @ [Flush (of_nat c) nsec]) sp_init"
  shows "sp_file s c r = last (0 # writes c r ops)" "last (0 # heard c r (sp_out s)) = sp_file s c r"
    "subseq (heard c r (sp_out s)) (changes (writes c r ops))"
    "control_reg r \<Longrightarrow> heard c r (sp_out s) = changes (writes c r ops)"
proof -
  have c: "unat (of_nat c :: u8) = c" "(of_nat c :: u8) < 2"
    using assms(2) by (auto simp: unat_of_nat less_2_cases_iff)
  then have "s = sp_flush c (fold sp_do ops sp_init)" by (simp add: s sp_do_def)
  then have "\<not> sp_dirty s c r" by (simp add: sp_flush_clean [OF assms(1)])
  moreover have "hist_inv c r (writes c r ops) s"
    using hist_inv_run [OF assms(1,2), of "ops @ [Flush (of_nat c) nsec]"] s by (simp add: writes_def)
  ultimately show "sp_file s c r = last (0 # writes c r ops)" "last (0 # heard c r (sp_out s)) = sp_file s c r"
    "subseq (heard c r (sp_out s)) (changes (writes c r ops))"
    "control_reg r \<Longrightarrow> heard c r (sp_out s) = changes (writes c r ops)"
    by (simp_all add: hist_inv_def pend_clean)
qed

context asid_transport
begin

lemma run_refines:
  assumes "up h" "sent h = []" "list_all op_timely ops"
  shows "\<exists>core h'. asid_run emit use ops h = Some (core, h') \<and> up h' \<and>
    asid_rel core (sent h') (fold sp_do ops sp_init)"
proof -
  have "rel (asid_fresh use, h) sp_init" using assms asid_rel_fresh by (simp add: rel_def)
  from run_sim [OF this assms(3)] show ?thesis
    by (auto simp: asid_run_def asid_core_init_fresh rel_def)
qed

lemma run_in_sync:
  assumes "up h" "sent h = []" "c < 2" "list_all op_timely ops" "timely nsec"
  shows "\<exists>core h' out. asid_run emit use (ops @ [Flush (of_nat c) nsec]) h = Some (core, h') \<and>
    map receive (sent h') = map Some out \<and>
    (\<forall>r<25. sid_register (chips core ! c) ! r = last (0 # writes c r ops) \<and>
       last (0 # heard c r out) = last (0 # writes c r ops) \<and>
       subseq (heard c r out) (changes (writes c r ops)) \<and>
       (control_reg r \<longrightarrow> heard c r out = changes (writes c r ops)))"
proof -
  let ?ops = "ops @ [Flush (of_nat c) nsec]"
  obtain core h' where run: "asid_run emit use ?ops h = Some (core, h')"
    "asid_rel core (sent h') (fold sp_do ?ops sp_init)"
    using run_refines [OF assms(1,2), of ?ops use] assms(4,5) by (auto simp: op_timely_def)
  have "sid_register (chips core ! c) ! r = sp_file (fold sp_do ?ops sp_init) c r" if "r < 25" for r
    using run(2) that assms(3) by (simp add: asid_rel_def chip_rel_def)
  moreover have "map receive (sent h') = map Some (sp_out (fold sp_do ?ops sp_init))"
    using run(2) by (simp add: asid_rel_def)
  ultimately show ?thesis
    using run(1) hist_inv_flushed [OF _ assms(3) refl, of _ ops nsec] by metis
qed

end

section \<open>The capture transport and the properties\<close>

text \<open>The capturing emit callback of \<open>libs/asid/tests/test_asid.c\<close> (its 64 slots are not a bound here).\<close>

type_synonym capture_t = "(u8 \<times> u8 list \<times> u64) list"

definition cap_emit :: "capture_t asid_emit_fn" where
  "cap_emit chip msg nsec cap = cap @ [(chip, msg, nsec)]"

definition cap_bytes :: "capture_t \<Rightarrow> u8 list list" where
  "cap_bytes cap = map (\<lambda>(chip, msg, nsec). msg) cap"

interpretation capture: asid_transport cap_emit cap_bytes "\<lambda>_. True" "\<lambda>_. True"
  by unfold_locales (simp_all add: cap_emit_def cap_bytes_def)

interpretation framed_capture: asid_transport cap_emit cap_bytes "\<lambda>cap. \<forall>m\<in>set (cap_bytes cap). framed m"
    "\<lambda>_. True"
  by unfold_locales (auto simp: cap_emit_def cap_bytes_def)

lemma capture_timely [simp]: "list_all capture.op_timely ops" "list_all framed_capture.op_timely ops"
  by (simp_all add: list_all_iff capture.op_timely_def framed_capture.op_timely_def split: asid_op.split)

text \<open>C8: Whatever sequence of register writes and flushes the codec is given, no access leaves an
  array, and the messages it emits, read by a receiver, are exactly the update batches of the
  byte-free contract \<open>sp_do\<close>; the register files and the dirty sets are the contract's.\<close>

theorem asid_refines_contract:
  "\<exists>core cap. asid_run cap_emit use ops [] = Some (core, cap) \<and>
     asid_rel core (cap_bytes cap) (fold sp_do ops sp_init)"
  using capture.run_refines [of "[]" ops use] by (simp add: cap_bytes_def)

text \<open>C5: No edge of a control register is lost: after a closing flush, the values a receiver has
  been sent for register 4, 11 or 18 of a chip are exactly the changes written to it, in order.\<close>

theorem asid_control_edges:
  assumes "c < 2" "control_reg r"
  shows "\<exists>core cap out. asid_run cap_emit use (ops @ [Flush (of_nat c) nsec]) [] = Some (core, cap) \<and>
    map receive (cap_bytes cap) = map Some out \<and> heard c r out = changes (writes c r ops)"
proof -
  have "r < 25" using assms(2) by (auto simp: control_reg_def)
  with capture.run_in_sync [where h = "[]" and c = c and use = use and ops = ops and nsec = nsec] assms show ?thesis by (force simp: cap_bytes_def)
qed

lemma asid_control_edges_witness:
  "\<exists>core cap out. asid_run cap_emit 1 ([Set_Reg 0 4 0x11, Set_Reg 0 0 7, Set_Reg 0 4 0x10] @ [Flush (of_nat 0) 9]) []
       = Some (core, cap) \<and>
     map receive (cap_bytes cap) = map Some out \<and> heard 0 4 out = [0x11, 0x10]"
  using asid_control_edges [of 0 4 1 "[Set_Reg 0 4 0x11, Set_Reg 0 0 7, Set_Reg 0 4 0x10]" 9]
  by (simp add: control_reg_def writes_def changes_def regmask_def)

text \<open>C35: After a closing flush a receiver's register file is the codec's, and the codec's holds the
  last value written to each register, masked to its writable bits; the values sent for any register
  are a subsequence of the changes written to it.\<close>

theorem asid_receiver_in_sync:
  assumes "c < 2" "r < 25"
  shows "\<exists>core cap out. asid_run cap_emit use (ops @ [Flush (of_nat c) nsec]) [] = Some (core, cap) \<and>
    map receive (cap_bytes cap) = map Some out \<and>
    sid_register (chips core ! c) ! r = last (0 # writes c r ops) \<and>
    last (0 # heard c r out) = last (0 # writes c r ops) \<and>
    subseq (heard c r out) (changes (writes c r ops))"
proof -
  have "cap_bytes [] = []" by (simp add: cap_bytes_def)
  from capture.run_in_sync [OF TrueI this assms(1) capture_timely(1) TrueI, where use = use and ops = ops and nsec = nsec] assms(2) show ?thesis by blast
qed

lemma asid_receiver_in_sync_witness:
  "\<exists>core cap out. asid_run cap_emit 0 ([Set_Reg 1 3 0xff, Set_Reg 1 3 0x85] @ [Flush (of_nat 1) 0]) [] = Some (core, cap) \<and>
     map receive (cap_bytes cap) = map Some out \<and> sid_register (chips core ! 1) ! 3 = 5 \<and>
     last (0 # heard 1 3 out) = 5 \<and> subseq (heard 1 3 out) [15, 5]"
  using asid_receiver_in_sync [of 1 3 0 "[Set_Reg 1 3 0xff, Set_Reg 1 3 0x85]" 0]
  by (simp add: writes_def regmask_def changes_def)

text \<open>C39: Every message emitted is a well-formed system exclusive message: \<open>F0 2D\<close> first, \<open>F7\<close>
  last, only data bytes below \<open>80\<close> hex between, and at most 37 bytes, so far below the 256 of the
  working buffers.\<close>

theorem asid_messages_framed:
  "\<exists>core cap. asid_run cap_emit use ops [] = Some (core, cap) \<and> list_all framed (cap_bytes cap)"
  using framed_capture.run_refines [OF _ _ capture_timely(2), of "[]" use ops] by (auto simp: cap_bytes_def list_all_iff)

text \<open>C36: A flush of a dirty chip emits one message, with the caller's chip and time, that carries
  the value of every dirty register; with \<open>use_update_reg\<close> it is the shorter of the two forms, and
  \<open>bytes_saved\<close> grows by the bytes saved over the standard form; the chip is clean afterwards.\<close>

theorem asid_flush_shortest:
  assumes "core_wf core" "unat chip < 2" "sid_modified_flag (chips core ! unat chip)"
  shows "\<exists>core' msg. asid_core_flush cap_emit chip nsec (core, cap) = Some (core', cap @ [(chip, msg, nsec)]) \<and>
    (let n = length (dirty_regs (chips core ! unat chip))
     in receive msg = Some (chip, writes_out (chips core ! unat chip)) \<and>
        length msg = (if use_update_reg core then min (4 + 2 * n) (12 + n) else 12 + n) \<and>
        bytes_saved core' = bytes_saved core + of_nat (12 + n - length msg)) \<and>
    dirty_regs (chips core' ! unat chip) = [] \<and> \<not> sid_modified_flag (chips core' ! unat chip)"
proof -
  obtain ub rb where f: "asid_core_flush cap_emit chip nsec (core, cap) =
      Some (flushed ub rb (unat chip) core, cap @ [(chip, flush_msg core (unat chip), nsec)])"
    "core_wf (flushed ub rb (unat chip) core)"
    using asid_core_flush_ok [OF assms, of cap_emit nsec cap] by (auto simp: cap_emit_def)
  have len: "length (chips core) = 2" using assms(1) by (simp add: core_wf_def)
  have clean: "\<not> sid_modified_flag (chips (flushed ub rb (unat chip) core) ! unat chip)"
    using len assms(2) by (simp add: flushed_def Let_def)
  have "dirty_regs (chips (flushed ub rb (unat chip) core) ! unat chip) = []"
    using clean flag_rel [OF chip_ok_nth [OF f(2) assms(2)]] by simp
  moreover have "length (flush_msg core (unat chip)) =
      (let n = length (dirty_regs (chips core ! unat chip))
       in if use_update_reg core then min (4 + 2 * n) (12 + n) else 12 + n)"
    by (simp add: flush_msg_def saves_def reg_msg_def upd_msg_def payload_def length_reg_pairs Let_def)
  ultimately show ?thesis
    using f(1) clean receive_flush [OF assms(2), of core]
    by (simp add: Let_def flushed_def saves_def of_nat_diff)
qed

lemma asid_flush_shortest_witness:
  "\<exists>core core' msg. for_each (asid_do cap_emit) [Set_Reg 0 0 0x42] (asid_fresh 1, []) = Some (core, []) \<and>
     asid_core_flush cap_emit 0 5 (core, []) = Some (core', [(0, msg, 5)]) \<and>
     length msg = 6 \<and> bytes_saved core' = 7"
proof -
  let ?st = "chips (asid_fresh 1) ! 0"
  let ?core = "(asid_fresh 1)\<lparr>chips := (chips (asid_fresh 1))[0 := ?st\<lparr>sid_register := (sid_register ?st)[0 := 0x42],
      sid_modified := (sid_modified ?st)[0 := True], sid_modified_flag := True\<rparr>]\<rparr>"
  have run: "for_each (asid_do cap_emit) [Set_Reg 0 0 0x42] (asid_fresh 1, []) = Some (?core, [])"
    by (simp add: asid_do_def asid_core_set_reg_def asid_fresh_def asid_chip_zero_def aget_def aset_def
        regmask_def Let_def)
  have wf: "core_wf ?core"
    by (auto simp: asid_fresh_def asid_chip_zero_def core_wf_def chip_ok_def chip_wf_def less_2_cases_iff
        intro: set_update_memI)
  have n: "length (dirty_regs (chips ?core ! 0)) = 1"
    by (simp add: dirty_upto_def regmap_def asid_fresh_def asid_chip_zero_def nth_Cons')
  have u: "use_update_reg ?core" "bytes_saved ?core = 0" "sid_modified_flag (chips ?core ! 0)"
    by (simp_all add: asid_fresh_def)
  obtain core where core: "core_wf core" "length (dirty_regs (chips core ! 0)) = 1" "use_update_reg core"
    "bytes_saved core = 0" "sid_modified_flag (chips core ! unat (0 :: u8))"
    "for_each (asid_do cap_emit) [Set_Reg 0 0 0x42] (asid_fresh 1, []) = Some (core, [])"
    using wf n u run by (metis unsigned_0)
  obtain core' msg where flush: "asid_core_flush cap_emit 0 5 (core, []) = Some (core', [(0, msg, 5)])"
    "length msg = 6" "bytes_saved core' = 7"
    using asid_flush_shortest [OF core(1) _ core(5), of 5 "[]"] core(2-4) by (auto simp: Let_def)
  with core(6) show ?thesis by blast
qed

text \<open>C38: Both codec operations keep the codec well formed and stay inside its arrays, from every well-formed
  state, for every chip, register, byte and time, and whatever the emit callback does.\<close>

theorem asid_core_type:
  assumes "core_wf core"
  shows "\<exists>core' h'. asid_do emit op (core, h) = Some (core', h') \<and> core_wf core'"
  using asid_flush_wf [OF assms] asid_set_reg_wf [OF assms] by (cases op) (simp_all add: asid_do_def)

lemma asid_core_type_witness:
  "\<exists>core' h'. asid_do cap_emit (Set_Reg 1 24 0xff) (asid_fresh 1, []) = Some (core', h') \<and> core_wf core'"
proof -
  have "core_wf (asid_fresh 1)" using asid_rel_fresh [of 1] by (simp add: asid_rel_def)
  then show ?thesis by (rule asid_core_type)
qed


end
