(* ===== verification/Double.thy ===== *)
theory Double
  imports Prelude Complex_Main "HOL-Library.Log_Nat"
begin

text \<open>
  Non-negative C floating-point values and the rounding of their arithmetic. A value is an exact
  fraction of naturals; an operation computes the exact result and \<open>fp_round n\<close> rounds it to the nearest
  number with an \<open>n\<close>-bit significand, ties to even (IEEE 754, \<open>n = 53\<close> for \<open>double\<close> and 24 for \<open>float\<close>),
  as a C implementation with \<open>FLT_EVAL_METHOD\<close> 0 does. The exponent is not bounded: the program's values
  stay between \<open>2\<^sup>-\<^sup>6\<^sup>4\<close> and \<open>2\<^sup>1\<^sup>3\<^sup>0\<close>, far from overflow and underflow.
\<close>

type_synonym fp = "nat \<times> nat"

section \<open>Rounding\<close>

definition rne :: "nat \<Rightarrow> nat \<Rightarrow> nat" where
  \<comment> \<open>the integer nearest to \<open>a / b\<close>, an even one on a tie\<close>
  "rne a b = (let q = a div b; r = a mod b in if 2 * r < b \<or> (2 * r = b \<and> even q) then q else q + 1)"

definition fp_exp :: "nat \<Rightarrow> fp \<Rightarrow> int" where
  \<comment> \<open>the exponent of the last bit of an \<open>n\<close>-bit significand\<close>
  "fp_exp n = (\<lambda>(p, q).
     let k = int (floorlog 2 p) - int (floorlog 2 q)
     in if p * 2 ^ nat (- k) < q * 2 ^ nat k then k - int n else k - int n + 1)"

definition fp_round :: "nat \<Rightarrow> fp \<Rightarrow> fp" where
  "fp_round n = (\<lambda>(p, q).
     if p = 0 then (0, 1)
     else let e = fp_exp n (p, q)
          in (rne (p * 2 ^ nat (- e)) (q * 2 ^ nat e) * 2 ^ nat e, 2 ^ nat (- e)))"

definition fp_nat :: "nat \<Rightarrow> fp" where \<comment> \<open>\<open>(double) k\<close>\<close>
  "fp_nat k = fp_round 53 (k, 1)"

definition fp_div :: "fp \<Rightarrow> fp \<Rightarrow> fp" where
  "fp_div = (\<lambda>(p, q) (p', q'). fp_round 53 (p * q', q * p'))"

definition fp_mul :: "fp \<Rightarrow> fp \<Rightarrow> fp" where
  "fp_mul = (\<lambda>(p, q) (p', q'). fp_round 53 (p * p', q * q'))"

definition fp_add :: "fp \<Rightarrow> fp \<Rightarrow> fp" where
  "fp_add = (\<lambda>(p, q) (p', q'). fp_round 53 (p * q' + p' * q, q * q'))"

definition fp_trunc :: "fp \<Rightarrow> nat" where
  "fp_trunc = (\<lambda>(p, q). p div q)"

section \<open>The real value\<close>

definition fp_val :: "fp \<Rightarrow> real" where
  "fp_val x = real (fst x) / real (snd x)"

definition reven :: "real \<Rightarrow> int" where
  "reven x = (if x - \<lfloor>x\<rfloor> < 1 / 2 \<or> (x - \<lfloor>x\<rfloor> = 1 / 2 \<and> even \<lfloor>x\<rfloor>) then \<lfloor>x\<rfloor> else \<lfloor>x\<rfloor> + 1)"

lemma reven_error: "\<bar>real_of_int (reven x) - x\<bar> \<le> 1 / 2"
  by (simp add: reven_def; linarith?)

lemma reven_of_int [simp]: "reven (real_of_int i) = i"
  by (simp add: reven_def)

lemma reven_mono: "x \<le> y \<Longrightarrow> reven x \<le> reven y"
proof -
  assume le: "x \<le> y"
  then have f: "\<lfloor>x\<rfloor> \<le> \<lfloor>y\<rfloor>" by (rule floor_mono)
  show ?thesis
  proof (cases "\<lfloor>x\<rfloor> = \<lfloor>y\<rfloor>")
    case True
    with le show ?thesis by (simp add: reven_def)
  next
    case False
    with f have "\<lfloor>x\<rfloor> + 1 \<le> \<lfloor>y\<rfloor>" by linarith
    then show ?thesis by (simp add: reven_def)
  qed
qed

lemma rne_reven: "0 < b \<Longrightarrow> int (rne a b) = reven (real a / real b)"
proof -
  assume b: "0 < b"
  have fl: "\<lfloor>real a / real b\<rfloor> = int (a div b)" by (rule floor_divide_of_nat_eq)
  have "real a = real (a div b) * real b + real (a mod b)"
    by (metis div_mult_mod_eq of_nat_add of_nat_mult)
  with b have frac: "real a / real b - real (a div b) = real (a mod b) / real b"
    by (simp add: field_simps)
  have c: "real r / real b < 1 / 2 \<longleftrightarrow> 2 * r < b" "real r / real b = 1 / 2 \<longleftrightarrow> 2 * r = b" for r
    using b by (simp_all add: field_simps) linarith+
  show ?thesis unfolding reven_def fl of_int_of_nat_eq frac c by (simp add: rne_def Let_def)
qed

lemma powi_split: "2 ^ nat k / 2 ^ nat (- k) = (2 :: real) powi k"
  by (cases "0 \<le> k") (auto simp: power_int_def field_simps)

lemma real_powers: "2 ^ a \<le> real n \<longleftrightarrow> 2 ^ a \<le> n" "real n < 2 ^ a \<longleftrightarrow> n < 2 ^ a"
  by (metis of_nat_le_iff of_nat_numeral of_nat_power, metis of_nat_less_iff of_nat_numeral of_nat_power)

lemma floorlog_2: "0 < n \<Longrightarrow> 0 < floorlog 2 n \<and> 2 ^ (floorlog 2 n - 1) \<le> n \<and> n < 2 ^ floorlog 2 n"
proof -
  assume "0 < n"
  moreover have "floorlog 2 n \<noteq> 0" using \<open>0 < n\<close> by (simp add: floorlog_eq_zero_iff)
  ultimately show ?thesis using floorlog_bounds [OF \<open>0 < n\<close>, of 2] by linarith
qed

lemma power_pred_powi: "0 < n \<Longrightarrow> (2 :: real) ^ (n - 1) = 2 powi (int n - 1)"
  by (cases n) simp_all

lemma powi_mult: "2 ^ m * 2 powi i = (2 :: real) powi (int m + i)"
  by (simp add: power_int_add)

lemma ratio_bounds:
  assumes "0 < p" "0 < q"
  shows "fp_val (p, q) < 2 powi (int (floorlog 2 p) - int (floorlog 2 q) + 1)"
    and "2 powi (int (floorlog 2 p) - int (floorlog 2 q) - 1) \<le> fp_val (p, q)"
proof -
  let ?L = "floorlog 2 p" and ?M = "floorlog 2 q"
  note p = floorlog_2 [OF assms(1)] and q = floorlog_2 [OF assms(2)]
  have "2 ^ (?L - 1) \<le> real p" "real p < 2 ^ ?L" "2 ^ (?M - 1) \<le> real q" "real q < 2 ^ ?M"
    unfolding real_powers using p q by blast+
  then have r: "2 powi (int ?L - 1) \<le> real p" "real p < 2 powi int ?L" "2 powi (int ?M - 1) \<le> real q"
      "real q < 2 powi int ?M"
    using p q by (simp_all only: power_pred_powi power_int_of_nat)
  have "fp_val (p, q) < 2 powi int ?L / 2 powi (int ?M - 1)"
    unfolding fp_val_def fst_conv snd_conv by (rule frac_less) (use r in simp_all)
  also have "\<dots> = 2 powi (int ?L - int ?M + 1)"
    by (subst power_int_diff [symmetric]) (simp_all add: algebra_simps)
  finally show "fp_val (p, q) < 2 powi (int ?L - int ?M + 1)" .
  have "2 powi (int ?L - int ?M - 1) = (2::real) powi (int ?L - 1) / 2 powi int ?M"
    by (subst power_int_diff [symmetric]) (simp_all add: algebra_simps)
  also have "\<dots> \<le> fp_val (p, q)"
    unfolding fp_val_def fst_conv snd_conv by (rule frac_le) (use r assms in simp_all)
  finally show "2 powi (int ?L - int ?M - 1) \<le> fp_val (p, q)" .
qed

lemma exp_test:
  assumes "0 < q"
  shows "p * 2 ^ nat (- k) < q * 2 ^ nat k \<longleftrightarrow> fp_val (p, q) < 2 powi k"
proof -
  have "p * 2 ^ nat (- k) < q * 2 ^ nat k \<longleftrightarrow> real p * 2 ^ nat (- k) < real q * 2 ^ nat k"
    unfolding of_nat_less_iff [where 'a = real, symmetric] by (simp only: of_nat_mult of_nat_power of_nat_numeral)
  also have "\<dots> \<longleftrightarrow> fp_val (p, q) < 2 ^ nat k / 2 ^ nat (- k)"
    using assms by (simp add: fp_val_def field_simps)
  finally show ?thesis unfolding powi_split .
qed

lemma fp_exp_spec:
  assumes "0 < p" "0 < q" "1 \<le> n"
  shows "2 ^ (n - 1) * 2 powi fp_exp n (p, q) \<le> fp_val (p, q)"
    and "fp_val (p, q) < 2 ^ n * 2 powi fp_exp n (p, q)"
proof -
  define k where "k = int (floorlog 2 p) - int (floorlog 2 q)"
  have e: "fp_exp n (p, q) = (if fp_val (p, q) < 2 powi k then k - int n else k - int n + 1)"
    unfolding fp_exp_def k_def [symmetric] prod.case Let_def exp_test [OF assms(2)] ..
  note b = ratio_bounds [OF assms(1,2), folded k_def]
  have i: "int (n - 1) + (k - int n) = k - 1" "int (n - 1) + (k - int n + 1) = k" "int n + (k - int n) = k"
    "int n + (k - int n + 1) = k + 1"
    using assms(3) by linarith+
  show "2 ^ (n - 1) * 2 powi fp_exp n (p, q) \<le> fp_val (p, q)"
    "fp_val (p, q) < 2 ^ n * 2 powi fp_exp n (p, q)"
    unfolding powi_mult e using b by (cases "fp_val (p, q) < 2 powi k"; simp only: if_True if_False i simp_thms; linarith)+
qed

section \<open>What rounding does\<close>

lemma fp_round_val:
  assumes "0 < p" "0 < q"
  shows "fp_val (fp_round n (p, q)) =
    of_int (reven (fp_val (p, q) / 2 powi fp_exp n (p, q))) * 2 powi fp_exp n (p, q)"
proof -
  let ?e = "fp_exp n (p, q)"
  have "real (p * 2 ^ nat (- ?e)) / real (q * 2 ^ nat ?e) = fp_val (p, q) / (2 ^ nat ?e / 2 ^ nat (- ?e))"
    by (simp add: fp_val_def)
  then have m: "int (rne (p * 2 ^ nat (- ?e)) (q * 2 ^ nat ?e)) = reven (fp_val (p, q) / 2 powi ?e)"
    using assms(2) by (simp only: powi_split rne_reven nat_0_less_mult_iff zero_less_power zero_less_numeral simp_thms)
  have "fp_val (m * 2 ^ nat ?e, 2 ^ nat (- ?e)) = of_int (int m) * (2 ^ nat ?e / 2 ^ nat (- ?e))" for m
    by (simp add: fp_val_def)
  moreover have "p \<noteq> 0" using assms(1) by simp
  ultimately show ?thesis by (simp only: fp_round_def prod.case Let_def if_False powi_split m)
qed

lemma fp_val_nonneg [simp]: "0 \<le> fp_val x"
  by (simp add: fp_val_def)

lemma fp_val_0 [simp]: "fp_val (0, q) = 0"
  by (simp add: fp_val_def)

lemma fp_val_pos: "0 < p \<Longrightarrow> 0 < q \<Longrightarrow> 0 < fp_val (p, q)"
  by (simp add: fp_val_def)

text \<open>The relative error is at most half a unit in the last place.\<close>

lemma fp_round_error:
  assumes "0 < q" "1 \<le> n"
  shows "\<bar>fp_val (fp_round n (p, q)) - fp_val (p, q)\<bar> \<le> fp_val (p, q) / 2 ^ n"
proof (cases "p = 0")
  case True
  then show ?thesis by (simp add: fp_round_def)
next
  case False
  then have p: "0 < p" by simp
  let ?u = "(2 :: real) powi fp_exp n (p, q)"
  have u: "0 < ?u" by simp
  let ?v = "fp_val (p, q)"
  have "\<bar>of_int (reven (?v / ?u)) * ?u - ?v\<bar> = \<bar>of_int (reven (?v / ?u)) - ?v / ?u\<bar> * ?u"
    using u by (simp add: abs_mult [symmetric, of _ ?u, simplified] left_diff_distrib flip: abs_mult_pos)
  also have "\<dots> \<le> 1 / 2 * ?u"
    by (rule mult_right_mono [OF reven_error]) simp
  also have "\<dots> \<le> ?v / 2 ^ n"
  proof -
    have "(2 :: real) ^ n = 2 * 2 ^ (n - 1)" using assms(2) by (cases n) simp_all
    then show ?thesis using fp_exp_spec(1) [OF p assms] by (simp add: field_simps)
  qed
  finally show ?thesis unfolding fp_round_val [OF p assms(1)] .
qed

text \<open>Rounding is monotone in the value, and exact on integers that fit the significand.\<close>

lemma powi_less: "(2 :: real) powi i < 2 powi j \<Longrightarrow> i < j"
  by (rule ccontr) (simp add: not_less power_int_increasing leD)

lemma fp_exp_mono:
  assumes "0 < p" "0 < q" "0 < p'" "0 < q'" "1 \<le> n" "fp_val (p, q) \<le> fp_val (p', q')"
  shows "fp_exp n (p, q) \<le> fp_exp n (p', q')"
proof -
  let ?e = "fp_exp n (p, q)" and ?e' = "fp_exp n (p', q')"
  have "2 ^ (n - 1) * 2 powi ?e < (2 :: real) ^ n * 2 powi ?e'"
    using fp_exp_spec(1) [OF assms(1,2,5)] fp_exp_spec(2) [OF assms(3,4,5)] assms(6) by linarith
  then have "(2 :: real) powi (int (n - 1) + ?e) < 2 powi (int n + ?e')" by (simp only: powi_mult)
  then have "int (n - 1) + ?e < int n + ?e'" by (rule powi_less)
  then show ?thesis using assms(5) by linarith
qed

lemma reven_le: "x \<le> real_of_int i \<Longrightarrow> reven x \<le> i"
  using reven_mono [of x "real_of_int i"] by simp

lemma reven_ge: "real_of_int i \<le> x \<Longrightarrow> i \<le> reven x"
  using reven_mono [of "real_of_int i" x] by simp

lemma fp_round_mono:
  assumes "0 < q" "0 < q'" "1 \<le> n" "fp_val (p, q) \<le> fp_val (p', q')"
  shows "fp_val (fp_round n (p, q)) \<le> fp_val (fp_round n (p', q'))"
proof (cases "p = 0")
  case True
  then show ?thesis by (simp add: fp_round_def)
next
  case False
  then have p: "0 < p" by simp
  have "0 < fp_val (p', q')" using fp_val_pos [OF p assms(1)] assms(4) by linarith
  then have p': "0 < p'" by (cases p') auto
  define e where "e = fp_exp n (p, q)"
  define e' where "e' = fp_exp n (p', q')"
  note s = fp_exp_spec [OF p assms(1,3), folded e_def] and s' = fp_exp_spec [OF p' assms(2,3), folded e'_def]
  have ee: "e \<le> e'" unfolding e_def e'_def by (rule fp_exp_mono [OF p assms(1) p' assms(2-4)])
  show ?thesis
  proof (cases "e = e'")
    case True
    have "fp_val (p, q) / 2 powi e \<le> fp_val (p', q') / 2 powi e"
      using assms(4) by (simp add: divide_right_mono)
    then have "reven (fp_val (p, q) / 2 powi e) \<le> reven (fp_val (p', q') / 2 powi e)" by (rule reven_mono)
    then show ?thesis
      unfolding fp_round_val [OF p assms(1)] fp_round_val [OF p' assms(2)] e_def [symmetric] e'_def [symmetric] True [symmetric]
      by (simp add: mult_right_mono)
  next
    case False
    have "fp_val (p, q) / 2 powi e \<le> real_of_int (2 ^ n)" using s(2) by (simp add: field_simps)
    then have "reven (fp_val (p, q) / 2 powi e) \<le> 2 ^ n" by (rule reven_le)
    then have "real_of_int (reven (fp_val (p, q) / 2 powi e)) \<le> 2 ^ n"
      by (metis of_int_le_iff of_int_numeral of_int_power)
    then have "real_of_int (reven (fp_val (p, q) / 2 powi e)) * 2 powi e \<le> 2 ^ n * 2 powi e"
      by (rule mult_right_mono) simp
    also have "\<dots> \<le> 2 ^ (n - 1) * 2 powi e'"
      unfolding powi_mult using False ee assms(3) by (intro power_int_increasing) linarith+
    also have "\<dots> \<le> real_of_int (reven (fp_val (p', q') / 2 powi e')) * 2 powi e'"
    proof -
      have "real_of_int (2 ^ (n - 1)) \<le> fp_val (p', q') / 2 powi e'" using s'(1) by (simp add: field_simps)
      then have "2 ^ (n - 1) \<le> reven (fp_val (p', q') / 2 powi e')" by (rule reven_ge)
      then have "2 ^ (n - 1) \<le> real_of_int (reven (fp_val (p', q') / 2 powi e'))"
        by (metis of_int_le_iff of_int_numeral of_int_power)
      then show ?thesis by (rule mult_right_mono) simp
    qed
    finally show ?thesis
      unfolding fp_round_val [OF p assms(1)] fp_round_val [OF p' assms(2)] e_def [symmetric] e'_def [symmetric] .
  qed
qed

lemma fp_round_exact:
  assumes "k < 2 ^ n" "1 \<le> n" "0 < q" "fp_val (p, q) = real k"
  shows "fp_val (fp_round n (p, q)) = real k"
proof (cases "p = 0")
  case True
  then show ?thesis using assms(4) by (simp add: fp_round_def)
next
  case False
  then have p: "0 < p" by simp
  define e where "e = fp_exp n (p, q)"
  have "2 ^ (n - 1) * 2 powi e < (2 :: real) ^ n"
  proof -
    have "real k < 2 ^ n" using assms(1) by (simp only: real_powers)
    then show ?thesis using fp_exp_spec(1) [OF p assms(3,2)] assms(4) unfolding e_def by linarith
  qed
  then have "(2 :: real) powi (int (n - 1) + e) < 2 powi int n" by (simp only: powi_mult power_int_of_nat)
  then have "int (n - 1) + e < int n" by (rule powi_less)
  then have "e \<le> 0" using assms(2) by linarith
  then have w: "(2 :: real) powi e = 1 / 2 ^ nat (- e)" by (simp add: powi_split [symmetric])
  then have "fp_val (p, q) / 2 powi e = real_of_int (int k * 2 ^ nat (- e))"
    by (simp add: assms(4))
  then have "reven (fp_val (p, q) / 2 powi e) = int k * 2 ^ nat (- e)" by (simp only: reven_of_int)
  then show ?thesis
    unfolding fp_round_val [OF p assms(3)] e_def [symmetric] by (simp add: w)
qed

end
