(* ===== verification/Asid_Clock.thy ===== *)
theory Asid_Clock
  imports Double
begin

text \<open>
  The floating-point conversions of the ASID device: emulator cycles to nanoseconds
  (\<open>libs/asid/src/asid_core.c\<close>), and in \<open>libs/asid/vice/soundasid.c\<close> the monotonic clock and the split of
  a schedule time into seconds and nanoseconds. A conversion of a \<open>double\<close> that does not fit the integer
  type, which C leaves undefined, is \<open>None\<close>.
\<close>

section \<open>The conversions\<close>

definition asid_pal_cycles_per_sec :: nat where "asid_pal_cycles_per_sec = 985248"

definition e9 :: fp where "e9 = fp_nat 1000000000"

definition fp_to_u64 :: "fp \<Rightarrow> u64 option" where
  "fp_to_u64 x = (if fp_trunc x < 2 ^ 64 then Some (of_nat (fp_trunc x)) else None)"

definition fp_to_u32 :: "fp \<Rightarrow> u32 option" where
  "fp_to_u32 x = (if fp_trunc x < 2 ^ 32 then Some (of_nat (fp_trunc x)) else None)"

definition asid_clock_to_nanos :: "u64 \<Rightarrow> u64 \<Rightarrow> u64 option" where
  "asid_clock_to_nanos clock cycles_per_sec =
     (let cps = (if cycles_per_sec = 0 then asid_pal_cycles_per_sec else unat cycles_per_sec)
      in fp_to_u64 (fp_mul (fp_div (fp_nat (unat clock)) (fp_nat cps)) e9))"

definition get_clock :: "nat \<times> nat \<Rightarrow> u64 option" where
  \<comment> \<open>from the seconds and nanoseconds \<open>clock_gettime\<close> returns\<close>
  "get_clock = (\<lambda>(tv_sec, tv_nsec). fp_to_u64 (fp_add (fp_mul (fp_nat tv_sec) e9) (fp_nat tv_nsec)))"

definition fp_diff_u32 :: "fp \<Rightarrow> fp \<Rightarrow> u32 option" where
  \<comment> \<open>\<open>(unsigned int)(x - y)\<close>: a difference above -1 truncates to zero, one below is undefined\<close>
  "fp_diff_u32 = (\<lambda>(p, q) (p', q').
     if p' * q \<le> p * q' then fp_to_u32 (fp_round 53 (p * q' - p' * q, q * q'))
     else if fp_trunc (fp_round 53 (p' * q - p * q', q * q')) = 0 then Some 0 else None)"

definition schedule_time :: "u64 \<Rightarrow> (u32 \<times> u32) option" where
  "schedule_time nsec = do {
     tv_sec \<leftarrow> fp_to_u32 (fp_div (fp_nat (unat nsec)) e9);
     tv_nsec \<leftarrow> fp_diff_u32 (fp_nat (unat nsec)) (fp_mul (fp_nat (unat tv_sec)) e9);
     Some (tv_sec, tv_nsec)
   }"

section \<open>The operations on values\<close>

abbreviation fp_ok :: "fp \<Rightarrow> bool" where "fp_ok x \<equiv> 0 < snd x"

lemma fp_round_ok [simp]: "fp_ok (fp_round n x)"
  by (cases x) (simp add: fp_round_def Let_def)

lemma fp_ok_ops [simp]: "fp_ok (fp_nat k)" "fp_ok (fp_div x y)" "fp_ok (fp_mul x y)" "fp_ok (fp_add x y)" "fp_ok e9"
  by (simp_all add: fp_nat_def fp_div_def fp_mul_def fp_add_def e9_def case_prod_unfold)

lemma fp_trunc_val: "fp_ok x \<Longrightarrow> int (fp_trunc x) = \<lfloor>fp_val x\<rfloor>"
  by (simp add: fp_trunc_def fp_val_def case_prod_unfold floor_divide_of_nat_eq)

lemma fp_nat_val: "k < 2 ^ 53 \<Longrightarrow> fp_val (fp_nat k) = real k"
  unfolding fp_nat_def by (rule fp_round_exact) (simp_all add: fp_val_def)

lemma fp_nat_mono: "k \<le> k' \<Longrightarrow> fp_val (fp_nat k) \<le> fp_val (fp_nat k')"
  unfolding fp_nat_def by (rule fp_round_mono) (simp_all add: fp_val_def)

lemma e9_val: "fp_val e9 = 1000000000"
  unfolding e9_def by (simp add: fp_nat_val)

lemma pairs_ok: "0 < snd x \<Longrightarrow> 0 < snd y \<Longrightarrow> 0 < snd x * snd y" for x y :: fp
  by simp

text \<open>The exact quotient, product and sum that an operation rounds.\<close>

lemma fp_exact:
  "fp_val (fst x * snd y, snd x * fst y) = fp_val x / fp_val y"
  "fp_val (fst x * fst y, snd x * snd y) = fp_val x * fp_val y"
  "fp_ok x \<Longrightarrow> fp_ok y \<Longrightarrow> fp_val (fst x * snd y + fst y * snd x, snd x * snd y) = fp_val x + fp_val y"
  by (simp_all add: fp_val_def add_frac_eq)

lemma fp_val_fst_pos: "fp_ok x \<Longrightarrow> 0 < fp_val x \<longleftrightarrow> 0 < fst x"
  by (simp add: fp_val_def zero_less_divide_iff)

lemma fp_div_error:
  "fp_ok x \<Longrightarrow> 0 < fp_val y \<Longrightarrow> fp_ok y \<Longrightarrow> \<bar>fp_val (fp_div x y) - fp_val x / fp_val y\<bar> \<le> fp_val x / fp_val y / 2 ^ 53"
  using fp_round_error [of "snd x * fst y" 53 "fst x * snd y"]
  by (simp add: fp_div_def case_prod_unfold fp_exact fp_val_fst_pos)

lemma fp_mul_error:
  "fp_ok x \<Longrightarrow> fp_ok y \<Longrightarrow> \<bar>fp_val (fp_mul x y) - fp_val x * fp_val y\<bar> \<le> fp_val x * fp_val y / 2 ^ 53"
  using fp_round_error [of "snd x * snd y" 53 "fst x * fst y"]
  by (simp add: fp_mul_def case_prod_unfold fp_exact)

lemma fp_div_mono:
  "fp_ok x \<Longrightarrow> fp_ok x' \<Longrightarrow> 0 < fp_val y \<Longrightarrow> fp_ok y \<Longrightarrow> fp_val x \<le> fp_val x' \<Longrightarrow> fp_val (fp_div x y) \<le> fp_val (fp_div x' y)"
  unfolding fp_div_def case_prod_unfold
  by (rule fp_round_mono) (simp_all add: fp_exact fp_val_fst_pos divide_right_mono)

lemma fp_mul_mono:
  "fp_ok x \<Longrightarrow> fp_ok x' \<Longrightarrow> fp_ok y \<Longrightarrow> fp_val x \<le> fp_val x' \<Longrightarrow> fp_val (fp_mul x y) \<le> fp_val (fp_mul x' y)"
  unfolding fp_mul_def case_prod_unfold
  by (rule fp_round_mono) (simp_all add: fp_exact mult_right_mono)

lemma fp_mul_exact:
  "k < 2 ^ 53 \<Longrightarrow> fp_ok x \<Longrightarrow> fp_ok y \<Longrightarrow> fp_val x * fp_val y = real k \<Longrightarrow> fp_val (fp_mul x y) = real k"
  unfolding fp_mul_def case_prod_unfold by (rule fp_round_exact) (simp_all add: fp_exact)

lemma fp_add_exact:
  "k < 2 ^ 53 \<Longrightarrow> fp_ok x \<Longrightarrow> fp_ok y \<Longrightarrow> fp_val x + fp_val y = real k \<Longrightarrow> fp_val (fp_add x y) = real k"
  unfolding fp_add_def case_prod_unfold by (rule fp_round_exact) (simp_all add: fp_exact)

section \<open>Cycles to nanoseconds\<close>

definition clock_rate :: "u64 \<Rightarrow> nat" where
  "clock_rate cps = (if cps = 0 then 985248 else unat cps)"

definition nanos :: "u64 \<Rightarrow> u64 \<Rightarrow> fp" where
  "nanos clock cps = fp_mul (fp_div (fp_nat (unat clock)) (fp_nat (clock_rate cps))) e9"

lemma asid_clock_to_nanos_eq: "asid_clock_to_nanos clock cps = fp_to_u64 (nanos clock cps)"
  by (simp add: asid_clock_to_nanos_def nanos_def clock_rate_def asid_pal_cycles_per_sec_def Let_def)

lemma clock_rate_pos: "0 < clock_rate cps"
  by (simp add: clock_rate_def unat_gt_0)

lemma fp_rate_pos: "0 < fp_val (fp_nat (clock_rate cps))"
proof -
  have "fp_val (fp_nat 1) \<le> fp_val (fp_nat (clock_rate cps))"
    using clock_rate_pos [of cps] by (intro fp_nat_mono) simp
  then show ?thesis using fp_nat_val [of 1] by simp
qed

lemma nanos_mono: "clock \<le> clock' \<Longrightarrow> fp_val (nanos clock cps) \<le> fp_val (nanos clock' cps)"
  unfolding nanos_def
  by (intro fp_mul_mono fp_div_mono fp_nat_mono) (simp_all add: fp_rate_pos word_le_nat_alt)

lemma two_roundings:
  fixes x y z :: real
  assumes "\<bar>y - x\<bar> \<le> x / 2 ^ 53" "\<bar>z - y\<bar> \<le> y / 2 ^ 53" "0 \<le> x"
  shows "\<bar>z - x\<bar> \<le> x / 2 ^ 51"
  using assms unfolding abs_le_iff by simp

lemma nanos_error:
  assumes "unat clock < 2 ^ 53" "clock_rate cps < 2 ^ 53"
  shows "\<bar>fp_val (nanos clock cps) - real (unat clock) / real (clock_rate cps) * 1000000000\<bar>
    \<le> real (unat clock) / real (clock_rate cps) * 1000000000 / 2 ^ 51"
proof -
  let ?x = "real (unat clock) / real (clock_rate cps)"
  let ?d = "fp_div (fp_nat (unat clock)) (fp_nat (clock_rate cps))"
  have "\<bar>fp_val ?d - ?x\<bar> \<le> ?x / 2 ^ 53"
    using fp_div_error [of "fp_nat (unat clock)" "fp_nat (clock_rate cps)"] fp_rate_pos [of cps]
    by (simp only: fp_nat_val [OF assms(1)] fp_nat_val [OF assms(2)] fp_ok_ops simp_thms)
  then have "\<bar>fp_val ?d * 1000000000 - ?x * 1000000000\<bar> \<le> ?x * 1000000000 / 2 ^ 53"
    unfolding abs_le_iff by simp
  moreover have "\<bar>fp_val (nanos clock cps) - fp_val ?d * 1000000000\<bar> \<le> fp_val ?d * 1000000000 / 2 ^ 53"
    using fp_mul_error [of ?d e9] by (simp add: nanos_def e9_val)
  moreover have "0 \<le> ?x * 1000000000" by (intro mult_nonneg_nonneg divide_nonneg_nonneg of_nat_0_le_iff) simp
  ultimately show ?thesis by (rule two_roundings)
qed

lemma clock_to_nanos_near:
  assumes "unat clock < 2 ^ 53" "clock_rate cps < 2 ^ 53"
    and "real (unat clock) / real (clock_rate cps) * 1000000000 < 2 ^ 63"
  shows "\<exists>t. asid_clock_to_nanos clock cps = Some t \<and>
    \<bar>real (unat t) - real (unat clock) / real (clock_rate cps) * 1000000000\<bar>
      < 1 + real (unat clock) / real (clock_rate cps) * 1000000000 / 2 ^ 51"
proof -
  define E where "E = real (unat clock) / real (clock_rate cps) * 1000000000"
  define v where "v = fp_val (nanos clock cps)"
  define t where "t = fp_trunc (nanos clock cps)"
  have err: "\<bar>v - E\<bar> \<le> E / 2 ^ 51" unfolding v_def E_def by (rule nanos_error [OF assms(1,2)])
  have "int t = \<lfloor>v\<rfloor>" unfolding t_def v_def by (rule fp_trunc_val) (simp add: nanos_def)
  then have fl: "real t \<le> v" "v < real t + 1" by linarith+
  have "v < 2 ^ 64" using err assms(3) unfolding E_def [symmetric] abs_le_iff by simp
  then have lt: "t < 2 ^ 64" using fl(1) by (simp flip: real_powers)
  then have "asid_clock_to_nanos clock cps = Some (of_nat t)"
    by (simp add: asid_clock_to_nanos_eq fp_to_u64_def t_def [symmetric])
  moreover have "unat (of_nat t :: u64) = t" using lt by (simp add: unat_of_nat take_bit_nat_eq_self)
  moreover have "\<bar>real t - E\<bar> < 1 + E / 2 ^ 51" using err fl unfolding abs_less_iff abs_le_iff by linarith
  ultimately show ?thesis
    unfolding E_def [symmetric] by (intro exI [of _ "of_nat t"] conjI) (simp_all only: )
qed

text \<open>C25: Converting emulator cycles to nanoseconds: for counts and rates below \<open>2\<^sup>5\<^sup>3\<close> and times below
  \<open>2\<^sup>6\<^sup>3\<close> ns the result is defined and differs from the exact time by less than one nanosecond and one
  part in \<open>2\<^sup>5\<^sup>1\<close>; a rate of 0 counts as the PAL clock.\<close>

theorem clock_to_nanos_accurate:
  assumes "unat clock < 2 ^ 53" "clock_rate cps < 2 ^ 53"
    and "real (unat clock) / real (clock_rate cps) * 1000000000 < 2 ^ 63"
  shows "\<exists>t. asid_clock_to_nanos clock cps = Some t \<and>
    \<bar>real (unat t) - real (unat clock) / real (clock_rate cps) * 1000000000\<bar>
      < 1 + real (unat clock) / real (clock_rate cps) * 1000000000 / 2 ^ 51"
  by (rule clock_to_nanos_near [OF assms])

lemma clock_to_nanos_accurate_witness:
  "\<exists>t. asid_clock_to_nanos 985248 0 = Some t \<and> \<bar>real (unat t) - 1000000000\<bar> < 2"
proof -
  have r: "clock_rate 0 = 985248" by (simp add: clock_rate_def)
  obtain t where "asid_clock_to_nanos 985248 0 = Some t" "\<bar>real (unat t) - 1000000000\<bar> < 1 + 1000000000 / 2 ^ 51"
    using clock_to_nanos_accurate [of 985248 0] unfolding r by auto
  then show ?thesis by (intro exI [of _ t]) (simp only: abs_less_iff simp_thms, simp)
qed

text \<open>The conversion never runs backwards: a later cycle count of the same machine converts to a
  time that is not earlier, whatever the rounding did.\<close>

theorem clock_to_nanos_mono:
  assumes "clock \<le> clock'" "asid_clock_to_nanos clock cps = Some t" "asid_clock_to_nanos clock' cps = Some t'"
  shows "t \<le> t'"
proof -
  let ?a = "nanos clock cps" and ?b = "nanos clock' cps"
  have "int (fp_trunc ?a) \<le> int (fp_trunc ?b)"
    using fp_trunc_val [of ?a] fp_trunc_val [of ?b] nanos_mono [OF assms(1), of cps]
    by (simp add: nanos_def floor_mono)
  moreover have "unat t = fp_trunc ?a" "unat t' = fp_trunc ?b"
    using assms(2,3) by (auto simp: asid_clock_to_nanos_eq fp_to_u64_def unat_of_nat take_bit_nat_eq_self split: if_splits)
  ultimately show ?thesis by (simp add: word_le_nat_alt)
qed

lemma clock_to_nanos_mono_witness: "asid_clock_to_nanos 0 985248 = Some 0 \<and> (0 :: u64) \<le> 0"
proof -
  have "asid_clock_to_nanos 0 985248 = Some 0"
    by (simp add: asid_clock_to_nanos_def fp_nat_def fp_round_def fp_div_def fp_mul_def fp_to_u64_def
        fp_trunc_def Let_def case_prod_unfold)
  with clock_to_nanos_mono [of 0 0 985248 0 0] show ?thesis by simp
qed

section \<open>Schedule times\<close>

lemma below_integer:
  \<comment> \<open>a value short of an integer by more than the rounding error stays short of it\<close>
  assumes "\<bar>y - x\<bar> \<le> x / 2 ^ 53" "x = real m / 1000000000" "m < 2 ^ 53" "x + 1 / 1000000000 \<le> real k"
  shows "y < real k"
proof -
  have "real m < 2 ^ 53" using assms(3) by (simp only: real_powers)
  then have "x / 2 ^ 53 < 1 / 1000000000" using assms(2) by simp
  then show ?thesis using assms(1,4) unfolding abs_le_iff by linarith
qed

lemma whole_seconds:
  assumes "n < 2 ^ 53"
  shows "fp_trunc (fp_div (fp_nat n) e9) = n div 1000000000"
proof -
  let ?d = "fp_div (fp_nat n) e9"
  define s where "s = n div 1000000000"
  define r where "r = n mod 1000000000"
  have n: "n = 1000000000 * s + r" "r < 1000000000" by (simp_all add: s_def r_def)
  have err: "\<bar>fp_val ?d - real n / 1000000000\<bar> \<le> real n / 1000000000 / 2 ^ 53"
    using fp_div_error [of "fp_nat n" e9] by (simp only: fp_nat_val [OF assms] e9_val fp_ok_ops simp_thms zero_less_numeral)
  have "real s \<le> fp_val ?d"
  proof -
    have "s < 2 ^ 53" using assms n(1) by linarith
    then have "fp_val (fp_div (fp_nat (1000000000 * s)) e9) \<le> fp_val ?d"
      by (intro fp_div_mono fp_nat_mono) (simp_all add: e9_val n(1))
    moreover have "fp_val (fp_div (fp_nat (1000000000 * s)) e9) = real s"
    proof -
      have "1000000000 * s < 2 ^ 53" using assms n(1) by linarith
      then have "fp_val (fp_nat (1000000000 * s)) / fp_val e9 = real s"
        by (simp add: fp_nat_val e9_val)
      then show ?thesis
        using fp_round_exact [OF \<open>s < 2 ^ 53\<close>, of "snd (fp_nat (1000000000 * s)) * fst e9" "fst (fp_nat (1000000000 * s)) * snd e9"]
          fp_val_fst_pos [of e9] by (simp add: fp_div_def case_prod_unfold fp_exact e9_val)
    qed
    ultimately show ?thesis by simp
  qed
  moreover have "fp_val ?d < real (Suc s)"
  proof (rule below_integer [OF err refl assms])
    have "Suc n \<le> 1000000000 * Suc s" using n by simp
    then have "real (Suc n) \<le> real (1000000000 * Suc s)" by (simp only: of_nat_le_iff)
    then show "real n / 1000000000 + 1 / 1000000000 \<le> real (Suc s)" by (simp add: field_simps)
  qed
  ultimately have "\<lfloor>fp_val ?d\<rfloor> = int s" by (simp add: floor_eq_iff)
  then show ?thesis using fp_trunc_val [of ?d] by (simp add: s_def)
qed

lemma fp_trunc_nat: "fp_ok x \<Longrightarrow> fp_val x = real k \<Longrightarrow> fp_trunc x = k"
  using fp_trunc_val [of x] by simp

lemma fp_diff_nat:
  assumes "fp_ok x" "fp_ok y" "fp_val x = real a" "fp_val y = real b" "b \<le> a" "a < 2 ^ 32 + b" "a < 2 ^ 53"
  shows "fp_diff_u32 x y = Some (of_nat (a - b))"
proof -
  obtain p q p' q' where x: "x = (p, q)" "y = (p', q')" by (cases x, cases y)
  have q: "0 < q" "0 < q'" using assms(1,2) by (simp_all add: x)
  have v: "real p = real a * real q" "real p' = real b * real q'"
    using assms(3,4) q by (simp_all add: x fp_val_def field_simps)
  then have n: "p = a * q" "p' = b * q'" by (simp_all flip: of_nat_mult)
  have le: "p' * q \<le> p * q'" using assms(5) by (simp add: n)
  have "p * q' - p' * q = (a - b) * (q * q')" by (simp add: n algebra_simps diff_mult_distrib)
  then have "fp_val (p * q' - p' * q, q * q') = real (a - b)" using q by (simp add: fp_val_def)
  then have "fp_val (fp_round 53 (p * q' - p' * q, q * q')) = real (a - b)"
    using assms(7) q by (intro fp_round_exact) simp_all
  then have "fp_trunc (fp_round 53 (p * q' - p' * q, q * q')) = a - b"
    by (intro fp_trunc_nat) simp_all
  moreover have "a - b < 2 ^ 32" using assms(5,6) by linarith
  ultimately show ?thesis using le by (simp add: fp_diff_u32_def fp_to_u32_def x)
qed

lemma schedule_time_split:
  assumes "unat nsec < 2 ^ 53"
  shows "schedule_time nsec = Some (of_nat (unat nsec div 1000000000), of_nat (unat nsec mod 1000000000))"
proof -
  define n where "n = unat nsec"
  have n: "n < 2 ^ 53" using assms by (simp only: n_def)
  define s where "s = n div 1000000000"
  have s: "s < 2 ^ 32" "1000000000 * s \<le> n" "n - 1000000000 * s = n mod 1000000000" "n mod 1000000000 < 2 ^ 32"
    using n by (simp_all add: s_def less_mult_imp_div_less minus_mult_div_eq_mod)
  have secs: "fp_to_u32 (fp_div (fp_nat n) e9) = Some (of_nat s)"
    using s(1) by (simp add: fp_to_u32_def whole_seconds [OF n] s_def)
  have u: "unat (of_nat s :: u32) = s" using s(1) by (simp add: unat_of_nat take_bit_nat_eq_self)
  have "fp_val (fp_mul (fp_nat s) e9) = real (1000000000 * s)"
    using n s by (intro fp_mul_exact) (simp_all add: fp_nat_val e9_val)
  then have "fp_diff_u32 (fp_nat n) (fp_mul (fp_nat s) e9) = Some (of_nat (n mod 1000000000))"
    using fp_diff_nat [of "fp_nat n" "fp_mul (fp_nat s) e9" n "1000000000 * s"] n s
    by (simp add: fp_nat_val)
  then show ?thesis
    by (simp add: schedule_time_def n_def [symmetric] secs u) (simp add: s_def)
qed

text \<open>C24: A schedule time below \<open>2\<^sup>5\<^sup>3\<close> ns (104 days) is split exactly: whole seconds and the remaining
  nanoseconds, although the code divides and subtracts in floating point.\<close>

theorem schedule_time_exact:
  assumes "unat nsec < 2 ^ 53"
  shows "schedule_time nsec = Some (of_nat (unat nsec div 1000000000), of_nat (unat nsec mod 1000000000))"
  by (rule schedule_time_split [OF assms])

lemma schedule_time_exact_witness: "schedule_time 2500000001 = Some (2, 500000001)"
  using schedule_time_exact [of 2500000001] by simp

text \<open>The monotonic clock is read exactly while it is below \<open>2\<^sup>5\<^sup>3\<close> ns.\<close>

lemma get_clock_exact:
  assumes "1000000000 * tv_sec + tv_nsec < 2 ^ 53"
  shows "get_clock (tv_sec, tv_nsec) = Some (of_nat (1000000000 * tv_sec + tv_nsec))"
proof -
  have "fp_val (fp_mul (fp_nat tv_sec) e9) = real (1000000000 * tv_sec)"
    using assms by (intro fp_mul_exact) (simp_all add: fp_nat_val e9_val)
  then have "fp_val (fp_add (fp_mul (fp_nat tv_sec) e9) (fp_nat tv_nsec)) = real (1000000000 * tv_sec + tv_nsec)"
    using assms by (intro fp_add_exact) (simp_all add: fp_nat_val)
  then have "fp_trunc (fp_add (fp_mul (fp_nat tv_sec) e9) (fp_nat tv_nsec)) = 1000000000 * tv_sec + tv_nsec"
    by (intro fp_trunc_nat) simp_all
  then show ?thesis using assms by (simp add: get_clock_def fp_to_u64_def)
qed

end
