(* ===== verification/Clib.thy ===== *)
theory Clib
  imports Prelude "HOL-Library.Char_ord"
begin

text \<open>
  The C standard library as the revice sources use it, on strings without their terminating NUL:
  \<open>tolower\<close> and \<open>isspace\<close> of the C locale, \<open>strtol\<close> with its end pointer (the unread
  suffix) and its clamping to a 64-bit \<open>long\<close>, and the \<open>printf\<close> conversions of the format
  strings. \<open>vsnprintf\<close> into a buffer of \<open>n\<close> bytes keeps the first \<open>n - 1\<close> characters.
\<close>

section \<open>Characters\<close>

definition chr :: "nat \<Rightarrow> char" where
  "chr n = char_of n"

definition ord :: "char \<Rightarrow> nat" where
  "ord c = of_char c"

lemma ord_chr [simp]: "n < 256 \<Longrightarrow> ord (chr n) = n"
  by (simp add: ord_def chr_def)

lemma chr_ord [simp]: "chr (ord c) = c"
  by (simp add: ord_def chr_def)

lemma ord_less [simp]: "ord c < 256"
  by (simp add: ord_def)

definition tolower :: "char \<Rightarrow> char" where
  "tolower c = (if 65 \<le> ord c \<and> ord c \<le> 90 then chr (ord c + 32) else c)"

definition isspace :: "char \<Rightarrow> bool" where
  "isspace c = (ord c = 32 \<or> (9 \<le> ord c \<and> ord c \<le> 13))"

section \<open>Printing\<close>

definition digit_char :: "nat \<Rightarrow> char" where
  "digit_char d = (if d < 10 then chr (48 + d) else chr (87 + d))"

fun show_base :: "nat \<Rightarrow> nat \<Rightarrow> string" where
  "show_base b n =
     (if b < 2 \<or> n < b then [digit_char n] else show_base b (n div b) @ [digit_char (n mod b)])"

declare show_base.simps [simp del]

definition show_nat :: "nat \<Rightarrow> string" where \<comment> \<open>\<open>%u\<close>\<close>
  "show_nat n = show_base 10 n"

definition show_int :: "int \<Rightarrow> string" where \<comment> \<open>\<open>%d\<close> and \<open>%ld\<close>\<close>
  "show_int i = (if i < 0 then CHR ''-'' # show_nat (nat (- i)) else show_nat (nat i))"

definition pad_left :: "nat \<Rightarrow> char \<Rightarrow> string \<Rightarrow> string" where
  "pad_left w c s = replicate (w - length s) c @ s"

definition pad_right :: "nat \<Rightarrow> string \<Rightarrow> string" where \<comment> \<open>\<open>%-12s\<close>\<close>
  "pad_right w s = s @ replicate (w - length s) CHR '' ''"

definition show_hex :: "nat \<Rightarrow> nat \<Rightarrow> string" where \<comment> \<open>\<open>%02x\<close>, \<open>%03x\<close>, \<open>%04x\<close>\<close>
  "show_hex w n = pad_left w CHR ''0'' (show_base 16 n)"

definition vsnprintf :: "nat \<Rightarrow> string \<Rightarrow> string" where
  "vsnprintf n s = take (n - 1) s"

section \<open>Reading numbers\<close>

definition digit_val :: "char \<Rightarrow> nat option" where
  "digit_val c =
     (let n = ord c in
      if 48 \<le> n \<and> n \<le> 57 then Some (n - 48)
      else if 65 \<le> n \<and> n \<le> 90 then Some (n - 55)
      else if 97 \<le> n \<and> n \<le> 122 then Some (n - 87)
      else None)"

definition is_digit :: "nat \<Rightarrow> char \<Rightarrow> bool" where
  "is_digit base c = (case digit_val c of None \<Rightarrow> False | Some d \<Rightarrow> d < base)"

fun read_digits :: "nat \<Rightarrow> nat \<Rightarrow> string \<Rightarrow> nat \<times> string" where
  "read_digits base acc [] = (acc, [])"
| "read_digits base acc (c # cs) =
     (if is_digit base c then read_digits base (base * acc + the (digit_val c)) cs
      else (acc, c # cs))"

definition long_max :: int where "long_max = 2 ^ 63 - 1"
definition long_min :: int where "long_min = - (2 ^ 63)"

definition strtol_sign :: "string \<Rightarrow> bool \<times> string" where
  "strtol_sign s =
     (case s of [] \<Rightarrow> (False, s)
      | c # cs \<Rightarrow> if c = CHR ''-'' then (True, cs) else if c = CHR ''+'' then (False, cs)
                 else (False, s))"

definition strtol_base :: "nat \<Rightarrow> string \<Rightarrow> nat \<times> string" where
  "strtol_base base s =
     (case s of
        z # x # d # ds \<Rightarrow>
          if (base = 0 \<or> base = 16) \<and> z = CHR ''0'' \<and> tolower x = CHR ''x'' \<and> is_digit 16 d
          then (16, d # ds)
          else if base = 0 then (if z = CHR ''0'' then 8 else 10, s) else (base, s)
      | z # _ \<Rightarrow> if base = 0 then (if z = CHR ''0'' then 8 else 10, s) else (base, s)
      | [] \<Rightarrow> (if base = 0 then 10 else base, s))"

definition strtol :: "string \<Rightarrow> nat \<Rightarrow> int \<times> string" where
  \<comment> \<open>the value and the string at the end pointer; the whole input when nothing converts\<close>
  "strtol s base =
     (let (neg, s1) = strtol_sign (dropWhile isspace s);
          (b, s2) = strtol_base base s1
      in case s2 of
           [] \<Rightarrow> (0, s)
         | c # _ \<Rightarrow>
             if is_digit b c then
               let (n, r) = read_digits b 0 s2;
                   v = (if neg then - int n else int n)
               in (max long_min (min long_max v), r)
             else (0, s))"

section \<open>Evaluation and round trips\<close>

named_theorems char_eval \<comment> \<open>evaluation of the functions above on closed strings\<close>

lemmas [char_eval] = chr_def ord_def char_of_def bit_Suc_0_iff tolower_def isspace_def
  digit_char_def digit_val_def is_digit_def show_base.simps show_nat_def show_int_def
  strtol_sign_def strtol_base_def strtol_def long_max_def long_min_def

lemma strtol_hex_example: "strtol ''0x1F,'' 0 = (31, '','')"
  by (simp add: char_eval)

lemma digit_val_digit_char [simp]: "d < 36 \<Longrightarrow> digit_val (digit_char d) = Some d"
  by (auto simp: digit_char_def digit_val_def Let_def)

lemma is_digit_digit_char [simp]: "d < b \<Longrightarrow> b \<le> 36 \<Longrightarrow> is_digit b (digit_char d)"
  by (simp add: is_digit_def)

lemma show_base_first:
  assumes "2 \<le> b"
  shows "\<exists>d ds. show_base b n = digit_char d # ds \<and> d < b"
  using assms
proof (induction b n rule: show_base.induct)
  case (1 b n)
  show ?case
  proof (cases "n < b")
    case True
    then show ?thesis by (auto simp: show_base.simps [of b n])
  next
    case False
    with 1 obtain d ds where "show_base b (n div b) = digit_char d # ds" "d < b" by auto
    with False 1 show ?thesis by (auto simp: show_base.simps [of b n])
  qed
qed

lemma read_digits_show_base:
  assumes "2 \<le> b" "b \<le> 36"
  shows "read_digits b acc (show_base b n @ r)
    = read_digits b (b ^ length (show_base b n) * acc + n) r"
  using assms
proof (induction b n arbitrary: acc r rule: show_base.induct)
  case (1 b n)
  show ?case
  proof (cases "n < b")
    case True
    with 1 show ?thesis by (simp add: show_base.simps [of b n])
  next
    case False
    have "read_digits b acc (show_base b n @ r)
        = read_digits b (b ^ length (show_base b (n div b)) * acc + n div b) (digit_char (n mod b) # r)"
      using False 1 by (simp add: show_base.simps [of b n])
    also have "\<dots> = read_digits b (b ^ length (show_base b n) * acc + n) r"
    proof -
      have "n mod b < b" "n mod b < 36"
        using 1 False mod_less_divisor [of b n] by linarith+
      then show ?thesis using False 1
        by (simp add: show_base.simps [of b n] algebra_simps)
    qed
    finally show ?thesis .
  qed
qed

definition ends_number :: "nat \<Rightarrow> string \<Rightarrow> bool" where
  "ends_number b r = (case r of [] \<Rightarrow> True | c # _ \<Rightarrow> \<not> is_digit b c)"

lemma read_digits_show:
  "2 \<le> b \<Longrightarrow> b \<le> 36 \<Longrightarrow> ends_number b r \<Longrightarrow> read_digits b 0 (show_base b n @ r) = (n, r)"
  by (simp add: read_digits_show_base) (cases r, auto simp: ends_number_def)

lemma strtol_base_10 [simp]: "strtol_base 10 s = (10, s)"
  by (auto simp: strtol_base_def split: list.splits)

lemma ord_digit_char: "d < 10 \<Longrightarrow> ord (digit_char d) = 48 + d"
  by (simp add: digit_char_def)

lemma show_nat_first: "\<exists>d ds. show_nat n = digit_char d # ds \<and> d < 10"
  using show_base_first [of 10 n] by (simp add: show_nat_def)

lemma digit_not_sign:
  assumes "d < 10"
  shows "\<not> isspace (digit_char d)" "digit_char d \<noteq> CHR ''-''" "digit_char d \<noteq> CHR ''+''"
proof -
  have "ord (digit_char d) = 48 + d" using assms by (rule ord_digit_char)
  moreover have "ord CHR ''-'' = 45" "ord CHR ''+'' = 43" by (simp_all add: ord_def)
  ultimately show "\<not> isspace (digit_char d)" "digit_char d \<noteq> CHR ''-''" "digit_char d \<noteq> CHR ''+''"
    using assms by (auto simp: isspace_def)
qed

lemma strtol_show_nat:
  assumes "ends_number 10 r" "int n \<le> long_max"
  shows "strtol (show_nat n @ r) 10 = (int n, r)"
proof -
  obtain d ds where s: "show_nat n = digit_char d # ds" and d: "d < 10"
    using show_nat_first by blast
  have "read_digits 10 0 (show_nat n @ r) = (n, r)"
    using assms by (simp add: show_nat_def read_digits_show)
  with s d assms show ?thesis
    by (simp add: strtol_def strtol_sign_def digit_not_sign is_digit_digit_char long_min_def)
qed

lemma strtol_show_int:
  assumes "ends_number 10 r" "long_min \<le> i" "i \<le> long_max"
  shows "strtol (show_int i @ r) 10 = (i, r)"
proof (cases "i < 0")
  case False
  with assms show ?thesis using strtol_show_nat [of r "nat i"] by (simp add: show_int_def)
next
  case True
  obtain d ds where s: "show_nat (nat (- i)) = digit_char d # ds" and d: "d < 10"
    using show_nat_first by blast
  have "read_digits 10 0 (show_nat (nat (- i)) @ r) = (nat (- i), r)"
    using assms by (simp add: show_nat_def read_digits_show)
  moreover have "\<not> isspace CHR ''-''" by (simp add: isspace_def ord_def)
  ultimately show ?thesis using s d assms True
    by (simp add: strtol_def strtol_sign_def show_int_def is_digit_digit_char)
qed

text \<open>Printed decimal numbers: their digits, and reading them back with the base left open.\<close>

lemma show_base_digits: "2 \<le> b \<Longrightarrow> set (show_base b n) \<subseteq> digit_char ` {..<b}"
proof (induction b n rule: show_base.induct)
  case (1 b n)
  have "n mod b < b" using 1 by simp
  with 1 show ?case by (subst show_base.simps) auto
qed

lemma show_base_leading:
  assumes "2 \<le> b" "0 < n"
  shows "\<exists>d ds. show_base b n = digit_char d # ds \<and> 0 < d \<and> d < b"
  using assms
proof (induction b n rule: show_base.induct)
  case (1 b n)
  show ?case
  proof (cases "n < b")
    case True
    with 1 show ?thesis by (subst show_base.simps) auto
  next
    case False
    with 1 have "0 < n div b" by (simp add: div_greater_zero_iff)
    with 1 False obtain d ds where "show_base b (n div b) = digit_char d # ds" "0 < d" "d < b" by auto
    with False 1 show ?thesis by (subst show_base.simps) auto
  qed
qed

lemma strtol_show_nat_open:
  assumes "0 < n" "int n \<le> long_max"
  shows "strtol (show_nat n) 0 = (int n, [])"
proof -
  obtain d ds where s: "show_nat n = digit_char d # ds" and d: "0 < d" "d < 10"
    using show_base_leading [of 10 n] assms(1) by (auto simp: show_nat_def)
  have z: "digit_char d \<noteq> CHR ''0''"
  proof
    assume "digit_char d = CHR ''0''"
    then have "ord (digit_char d) = ord CHR ''0''" by simp
    moreover have "ord CHR ''0'' = 48" by (simp add: ord_def)
    ultimately show False using d by (simp add: ord_digit_char)
  qed
  have "read_digits 10 0 (show_nat n) = (n, [])"
    using read_digits_show [of 10 "[]" n] by (simp add: show_nat_def ends_number_def)
  moreover have "strtol_base 0 (digit_char d # ds) = (10, digit_char d # ds)"
    using z by (simp add: strtol_base_def split: list.splits)
  ultimately show ?thesis using s d assms
    by (simp add: strtol_def strtol_sign_def digit_not_sign is_digit_digit_char long_min_def)
qed

end
