(* ===== verification/Asid_Device.thy ===== *)
theory Asid_Device
  imports Asid Asid_Clock Clib
begin

unbundle bit_operations_syntax

text \<open>
  The ASID sound device \<open>libs/asid/vice/soundasid.c\<close>: it finds and opens a MIDI port, sends the codec's
  messages as scheduled sequencer events, and turns the emulator's SID writes into codec calls. ALSA, the
  system clock and the emulator are not part of the repository: their functions are the record \<open>alsa\<close>, a
  parameter over a state \<open>'v\<close>. The two queries a port is looked for with yield the next client or port after the one given,
  if there is one, and the walk is a loop that may run forever; the wrappers that allocate and fill ALSA
  structs are the structs' values. The result of an operation is \<open>None\<close> where the walk does not return
  or where a floating-point conversion or a signed subtraction is undefined in C.
\<close>

section \<open>ALSA and the emulator\<close>

record alsa_port =
  port_client :: int
  port_number :: int
  port_type :: u32
  port_capability :: u32

record subscription_t =
  sub_sender :: "int \<times> int"
  sub_dest :: "int \<times> int"

record 'e alsa_event =
  ev_source :: int
  ev_data :: 'e
  ev_queue :: int
  ev_time :: "u32 \<times> u32"

record ('v, 'e) alsa =
  SND_SEQ_PORT_CAP_READ :: u32
  SND_SEQ_PORT_CAP_WRITE :: u32
  SND_SEQ_PORT_CAP_SUBS_READ :: u32
  SND_SEQ_PORT_CAP_SUBS_WRITE :: u32
  SND_SEQ_PORT_TYPE_MIDI_GENERIC :: u32
  snd_seq_open :: "'v \<Rightarrow> int \<times> 'v"
  snd_seq_set_client_name :: "string \<Rightarrow> 'v \<Rightarrow> 'v"
  snd_midi_event_new :: "nat \<Rightarrow> 'v \<Rightarrow> int \<times> 'v"
  snd_midi_event_init :: "'v \<Rightarrow> 'v"
  snd_midi_event_free :: "'v \<Rightarrow> 'v"
  snd_seq_set_client_pool_output :: "nat \<Rightarrow> 'v \<Rightarrow> 'v"
  snd_seq_query_next_client :: "int \<Rightarrow> 'v \<Rightarrow> int option"
  snd_seq_query_next_port :: "int \<Rightarrow> int \<Rightarrow> 'v \<Rightarrow> alsa_port option"
  snd_seq_client_info_get_name :: "int \<Rightarrow> 'v \<Rightarrow> string"
  snd_seq_client_id :: "'v \<Rightarrow> int"
  snd_seq_create_simple_port :: "string \<Rightarrow> u32 \<Rightarrow> u32 \<Rightarrow> 'v \<Rightarrow> int \<times> 'v"
  snd_seq_delete_port :: "int \<Rightarrow> 'v \<Rightarrow> 'v"
  snd_seq_subscribe_port :: "subscription_t \<Rightarrow> 'v \<Rightarrow> int \<times> 'v"
  snd_seq_unsubscribe_port :: "subscription_t \<Rightarrow> 'v \<Rightarrow> 'v"
  snd_seq_alloc_queue :: "'v \<Rightarrow> int \<times> 'v"
  snd_seq_start_queue :: "int \<Rightarrow> 'v \<Rightarrow> 'v"
  snd_seq_stop_queue :: "int \<Rightarrow> 'v \<Rightarrow> 'v"
  snd_seq_free_queue :: "int \<Rightarrow> 'v \<Rightarrow> 'v"
  snd_seq_remove_events :: "int \<Rightarrow> 'v \<Rightarrow> 'v"
  snd_midi_event_encode :: "u8 list \<Rightarrow> 'v \<Rightarrow> int \<times> 'e \<times> 'v"
  snd_seq_event_output_direct :: "'e alsa_event \<Rightarrow> 'v \<Rightarrow> int \<times> 'v"
  snd_seq_drain_output :: "'v \<Rightarrow> 'v"
  snd_seq_close :: "'v \<Rightarrow> 'v"
  log_message :: "string \<Rightarrow> 'v \<Rightarrow> 'v"
  clock_gettime :: "'v \<Rightarrow> (nat \<times> nat) \<times> 'v"
  irq_clk :: "'v \<Rightarrow> u64"
  machine_get_cycles_per_second :: "'v \<Rightarrow> int"

text \<open>The statics: what the emit callback uses is \<open>asid_dev\<close>, the rest \<open>asid_statics\<close>.\<close>

definition no_port :: int where "no_port = - 1"
definition all_midi_ports :: int where "all_midi_ports = - 1"

record 'v asid_dev =
  vport :: int
  queue_id :: int
  subscription :: subscription_t
  bytes_total :: u32
  os :: 'v

record asid_statics =
  asid :: asid_core_t
  last_irq :: "u64 list"
  start_clock :: "u64 list"

definition dev_log :: "('v, 'e) alsa \<Rightarrow> string \<Rightarrow> 'v asid_dev \<Rightarrow> 'v asid_dev" where
  "dev_log A s d = d\<lparr>os := log_message A s (os d)\<rparr>"

section \<open>Ports\<close>

definition usable_port :: "('v, 'e) alsa \<Rightarrow> alsa_port \<Rightarrow> bool" where
  "usable_port A p \<longleftrightarrow>
     port_type p AND SND_SEQ_PORT_TYPE_MIDI_GENERIC A \<noteq> 0 \<and>
     (let t = SND_SEQ_PORT_CAP_WRITE A OR SND_SEQ_PORT_CAP_SUBS_WRITE A in port_capability p AND t = t)"

partial_function (option) scan_ports ::
    "('v, 'e) alsa \<Rightarrow> 'v \<Rightarrow> int \<Rightarrow> int \<Rightarrow> int \<Rightarrow> int \<Rightarrow> (alsa_port + int) option" where
  \<comment> \<open>the port numbered \<open>n\<close> among those after \<open>port\<close> of the client, or the count so far\<close>
  "scan_ports A v n client port count =
     (case snd_seq_query_next_port A client port v of
        None \<Rightarrow> Some (Inr count)
      | Some p \<Rightarrow>
          if usable_port A p then
            if count = n then Some (Inl p) else scan_ports A v n (port_client p) (port_number p) (count + 1)
          else scan_ports A v n (port_client p) (port_number p) count)"

partial_function (option) scan_clients ::
    "('v, 'e) alsa \<Rightarrow> 'v \<Rightarrow> int \<Rightarrow> int \<Rightarrow> int \<Rightarrow> (alsa_port + int) option" where
  "scan_clients A v n client count =
     (case snd_seq_query_next_client A client v of
        None \<Rightarrow> Some (Inr count)
      | Some c \<Rightarrow>
          if c \<noteq> 0 then do {
            r \<leftarrow> scan_ports A v n c (- 1) count;
            case r of Inl p \<Rightarrow> Some (Inl p) | Inr count \<Rightarrow> scan_clients A v n c count
          }
          else scan_clients A v n c count)"

definition get_port_info :: "('v, 'e) alsa \<Rightarrow> int \<Rightarrow> 'v \<Rightarrow> (u32 \<times> alsa_port option) option" where
  \<comment> \<open>the result and, when it is a port found, the port left in \<open>pinfo\<close>\<close>
  "get_port_info A n v = do {
     r \<leftarrow> scan_clients A v n (- 1) 0;
     case r of
       Inl p \<Rightarrow> Some (1, Some p)
     | Inr count \<Rightarrow> Some (if n = all_midi_ports then of_int count else 0, None)
   }"

definition get_port_count :: "('v, 'e) alsa \<Rightarrow> 'v \<Rightarrow> u32 option" where
  "get_port_count A v = map_option fst (get_port_info A all_midi_ports v)"

definition get_port_name :: "('v, 'e) alsa \<Rightarrow> int \<Rightarrow> 'v \<Rightarrow> string option" where
  "get_port_name A n v = do {
     (r, pinfo) \<leftarrow> get_port_info A n v;
     case pinfo of
       None \<Rightarrow> Some []
     | Some p \<Rightarrow>
         Some (vsnprintf 256 (snd_seq_client_info_get_name A (port_client p) v @ '':'' @ show_int (port_number p)))
   }"

section \<open>Messages\<close>

definition send_message ::
    "('v, 'e) alsa \<Rightarrow> u8 list \<Rightarrow> u8 \<Rightarrow> u64 \<Rightarrow> 'v asid_dev \<Rightarrow> (int \<times> 'v asid_dev) option" where
  "send_message A msg message_len nsec d =
     (let (result, data, v) = snd_midi_event_encode A (take (unat message_len) msg) (os d);
          d = d\<lparr>os := v\<rparr>
      in if result < int (unat message_len)
         then Some (- 1, dev_log A ''snd_midi_event_encode() failed'' d)
         else do {
           time \<leftarrow> schedule_time nsec;
           let ev = \<lparr>ev_source = vport d, ev_data = data, ev_queue = queue_id d, ev_time = time\<rparr>;
           let (r, v) = snd_seq_event_output_direct A ev (os d);
           let d = d\<lparr>os := v\<rparr>;
           if r < 0
           then Some (- 1, dev_log A (''snd_seq_ev_schedule_real() '' @ show_nat (unat nsec) @ '' failed'') d)
           else Some (0, d\<lparr>os := snd_seq_drain_output A (os d), bytes_total := bytes_total d + ucast message_len\<rparr>)
         })"

definition asid_emit :: "('v, 'e) alsa \<Rightarrow> 'v asid_dev option asid_emit_fn" where
  \<comment> \<open>the callback's host is the device, or \<open>None\<close> after a fault; the result is not looked at\<close>
  "asid_emit A chip msg nsec h =
     h \<bind> (\<lambda>d. map_option snd (send_message A msg (of_nat (length msg)) nsec d))"

definition on_codec ::
    "(asid_core_t \<times> 'v asid_dev option \<Rightarrow> (asid_core_t \<times> 'v asid_dev option) option) \<Rightarrow>
       asid_statics \<times> 'v asid_dev \<Rightarrow> (asid_statics \<times> 'v asid_dev) option" where
  \<comment> \<open>a codec call with \<open>&asid\<close> and \<open>asid_emit\<close>\<close>
  "on_codec f = (\<lambda>(s, d). do {
     (core, h) \<leftarrow> f (asid s, Some d);
     d \<leftarrow> h;
     Some (s\<lparr>asid := core\<rparr>, d)
   })"

section \<open>Opening and closing\<close>

definition initialize_midi :: "('v, 'e) alsa \<Rightarrow> 'v asid_dev \<Rightarrow> int \<times> 'v asid_dev" where
  "initialize_midi A d =
     (let (result, v) = snd_seq_open A (os d); d = d\<lparr>os := v\<rparr>
      in if result < 0 then (- 1, dev_log A ''snd_seq_open() failed'' d)
         else
           let d = d\<lparr>os := snd_seq_set_client_name A ''asid'' (os d), vport := no_port\<rparr>;
               (result, v) = snd_midi_event_new A ASID_BUFFER_SIZE (os d); d = d\<lparr>os := v\<rparr>
           in if result < 0 then (- 1, dev_log A ''snd_midi_event_new() failed'' d)
              else (0, d\<lparr>os := snd_seq_set_client_pool_output A 65536 (snd_midi_event_init A (os d))\<rparr>))"

definition open_port ::
    "('v, 'e) alsa \<Rightarrow> int \<Rightarrow> asid_statics \<times> 'v asid_dev \<Rightarrow> (int \<times> asid_statics \<times> 'v asid_dev) option" where
  \<comment> \<open>for a port number, not \<open>ALL_MIDI_PORTS\<close>\<close>
  "open_port A n = (\<lambda>(s, d). do {
     let d = d\<lparr>bytes_total := 0\<rparr>;
     nports \<leftarrow> get_port_count A (os d);
     if nports < 1 then Some (- 1, s, d)
     else do {
       (r, pinfo) \<leftarrow> get_port_info A n (os d);
       case pinfo of
         None \<Rightarrow> Some (- 1, s, d)
       | Some p \<Rightarrow>
           let sender = snd_seq_client_id A (os d);
               (vp, v) = snd_seq_create_simple_port A ''asid''
                 (SND_SEQ_PORT_CAP_READ A OR SND_SEQ_PORT_CAP_SUBS_READ A)
                 (SND_SEQ_PORT_TYPE_MIDI_GENERIC A) (os d);
               d = d\<lparr>vport := vp, os := v\<rparr>
           in if vp < 0 then Some (- 1, s, d)
              else
                let d = d\<lparr>subscription := \<lparr>sub_sender = (sender, vp), sub_dest = (port_client p, port_number p)\<rparr>\<rparr>;
                    (r, v) = snd_seq_subscribe_port A (subscription d) (os d);
                    d = d\<lparr>os := v\<rparr>
                in if r \<noteq> 0 then Some (- 1, s, d)
                   else
                     let (q, v) = snd_seq_alloc_queue A (os d);
                         d = d\<lparr>queue_id := q, os := snd_seq_start_queue A q v\<rparr>
                     in do {
                       (r, d) \<leftarrow> send_message A asid_start_msg 4 0 d;
                       if r \<noteq> 0 then Some (- 1, s, dev_log A ''asid start failed'' d)
                       else Some (0, s\<lparr>last_irq := replicate ASID_CHIPS 0, start_clock := replicate ASID_CHIPS 0\<rparr>, d)
                     }
     }
   })"

definition close_port :: "('v, 'e) alsa \<Rightarrow> asid_statics \<times> 'v asid_dev \<Rightarrow> (asid_statics \<times> 'v asid_dev) option" where
  "close_port A = (\<lambda>(s, d). do {
     let d = dev_log A (show_nat (unat (bytes_total d)) @ '' asid bytes sent, '' @
           show_nat (unat (bytes_saved (asid s))) @ '' bytes saved'') d;
     d \<leftarrow> (if vport d \<noteq> no_port then map_option snd (send_message A asid_stop_msg 4 0 d) else Some d);
     let d = d\<lparr>os := snd_seq_remove_events A (queue_id d) (os d)\<rparr>;
     let d = d\<lparr>os := snd_seq_stop_queue A (queue_id d) (os d)\<rparr>;
     let d = d\<lparr>os := snd_seq_free_queue A (queue_id d) (os d)\<rparr>;
     Some (s, if vport d \<noteq> no_port
              then d\<lparr>os := snd_seq_delete_port A (vport d) (snd_seq_unsubscribe_port A (subscription d) (os d)),
                     vport := no_port\<rparr>
              else d)
   })"

definition asid_close :: "('v, 'e) alsa \<Rightarrow> asid_statics \<times> 'v asid_dev \<Rightarrow> (asid_statics \<times> 'v asid_dev) option" where
  "asid_close A st = do {
     (s, d) \<leftarrow> close_port A st;
     Some (s, d\<lparr>os := snd_seq_close A (snd_midi_event_free A (os d))\<rparr>)
   }"

definition atoi :: "string \<Rightarrow> int" where
  \<comment> \<open>\<open>(int) strtol (s, NULL, 10)\<close>\<close>
  "atoi s = signed_take_bit 31 (fst (strtol s 10))"

definition log_ports :: "('v, 'e) alsa \<Rightarrow> nat \<Rightarrow> 'v asid_dev \<Rightarrow> 'v asid_dev option" where
  "log_ports A nports = for_each (\<lambda>i d. do {
     name \<leftarrow> get_port_name A (int i) (os d);
     Some (dev_log A (''Port '' @ show_nat i @ '' : '' @ name) d)
   }) [0..<nports]"

definition asid_init ::
    "('v, 'e) alsa \<Rightarrow> string option \<Rightarrow> asid_statics \<times> 'v asid_dev \<Rightarrow> (int \<times> asid_statics \<times> 'v asid_dev) option" where
  \<comment> \<open>the channel count it stores is always 2\<close>
  "asid_init A param = (\<lambda>(s, d).
     let (r, d) = initialize_midi A d
     in if r \<noteq> 0 then Some (- 1, s, dev_log A ''failed to initialize MIDI'' d)
        else do {
          nports \<leftarrow> map_option sint (get_port_count A (os d));
          if nports = 0 then Some (- 1, s, dev_log A ''No MIDI ports available'' d)
          else do {
            d \<leftarrow> log_ports A (nat nports) (dev_log A ''asid open, available ports'' d);
            case param of
              None \<Rightarrow> Some (- 1, s, dev_log A ''-soundarg <n> is required'' d)
            | Some param \<Rightarrow>
                let asid_param = atoi param;
                    asid_port = asid_param AND 1023;
                    use_update_reg = of_bool (asid_param AND 1024 \<noteq> 0)
                in if asid_port < 0 \<or> asid_port > nports - 1
                   then Some (- 1, s, dev_log A ''invalid MIDI port in -soundarg'' d)
                   else do {
                     let d = (if use_update_reg \<noteq> 0
                              then dev_log A ''Using asid register update messages'' d else d);
                     core \<leftarrow> asid_core_init use_update_reg;
                     let s = s\<lparr>asid := core\<rparr>;
                     name \<leftarrow> get_port_name A asid_port (os d);
                     let d = dev_log A (''Using asid port: '' @ show_int asid_port @ '' '' @ name) d;
                     (r, s, d) \<leftarrow> open_port A asid_port (s, d);
                     if r \<noteq> 0 then Some (- 1, s, dev_log A ''Open port failed'' d)
                     else Some (0, s, d)
                   }
          }
        })"

section \<open>SID writes\<close>

definition show_f :: "fp \<Rightarrow> string" where \<comment> \<open>\<open>%f\<close>\<close>
  "show_f = (\<lambda>(p, q).
     let m = rne (p * 1000000) q
     in show_nat (m div 1000000) @ ''.'' @ pad_left 6 CHR ''0'' (show_nat (m mod 1000000)))"

definition slip_ms :: "int \<Rightarrow> fp" where
  \<comment> \<open>\<open>float slip_ms = labs(n) / 1e6\<close>\<close>
  "slip_ms n = fp_round 24 (fp_div (fp_nat (nat \<bar>n\<bar>)) (fp_nat 1000000))"

definition s64_sub :: "u64 \<Rightarrow> u64 \<Rightarrow> int option" where
  \<comment> \<open>\<open>(int64_t)a - (int64_t)b\<close>\<close>
  "s64_sub a b = (let n = sint a - sint b in if - (2 ^ 63) \<le> n \<and> n < 2 ^ 63 then Some n else None)"

definition flush_delay ::
    "('v, 'e) alsa \<Rightarrow> u64 \<Rightarrow> u64 \<Rightarrow> u64 \<Rightarrow> 'v asid_dev \<Rightarrow> (u64 \<times> 'v asid_dev) option" where
  \<comment> \<open>from the interrupt's clock, now and the start of the session to the delay of the flush\<close>
  "flush_delay A clk now start d = do {
     ns \<leftarrow> asid_clock_to_nanos (clk + ASID_CYCLE_PAD) (of_int (machine_get_cycles_per_second A (os d)));
     n \<leftarrow> s64_sub ns (now - start);
     if n < 0 then
       if n = - (2 ^ 63) then None
       else Some (0, if snd (slip_ms n) < fst (slip_ms n)
                     then dev_log A (''asid slip by '' @ show_f (slip_ms n) @ ''ms'') d else d)
     else Some (of_int n, d)
   }"

definition irq_flush ::
    "('v, 'e) alsa \<Rightarrow> u8 \<Rightarrow> asid_statics \<times> 'v asid_dev \<Rightarrow> (asid_statics \<times> 'v asid_dev) option" where
  \<comment> \<open>the flush of the previous interrupt's changes\<close>
  "irq_flush A chipno = (\<lambda>(s, d). do {
     last \<leftarrow> aget (last_irq s) (unat chipno);
     if \<not> asid_should_flush_on_irq (irq_clk A (os d)) last then Some (s, d)
     else do {
       let clk = irq_clk A (os d);
       let (ts, v) = clock_gettime A (os d);
       let d = d\<lparr>os := v\<rparr>;
       now \<leftarrow> get_clock ts;
       start \<leftarrow> aget (start_clock s) (unat chipno);
       let start = (if start = 0 then now else start);
       starts \<leftarrow> aset (start_clock s) (unat chipno) start;
       lasts \<leftarrow> aset (last_irq s) (unat chipno) clk;
       let s = s\<lparr>start_clock := starts, last_irq := lasts\<rparr>;
       (n, d) \<leftarrow> flush_delay A clk now start d;
       on_codec (asid_core_flush (asid_emit A) chipno n) (s, d)
     }
   })"

definition asid_dump2 ::
    "('v, 'e) alsa \<Rightarrow> u8 \<Rightarrow> u16 \<Rightarrow> u8 \<Rightarrow> asid_statics \<times> 'v asid_dev \<Rightarrow> (asid_statics \<times> 'v asid_dev) option" where
  \<comment> \<open>it always returns 0; the three clock arguments are not looked at\<close>
  "asid_dump2 A chipno addr byte = (\<lambda>(s, d).
     if ASID_CHIPS \<le> chipno then Some (s, d)
     else do {
       (s, d) \<leftarrow> irq_flush A chipno (s, d);
       let reg = (ucast (addr AND 0x1f) :: u8);
       if ASID_MAX_SID_REG < reg then Some (s, d)
       else on_codec (asid_core_set_reg (asid_emit A) chipno reg byte) (s, d)
     })"

section \<open>The sound device\<close>

definition asid_write :: "16 word list \<Rightarrow> nat \<Rightarrow> asid_statics \<times> 'v asid_dev \<Rightarrow> int \<times> asid_statics \<times> 'v asid_dev" where
  "asid_write pbuf nr st = (0, st)"

definition asid_flush :: "string \<Rightarrow> asid_statics \<times> 'v asid_dev \<Rightarrow> int \<times> asid_statics \<times> 'v asid_dev" where
  "asid_flush state st = (0, st)"

text \<open>The callbacks of VICE's \<open>sound_device_t\<close> on the device's state; \<open>None\<close> is a null pointer.\<close>

record 's sound_device_t =
  sd_name :: string
  sd_init :: "string option \<Rightarrow> 's \<Rightarrow> (int \<times> 's) option"
  sd_write :: "16 word list \<Rightarrow> nat \<Rightarrow> 's \<Rightarrow> int \<times> 's"
  sd_dump :: "(u16 \<Rightarrow> u8 \<Rightarrow> u64 \<Rightarrow> 's \<Rightarrow> (int \<times> 's) option) option"
  sd_dump2 :: "(u64 \<Rightarrow> u64 \<Rightarrow> u64 \<Rightarrow> u8 \<Rightarrow> u16 \<Rightarrow> u8 \<Rightarrow> 's \<Rightarrow> (int \<times> 's) option) option"
  sd_flush :: "string \<Rightarrow> 's \<Rightarrow> int \<times> 's"
  sd_bufferspace :: "('s \<Rightarrow> int) option"
  sd_close :: "'s \<Rightarrow> 's option"

definition asid_device :: "('v, 'e) alsa \<Rightarrow> (asid_statics \<times> 'v asid_dev) sound_device_t" where
  "asid_device A =
     \<lparr>sd_name = ''asid'', sd_init = asid_init A, sd_write = asid_write, sd_dump = None,
      sd_dump2 = Some (\<lambda>clks irq_clks nmi_clks chipno addr byte st. map_option (Pair 0) (asid_dump2 A chipno addr byte st)),
      sd_flush = asid_flush, sd_bufferspace = None, sd_close = asid_close A\<rparr>"

definition sound_init_asid_device ::
    "('v, 'e) alsa \<Rightarrow> ((asid_statics \<times> 'v asid_dev) sound_device_t \<Rightarrow> 'r \<Rightarrow> int \<times> 'r) \<Rightarrow> 'r \<Rightarrow> int \<times> 'r" where
  "sound_init_asid_device A sound_register_device = sound_register_device (asid_device A)"

section \<open>The ports\<close>

text \<open>
  The walk returns when the queries step upwards and stay below a bound, as client and port numbers do
  in ALSA.
\<close>

definition stepping :: "('v, 'e) alsa \<Rightarrow> 'v \<Rightarrow> int \<Rightarrow> bool" where
  "stepping A v hi \<longleftrightarrow>
     (\<forall>c c'. snd_seq_query_next_client A c v = Some c' \<longrightarrow> c < c' \<and> c' < hi) \<and>
     (\<forall>c q p. snd_seq_query_next_port A c q v = Some p \<longrightarrow> q < port_number p \<and> port_number p < hi)"

lemma scan_ports_returns:
  assumes "stepping A v hi"
  shows "\<exists>r. scan_ports A v n client port count = Some r"
proof (induction "nat (hi - port)" arbitrary: client port count rule: less_induct)
  case less
  show ?case
  proof (cases "snd_seq_query_next_port A client port v")
    case None
    then show ?thesis by (simp add: scan_ports.simps)
  next
    case (Some p)
    with assms have "nat (hi - port_number p) < nat (hi - port)" by (force simp: stepping_def)
    from less [OF this] Some show ?thesis by (subst scan_ports.simps) simp
  qed
qed

lemma scan_clients_returns:
  assumes "stepping A v hi"
  shows "\<exists>r. scan_clients A v n client count = Some r"
proof (induction "nat (hi - client)" arbitrary: client count rule: less_induct)
  case less
  show ?case
  proof (cases "snd_seq_query_next_client A client v")
    case None
    then show ?thesis by (simp add: scan_clients.simps)
  next
    case (Some c)
    with assms have "nat (hi - c) < nat (hi - client)" by (force simp: stepping_def)
    note IH = less [OF this]
    obtain r where "scan_ports A v n c (- 1) count = Some r" using scan_ports_returns [OF assms] by blast
    with Some IH show ?thesis by (subst scan_clients.simps) (auto split: sum.split)
  qed
qed

lemma get_port_info_returns:
  assumes "stepping A v hi"
  shows "\<exists>r. get_port_info A n v = Some r"
proof -
  obtain r where "scan_clients A v n (- 1) 0 = Some r" using scan_clients_returns [OF assms] by blast
  then show ?thesis by (simp add: get_port_info_def split: sum.split)
qed

lemma get_port_count_name_return:
  assumes "stepping A v hi"
  shows "\<exists>c. get_port_count A v = Some c" "\<exists>name. get_port_name A n v = Some name"
  using get_port_info_returns [OF assms, of all_midi_ports] get_port_info_returns [OF assms, of n]
  by (auto simp: get_port_count_def get_port_name_def split: prod.splits option.splits)

lemma log_ports_returns:
  assumes "\<And>v. stepping A v (hi v)"
  shows "\<exists>d'. log_ports A n d = Some d'"
proof (induction n)
  case (Suc n)
  then obtain d' where "log_ports A n d = Some d'" by blast
  with get_port_count_name_return(2) [OF assms, of "int n" "os d'"] show ?case
    by (auto simp: log_ports_def for_each_append)
qed (simp add: log_ports_def)

lemma send_message_returns: "\<exists>r d'. send_message A msg len 0 d = Some (r, d')"
  using schedule_time_split [of 0] by (simp add: send_message_def Let_def split: prod.split)

lemma open_port_returns:
  assumes "\<And>v. stepping A v (hi v)"
  shows "\<exists>r s' d'. open_port A n (s, d) = Some (r, s', d') \<and> (r = 0 \<or> r = - 1)"
proof -
  obtain c where c: "get_port_count A v = Some (c v)" for v
    using get_port_count_name_return(1) [OF assms] by metis
  obtain i where p: "get_port_info A n v = Some (i v)" for v
    using get_port_info_returns [OF assms] by metis
  obtain sr sd where s: "send_message A asid_start_msg 4 0 d = Some (sr d, sd d)" for d
    using send_message_returns [of A asid_start_msg 4] by metis
  show ?thesis by (simp add: open_port_def c p s Let_def split: prod.split option.split)
qed

text \<open>C13: Opening the device always returns, for any sound argument and whatever each call of ALSA answers,
  with 0 or -1, when ALSA's queries step upwards and stay bounded: neither the walks over the clients
  and ports nor the log of the ports run for ever, and no access is out of bounds.\<close>

theorem asid_init_returns:
  assumes "\<And>v. stepping A v (hi v)"
  shows "\<exists>r s' d'. asid_init A param (s, d) = Some (r, s', d') \<and> (r = 0 \<or> r = - 1)"
proof -
  obtain c where c: "get_port_count A v = Some (c v)" for v
    using get_port_count_name_return(1) [OF assms] by metis
  obtain nm where nm: "get_port_name A n v = Some (nm n v)" for n v
    using get_port_count_name_return(2) [OF assms] by metis
  obtain lg where lg: "log_ports A k d = Some (lg k d)" for k d
    using log_ports_returns [OF assms] by metis
  have op: "\<exists>r s' d'. open_port A n (s, d) \<bind> (\<lambda>(r, s, d). if r \<noteq> 0 then Some (- 1, s, f d) else Some (0, s, d)) =
      Some (r, s', d') \<and> (r = 0 \<or> r = - 1)" for n s d f
    using open_port_returns [OF assms, of n s d] by auto
  show ?thesis
    by (simp add: asid_init_def c nm lg asid_core_init_fresh Let_def split: prod.split option.split)
      (intro conjI allI impI op [simplified])
qed

text \<open>
  ALSA's clients are a list in ascending order, each with its ports, and the queries yield the first one
  after the number they are given. The ports a number of the sound argument can name are those of
  clients other than the system's that can be written to.
\<close>

type_synonym client_list = "(int \<times> alsa_port list) list"

definition port_list :: "int \<Rightarrow> alsa_port list \<Rightarrow> bool" where
  "port_list c ps \<longleftrightarrow> sorted_wrt (<) (- 1 # map port_number ps) \<and> (\<forall>p\<in>set ps. port_client p = c)"

definition lists :: "('v, 'e) alsa \<Rightarrow> 'v \<Rightarrow> client_list \<Rightarrow> bool" where
  "lists A v cls \<longleftrightarrow>
     sorted_wrt (<) (- 1 # map fst cls) \<and>
     (\<forall>c. snd_seq_query_next_client A c v = map_option fst (find (\<lambda>(c', _). c < c') cls)) \<and>
     (\<forall>(c, ps)\<in>set cls. port_list c ps \<and> (\<forall>q. snd_seq_query_next_port A c q v = find (\<lambda>p. q < port_number p) ps))"

definition midi_ports :: "('v, 'e) alsa \<Rightarrow> client_list \<Rightarrow> alsa_port list" where
  "midi_ports A cls = concat (map (\<lambda>(c, ps). if c \<noteq> 0 then filter (usable_port A) ps else []) cls)"

definition pick :: "int \<Rightarrow> alsa_port list \<Rightarrow> int \<Rightarrow> alsa_port + int" where
  \<comment> \<open>the port numbered \<open>n\<close> when counting starts at \<open>count\<close>\<close>
  "pick n ps count =
     (if count \<le> n \<and> n < count + int (length ps) then Inl (ps ! nat (n - count)) else Inr (count + int (length ps)))"

lemma pick_simps [simp]:
  "pick n [] count = Inr count"
  "pick n (p # ps) count = (if count = n then Inl p else pick n ps (count + 1))"
proof -
  have "nat (n - count) = Suc (nat (n - (count + 1)))" if "count < n" using that by simp
  then show "pick n (p # ps) count = (if count = n then Inl p else pick n ps (count + 1))"
    by (auto simp: pick_def)
qed (simp add: pick_def)

lemma pick_append:
  "pick n (ps @ qs) count = (case pick n ps count of Inl p \<Rightarrow> Inl p | Inr count \<Rightarrow> pick n qs count)"
  by (induction ps arbitrary: count) simp_all

text \<open>After some elements of an ascending list, the first one larger than the last of them is the next.\<close>

lemma find_next:
  assumes "sorted_wrt (<) (x # map f (xs @ ys))" "y = last (x # map f xs)"
  shows "find (\<lambda>z. (y :: int) < f z) (xs @ ys) = (case ys of [] \<Rightarrow> None | z # _ \<Rightarrow> Some z)"
proof -
  have le: "f z \<le> y" if "z \<in> set xs" for z
  proof (cases xs rule: rev_cases)
    case (snoc us u)
    with assms that show ?thesis by (auto simp: sorted_wrt_append)
  qed (use that in simp)
  have "y < f z" if "z \<in> set ys" for z
    using assms that by (cases xs rule: rev_cases) (auto simp: sorted_wrt_append)
  moreover have "find (\<lambda>z. y < f z) (us @ ys) = find (\<lambda>z. y < f z) ys" if "\<forall>z\<in>set us. f z \<le> y" for us
    using that by (induction us) (auto simp: not_less)
  then have "find (\<lambda>z. y < f z) (xs @ ys) = find (\<lambda>z. y < f z) ys" using le by blast
  ultimately show ?thesis by (cases ys) auto
qed

lemma scan_ports_pick:
  assumes next_port: "\<And>q. snd_seq_query_next_port A c q v = find (\<lambda>p. q < port_number p) ps" and "port_list c ps"
    and "ps = xs @ ys" "q = last (- 1 # map port_number xs)"
  shows "scan_ports A v n c q count = Some (pick n (filter (usable_port A) ys) count)"
  using assms(3,4)
proof (induction ys arbitrary: xs q count)
  case Nil
  have "sorted_wrt (<) (- 1 # map port_number (xs @ []))" using assms(2) Nil(1) by (simp only: port_list_def)
  from find_next [OF this Nil(2)] have "snd_seq_query_next_port A c q v = None"
    unfolding next_port Nil(1) list.case .
  then show ?case by (subst scan_ports.simps) simp
next
  case (Cons p ys)
  have "sorted_wrt (<) (- 1 # map port_number (xs @ p # ys))" using assms(2) Cons.prems(1) by (simp only: port_list_def)
  from find_next [OF this Cons.prems(2)] have "snd_seq_query_next_port A c q v = Some p"
    unfolding next_port Cons.prems(1) list.case .
  moreover have "port_client p = c" using assms(2) Cons.prems(1) by (simp add: port_list_def)
  moreover have "scan_ports A v n c (port_number p) count = Some (pick n (filter (usable_port A) ys) count)" for count
    by (rule Cons.IH [of "xs @ [p]"]) (simp_all add: Cons.prems(1))
  ultimately show ?case by (subst scan_ports.simps) simp
qed

lemma lists_next:
  assumes "lists A v (xs @ ys)" "c = last (- 1 # map fst xs)"
  shows "snd_seq_query_next_client A c v = (case ys of [] \<Rightarrow> None | y # _ \<Rightarrow> Some (fst y))"
proof -
  have "sorted_wrt (<) (- 1 # map fst (xs @ ys))"
    and "snd_seq_query_next_client A c v = map_option fst (find (\<lambda>z. c < fst z) (xs @ ys))"
    using assms(1) by (simp_all only: lists_def case_prod_unfold)
  with find_next [OF this(1) assms(2)] show ?thesis by (cases ys) simp_all
qed

lemma scan_clients_pick:
  assumes "lists A v (xs @ ys)" "c = last (- 1 # map fst xs)"
  shows "scan_clients A v n c count = Some (pick n (midi_ports A ys) count)"
  using assms
proof (induction ys arbitrary: xs c count)
  case Nil
  from lists_next [OF Nil] show ?case by (subst scan_clients.simps) (simp add: midi_ports_def)
next
  case (Cons y ys)
  obtain c' ps where y: "y = (c', ps)" by (cases y)
  have ps: "port_list c' ps" "snd_seq_query_next_port A c' q v = find (\<lambda>p. q < port_number p) ps" for q
    using Cons.prems(1) by (auto simp: lists_def y)
  have "scan_ports A v n c' (- 1) count = Some (pick n (filter (usable_port A) ps) count)" for count
    by (rule scan_ports_pick [OF ps(2,1), of "[]"]) simp_all
  moreover have "scan_clients A v n c' count = Some (pick n (midi_ports A ys) count)" for count
    by (rule Cons.IH [of "xs @ [y]"]) (use Cons.prems(1) in \<open>simp_all add: y\<close>)
  ultimately show ?case using lists_next [OF Cons.prems]
    by (subst scan_clients.simps) (auto simp: y midi_ports_def pick_append split: sum.split)
qed

lemma get_port_info_nat:
  assumes "lists A v cls"
  shows "get_port_info A (int k) v =
     Some (if k < length (midi_ports A cls) then (1, Some (midi_ports A cls ! k)) else (0, None))"
  using scan_clients_pick [of A v "[]" cls "- 1"] assms by (simp add: get_port_info_def pick_def all_midi_ports_def)

lemma get_port_count_list:
  assumes "lists A v cls"
  shows "get_port_count A v = Some (of_nat (length (midi_ports A cls)))"
  using scan_clients_pick [of A v "[]" cls "- 1"] assms
  by (simp add: get_port_count_def get_port_info_def pick_def all_midi_ports_def)

text \<open>Port numbers: the count is the number of writable MIDI ports of the non-system clients in the
  order ALSA lists them, a number below it names the port at that place of the list, and any other
  number is refused with 0.\<close>

theorem asid_port_numbers:
  assumes "lists A v cls"
  shows "get_port_count A v = Some (of_nat (length (midi_ports A cls))) \<and>
   get_port_info A (int k) v =
     Some (if k < length (midi_ports A cls) then (1, Some (midi_ports A cls ! k)) else (0, None))"
  using get_port_count_list [OF assms] get_port_info_nat [OF assms] by simp

end
