(* ===== verification/Asid_Adapter.thy ===== *)
theory Asid_Adapter
  imports Asid_Device
begin

unbundle bit_operations_syntax

text \<open>
  The ASID device on a working sequencer: what it relies on from ALSA, the clock and the emulator, the
  codec's transport contract met by its emit callback, and the composition of the two: what a receiver
  on the MIDI port gets of the emulator's SID writes.
\<close>

section \<open>A working sequencer\<close>

text \<open>
  What the sequencer was handed is a ghost list: each call of \<open>snd_seq_event_output_direct\<close> is an entry
  with whether the call was accepted (the client is opened non-blocking, so a full pool refuses one), the
  queue, the time the event is due and its bytes. The sequencer plays the accepted ones in the order of
  their due times, those due together in the order they were handed over.
\<close>

record handover =
  ho_taken :: bool
  ho_queue :: int
  ho_due :: nat
  ho_msg :: "u8 list"

definition played :: "handover list \<Rightarrow> u8 list list" where
  "played evs = map ho_msg (sort_key ho_due (filter ho_taken evs))"

lemma played_in_order:
  assumes "list_all ho_taken evs" "sorted (map ho_due evs)"
  shows "played evs = map ho_msg evs"
proof -
  have "filter ho_taken evs = evs" using assms(1) by (simp add: list_all_iff)
  then show ?thesis using assms(2) by (simp add: played_def sort_key_id_if_sorted)
qed

text \<open>
  \<open>clients\<close> is the list of ALSA's clients and ports, \<open>handed\<close> the ghost list and \<open>time\<close> the monotonic
  clock in ns. Encoding a message of at most the coder's 256 bytes takes all of it, and the event made of
  it, when output, is due its relative time after the call, whether or not it is accepted; no other call
  of the codec's path hands anything over, takes anything back or turns the clock back, and logging leaves
  the ports alone. The machine has been up less than 104 days and the emulated one, of at least 500 kHz,
  has run less than \<open>2\<^sup>4\<^sup>1\<close> cycles.
\<close>

definition quiet :: "('v \<Rightarrow> handover list) \<Rightarrow> ('v \<Rightarrow> nat) \<Rightarrow> ('v \<Rightarrow> 'v) \<Rightarrow> bool" where
  "quiet handed time f \<longleftrightarrow>
     (\<forall>v. handed (f v) = handed v \<and> time v \<le> time (f v))"

definition event_delay :: "u32 \<times> u32 \<Rightarrow> nat" where
  "event_delay tm = unat (fst tm) * 1000000000 + unat (snd tm)"

definition outputs :: "('v, 'e) alsa \<Rightarrow> ('v \<Rightarrow> handover list) \<Rightarrow> ('v \<Rightarrow> nat) \<Rightarrow> 'e \<Rightarrow> u8 list \<Rightarrow> bool" where
  \<comment> \<open>outputting an event with this data hands over the message, due its delay after the call\<close>
  "outputs A handed time data msg \<longleftrightarrow>
     (\<forall>src q tm v. let (r, w) = snd_seq_event_output_direct A
           \<lparr>ev_source = src, ev_data = data, ev_queue = q, ev_time = tm\<rparr> v
        in \<exists>t. time v \<le> t \<and> t \<le> time w \<and> handed w = handed v @
             [\<lparr>ho_taken = (0 \<le> r), ho_queue = q, ho_due = t + event_delay tm, ho_msg = msg\<rparr>])"

definition alsa_laws :: "('v, 'e) alsa \<Rightarrow> ('v \<Rightarrow> client_list) \<Rightarrow> ('v \<Rightarrow> handover list) \<Rightarrow> ('v \<Rightarrow> nat) \<Rightarrow> bool" where
  "alsa_laws A clients handed time \<longleftrightarrow>
     (\<forall>msg v. length msg \<le> 256 \<longrightarrow> fst (snd_midi_event_encode A msg v) = int (length msg) \<and>
        outputs A handed time (fst (snd (snd_midi_event_encode A msg v))) msg) \<and>
     (\<forall>msg. quiet handed time (\<lambda>v. snd (snd (snd_midi_event_encode A msg v)))) \<and>
     quiet handed time (snd_seq_drain_output A) \<and>
     (\<forall>s. quiet handed time (log_message A s)) \<and>
     (\<forall>v. lists A v (clients v) \<and> (\<forall>s. clients (log_message A s v) = clients v)) \<and>
     quiet handed time (\<lambda>v. snd (clock_gettime A v)) \<and>
     (\<forall>v. fst (clock_gettime A v) = (time v div 1000000000, time v mod 1000000000) \<and> time v < 2 ^ 53) \<and>
     (\<forall>v. unat (irq_clk A v) + 20000 < 2 ^ 41 \<and>
        500000 \<le> machine_get_cycles_per_second A v \<and> machine_get_cycles_per_second A v < 2 ^ 31)"

definition timely :: "u64 \<Rightarrow> bool" where
  "timely nsec \<longleftrightarrow> unat nsec < 2 ^ 53"

lemma quietD:
  assumes "quiet handed time f"
  shows "handed (f v) = handed v" "time v \<le> time (f v)"
  using assms by (simp_all add: quiet_def)

lemma outputsD:
  assumes "outputs A handed time data msg"
    "snd_seq_event_output_direct A \<lparr>ev_source = src, ev_data = data, ev_queue = q, ev_time = tm\<rparr> v = (r, w)"
  obtains t where "time v \<le> t" "t \<le> time w" "handed w = handed v @
    [\<lparr>ho_taken = (0 \<le> r), ho_queue = q, ho_due = t + event_delay tm, ho_msg = msg\<rparr>]"
  using assms(1) [unfolded outputs_def, THEN spec [of _ src], THEN spec [of _ q], THEN spec [of _ tm], THEN spec [of _ v]]
  by (auto simp: assms(2))

lemma alsa_lawsD:
  assumes laws: "alsa_laws A clients handed time"
  shows "length msg \<le> 256 \<Longrightarrow> fst (snd_midi_event_encode A msg v) = int (length msg)"
    and "length msg \<le> 256 \<Longrightarrow> outputs A handed time (fst (snd (snd_midi_event_encode A msg v))) msg"
    and "quiet handed time (\<lambda>v. snd (snd (snd_midi_event_encode A msg v)))"
    and "quiet handed time (snd_seq_drain_output A)"
    and "quiet handed time (log_message A str)"
    and "quiet handed time (\<lambda>v. snd (clock_gettime A v))"
    and "fst (clock_gettime A v) = (time v div 1000000000, time v mod 1000000000)"
    and "time v < 2 ^ 53"
    and "unat (irq_clk A v) + 20000 < 2 ^ 41"
    and "500000 \<le> machine_get_cycles_per_second A v"
    and "machine_get_cycles_per_second A v < 2 ^ 31"
    and "lists A v (clients v)" and "clients (log_message A str v) = clients v"
proof -
  note l = laws [unfolded alsa_laws_def]
  show "length msg \<le> 256 \<Longrightarrow> fst (snd_midi_event_encode A msg v) = int (length msg)"
    "length msg \<le> 256 \<Longrightarrow> outputs A handed time (fst (snd (snd_midi_event_encode A msg v))) msg"
    using l [THEN conjunct1] by simp_all
  note l2 = l [THEN conjunct2]
  show "quiet handed time (\<lambda>v. snd (snd (snd_midi_event_encode A msg v)))"
    by (rule l2 [THEN conjunct1, rule_format])
  note l3 = l2 [THEN conjunct2]
  show "quiet handed time (snd_seq_drain_output A)" by (rule l3 [THEN conjunct1])
  note l4 = l3 [THEN conjunct2]
  show "quiet handed time (log_message A str)" by (rule l4 [THEN conjunct1, rule_format])
  note l4 = l4 [THEN conjunct2]
  show "lists A v (clients v)" "clients (log_message A str v) = clients v"
    using l4 [THEN conjunct1] by simp_all
  note l5 = l4 [THEN conjunct2]
  show "quiet handed time (\<lambda>v. snd (clock_gettime A v))" by (rule l5 [THEN conjunct1])
  note l6 = l5 [THEN conjunct2]
  show "fst (clock_gettime A v) = (time v div 1000000000, time v mod 1000000000)" "time v < 2 ^ 53"
    "unat (irq_clk A v) + 20000 < 2 ^ 41" "500000 \<le> machine_get_cycles_per_second A v"
    "machine_get_cycles_per_second A v < 2 ^ 31"
    using l6 by blast+
qed

lemma schedule_delay:
  assumes "timely nsec"
  obtains tm where "schedule_time nsec = Some tm" "event_delay tm = unat nsec"
proof -
  have n: "unat nsec < 2 ^ 53" using assms by (simp add: timely_def)
  have "unat nsec div 1000000000 < 2 ^ 32" "unat nsec mod 1000000000 < 2 ^ 32"
    using n by (simp_all add: less_mult_imp_div_less)
  then have "event_delay (of_nat (unat nsec div 1000000000), of_nat (unat nsec mod 1000000000)) = unat nsec"
    by (simp add: event_delay_def unat_of_nat take_bit_nat_eq_self)
  with schedule_time_split [OF n] show ?thesis by (rule that)
qed

text \<open>Sending hands the message over, due its delay from now, and succeeds just when it is accepted.\<close>

lemma send_ok:
  assumes laws: "alsa_laws A clients handed time" and len: "length msg < 256" and t: "timely nsec"
  shows "\<exists>r d' taken t. send_message A msg (of_nat (length msg)) nsec d = Some (r, d') \<and> (r = 0) = taken \<and>
    handed (os d') = handed (os d) @
      [\<lparr>ho_taken = taken, ho_queue = queue_id d, ho_due = t + unat nsec, ho_msg = msg\<rparr>] \<and>
    time (os d) \<le> t \<and> t \<le> time (os d') \<and>
    subscription d' = subscription d \<and> vport d' = vport d \<and> queue_id d' = queue_id d"
proof -
  have u: "unat (of_nat (length msg) :: u8) = length msg" using len by (simp add: unat_of_nat take_bit_nat_eq_self)
  obtain tm where tm: "schedule_time nsec = Some tm" "event_delay tm = unat nsec"
    by (rule schedule_delay [OF t])
  obtain r data v where enc: "snd_midi_event_encode A msg (os d) = (r, data, v)" by (cases "snd_midi_event_encode A msg (os d)")
  let ?ev = "\<lparr>ev_source = vport d, ev_data = data, ev_queue = queue_id d, ev_time = tm\<rparr>"
  obtain r' w where out: "snd_seq_event_output_direct A ?ev v = (r', w)"
    by (cases "snd_seq_event_output_direct A ?ev v")
  have "length msg \<le> 256" using len by simp
  then have r: "r = int (length msg)" and o: "outputs A handed time data msg"
    using alsa_lawsD(1,2) [OF laws, of msg "os d"] by (simp_all add: enc)
  obtain t where o: "time v \<le> t" "t \<le> time w" "handed w = handed v @
      [\<lparr>ho_taken = (0 \<le> r'), ho_queue = queue_id d, ho_due = t + event_delay tm, ho_msg = msg\<rparr>]"
    by (rule outputsD [OF o out])
  have v: "handed v = handed (os d)" "time (os d) \<le> time v"
    using quietD [OF alsa_lawsD(3) [OF laws, of msg], of "os d"] by (simp_all add: enc)
  note logged = quietD [OF alsa_lawsD(5) [OF laws], where v = w] and drained = quietD [OF alsa_lawsD(4) [OF laws], where v = w]
  show ?thesis
  proof (cases "r' < 0")
    case True
    then show ?thesis using v o
      by (intro exI [of _ "- 1"] exI [of _ False] exI [of _ t])
        (auto simp: send_message_def u enc r tm out Let_def dev_log_def logged order_trans [OF o(2) logged(2)])
  next
    case False
    then show ?thesis using v o
      by (intro exI [of _ 0] exI [of _ True] exI [of _ t])
        (auto simp: send_message_def u enc r tm out Let_def drained order_trans [OF o(2) drained(2)])
  qed
qed

text \<open>
  A message sent at once while an earlier one still waits for its time is played first. That is what a
  forced flush (no delay) does to the flush of the last interrupt (a delay of 20000 cycles and more at the
  start of a session).
\<close>

lemma forced_flush_overtakes:
  assumes "alsa_laws A clients handed time" "length m1 < 256" "length m2 < 256" "timely n"
    and "send_message A m1 (of_nat (length m1)) n d = Some (0, d1)"
    and "send_message A m2 (of_nat (length m2)) 0 d1 = Some (0, d2)"
    and "time (os d2) < time (os d) + unat n"
  shows "\<exists>evs. handed (os d2) = handed (os d) @ evs \<and> map ho_msg evs = [m1, m2] \<and> played evs = [m2, m1]"
proof -
  obtain t where e1: "handed (os d1) = handed (os d) @
      [\<lparr>ho_taken = True, ho_queue = queue_id d, ho_due = t + unat n, ho_msg = m1\<rparr>]" "time (os d) \<le> t"
    using send_ok [OF assms(1,2,4), of d] assms(5) by auto
  obtain u where e2: "handed (os d2) = handed (os d1) @
      [\<lparr>ho_taken = True, ho_queue = queue_id d1, ho_due = u, ho_msg = m2\<rparr>]" "u \<le> time (os d2)"
    using send_ok [OF assms(1,3), of 0 d1] assms(6) by (auto simp: timely_def)
  have "u < t + unat n" using e1(2) e2(2) assms(7) by simp
  then show ?thesis using e1(1) e2(1) by (simp add: played_def)
qed

section \<open>The emit callback is a transport\<close>

definition sent_since :: "('v \<Rightarrow> handover list) \<Rightarrow> handover list \<Rightarrow> 'v asid_dev option \<Rightarrow> u8 list list" where
  "sent_since handed base h =
     (case h of None \<Rightarrow> [] | Some d \<Rightarrow> map ho_msg (drop (length base) (handed (os d))))"

definition up_since :: "('v \<Rightarrow> handover list) \<Rightarrow> ('v \<Rightarrow> nat) \<Rightarrow> handover list \<Rightarrow> nat \<Rightarrow> 'v asid_dev option \<Rightarrow> bool" where
  "up_since handed time base t0 h \<longleftrightarrow>
     (\<exists>d. h = Some d \<and> take (length base) (handed (os d)) = base \<and> t0 \<le> time (os d))"

lemma asid_emit_transport:
  assumes laws: "alsa_laws A clients handed time"
  shows "asid_transport (asid_emit A) (sent_since handed base) (up_since handed time base t0) timely"
proof
  fix h :: "'a asid_dev option" and msg chip nsec
  assume "up_since handed time base t0 h" and f: "framed msg" and t: "timely nsec"
  then obtain d where d: "h = Some d" "take (length base) (handed (os d)) = base" "t0 \<le> time (os d)"
    by (auto simp: up_since_def)
  then have len: "length base \<le> length (handed (os d))" by (metis length_take min.cobounded1 min.commute)
  have "length msg < 256" using f by (simp add: framed_def)
  from send_ok [OF laws this t, of d] obtain r d' e where s: "send_message A msg (of_nat (length msg)) nsec d = Some (r, d')"
    "handed (os d') = handed (os d) @ [e]" "ho_msg e = msg" "time (os d) \<le> time (os d')"
    by (auto intro: order_trans)
  show "sent_since handed base (asid_emit A chip msg nsec h) = sent_since handed base h @ [msg]"
    using d s len by (simp add: asid_emit_def sent_since_def)
  show "up_since handed time base t0 (asid_emit A chip msg nsec h)"
    using d s len by (simp add: asid_emit_def up_since_def)
next
  show "timely 0" by (simp add: timely_def)
qed

section \<open>The device and the codec's contract\<close>

definition dev_inv ::
    "('v \<Rightarrow> handover list) \<Rightarrow> ('v \<Rightarrow> nat) \<Rightarrow> handover list \<Rightarrow> asid_spec \<Rightarrow> asid_statics \<times> 'v asid_dev \<Rightarrow> bool" where
  "dev_inv handed time base sp = (\<lambda>(s, d).
     asid_rel (asid s) (map ho_msg (drop (length base) (handed (os d)))) sp \<and>
     take (length base) (handed (os d)) = base \<and> length (last_irq s) = 2 \<and> length (start_clock s) = 2 \<and>
     (\<forall>t\<in>set (start_clock s). unat t \<le> time (os d)))"

text \<open>A codec operation on the device does what the contract says.\<close>

lemma on_codec_sim:
  assumes laws: "alsa_laws A clients handed time" and inv: "dev_inv handed time base sp (s, d)"
    and op: "case op of Set_Reg _ _ _ \<Rightarrow> True | Flush _ nsec \<Rightarrow> timely nsec"
  shows "\<exists>s' d'. on_codec (asid_do (asid_emit A) op) (s, d) = Some (s', d') \<and> dev_inv handed time base (sp_do op sp) (s', d')"
proof -
  note T = asid_emit_transport [OF laws, of base "time (os d)"]
  have "asid_transport.rel (sent_since handed base) (up_since handed time base (time (os d))) (asid s, Some d) sp"
    using inv by (simp add: asid_transport.rel_def [OF T] sent_since_def up_since_def dev_inv_def)
  moreover have "asid_transport.op_timely timely op" using op by (simp add: asid_transport.op_timely_def [OF T])
  ultimately obtain core h where r: "asid_do (asid_emit A) op (asid s, Some d) = Some (core, h)"
    "asid_transport.rel (sent_since handed base) (up_since handed time base (time (os d))) (core, h) (sp_do op sp)"
    using asid_transport.do_sim [OF T] by blast
  then obtain d' where d': "h = Some d'" "take (length base) (handed (os d')) = base" "time (os d) \<le> time (os d')"
    "asid_rel core (map ho_msg (drop (length base) (handed (os d')))) (sp_do op sp)"
    by (auto simp: asid_transport.rel_def [OF T] sent_since_def up_since_def)
  then have "dev_inv handed time base (sp_do op sp) (s\<lparr>asid := core\<rparr>, d')"
    using inv by (auto simp: dev_inv_def intro: order_trans)
  then show ?thesis using r(1) d'(1) by (auto simp: on_codec_def)
qed

section \<open>The interrupt's flush\<close>

lemma nanos_bounded:
  assumes "unat clock < 2 ^ 41" "500000 \<le> cps" "cps < 2 ^ 31"
  shows "\<exists>t. asid_clock_to_nanos clock (of_int cps) = Some t \<and> unat t < 2 ^ 53"
proof -
  have "(of_int cps :: u64) = of_nat (nat cps)" using assms(2) by simp
  moreover have "nat cps < 2 ^ 64" using assms(3) by simp
  ultimately have u: "unat (of_int cps :: u64) = nat cps"
    by (simp add: unat_of_nat take_bit_nat_eq_self del: of_nat_nat)
  then have r: "clock_rate (of_int cps) = nat cps" using assms(2) by (auto simp: clock_rate_def)
  define E where "E = real (unat clock) / real (nat cps) * 1000000000"
  define v where "v = fp_val (nanos clock (of_int cps))"
  have c: "real (unat clock) \<le> 2 ^ 41" using assms(1) real_powers(2) [of "unat clock" 41] by linarith
  have "real (unat clock) / real (nat cps) \<le> 2 ^ 41 / 500000"
    using assms(2) by (intro frac_le c) simp_all
  then have E: "E \<le> 2 ^ 41 / 500000 * 1000000000"
    unfolding E_def by (rule mult_right_mono) (rule zero_le_numeral)
  have "\<bar>v - E\<bar> \<le> E / 2 ^ 51"
    unfolding v_def E_def r [symmetric]
    by (rule nanos_error) (use assms r in simp_all)
  then have v: "v < 2 ^ 53" using E unfolding abs_le_iff by simp
  define t where "t = fp_trunc (nanos clock (of_int cps))"
  have "int t = \<lfloor>v\<rfloor>" unfolding t_def v_def by (rule fp_trunc_val) (simp add: nanos_def)
  then have "real t \<le> v" by linarith
  then have t: "t < 2 ^ 53" using v by (simp flip: real_powers)
  then have "asid_clock_to_nanos clock (of_int cps) = Some (of_nat t)"
    by (simp add: asid_clock_to_nanos_eq fp_to_u64_def t_def [symmetric])
  then show ?thesis using t by (simp add: unat_of_nat take_bit_nat_eq_self)
qed


lemma int_diff_small:
  "a < 2 ^ 53 \<Longrightarrow> b < 2 ^ 53 \<Longrightarrow> - (2 ^ 63) < int a - int b \<and> int a - int b < 2 ^ 53"
  by simp

lemma s64_sub_small:
  assumes "unat a < 2 ^ 53" "unat b < 2 ^ 53"
  shows "s64_sub a b = Some (int (unat a) - int (unat b))"
proof -
  have s: "sint w = int (unat w)" if "unat w < 2 ^ 53" for w :: u64
  proof -
    have "sint w = signed_take_bit 63 (int (unat w))"
      using sint_uint [of w] by simp
    moreover have "- (2 ^ 63) \<le> int m \<and> int m < 2 ^ 63" if "m < 2 ^ 53" for m using that by simp
    ultimately show ?thesis using that signed_take_bit_int_eq_self by metis
  qed
  have "int (unat a) - int (unat b) < 2 ^ 63" using int_diff_small [OF assms] by (auto elim: less_trans)
  then show ?thesis using int_diff_small [OF assms]
    unfolding s64_sub_def Let_def s [OF assms(1)] s [OF assms(2)] by (simp only: less_imp_le simp_thms if_True)
qed

text \<open>The delay of a flush is defined and can be scheduled; a late one is not delayed.\<close>

lemma flush_delay_ok:
  assumes laws: "alsa_laws A clients handed time" and start: "start \<le> now" and now: "unat now < 2 ^ 53"
  shows "\<exists>n d'. flush_delay A (irq_clk A v) now start d = Some (n, d') \<and> timely n \<and> (d' = d \<or> (\<exists>str. d' = dev_log A str d))"
proof -
  let ?clk = "irq_clk A v + 20000"
  have b: "unat (irq_clk A v) + 20000 < 2 ^ 41" by (rule alsa_lawsD(9) [OF laws])
  have "unat ?clk = unat (irq_clk A v) + 20000" using b by (subst unat_word_ariths) simp
  then have "unat ?clk < 2 ^ 41" using b by simp
  then obtain t where t: "asid_clock_to_nanos ?clk (of_int (machine_get_cycles_per_second A (os d))) = Some t" "unat t < 2 ^ 53"
    using nanos_bounded alsa_lawsD(10,11) [OF laws] by blast
  have "unat (now - start) = unat now - unat start" using start by (simp add: unat_sub)
  then have e: "unat (now - start) < 2 ^ 53" using now by simp
  define n where "n = int (unat t) - int (unat (now - start))"
  have n: "s64_sub t (now - start) = Some n" unfolding n_def by (rule s64_sub_small [OF t(2) e])
  have "- (2 ^ 63) < n" "n < 2 ^ 53" using int_diff_small [OF t(2) e] unfolding n_def by blast+
  moreover have "unat (of_int n :: u64) < 2 ^ 53" if "0 \<le> n" "n < 2 ^ 53"
  proof -
    have "(of_int n :: u64) = of_nat (nat n)" using that by simp
    then show ?thesis using that by (simp add: unat_of_nat take_bit_nat_eq_self del: of_nat_nat)
  qed
  ultimately show ?thesis
    by (simp add: flush_delay_def t(1) n timely_def) blast
qed


text \<open>The first delay of a session counts from the emulator's first cycle, not from the session's start:
  a device opened late sends everything late by the time the emulator had run before.\<close>

lemma first_flush_delay:
  assumes laws: "alsa_laws A clients handed time"
  shows "flush_delay A (irq_clk A v) now now d =
    map_option (\<lambda>t. (t, d)) (asid_clock_to_nanos (irq_clk A v + 20000) (of_int (machine_get_cycles_per_second A (os d))))"
proof -
  have b: "unat (irq_clk A v) + 20000 < 2 ^ 41" by (rule alsa_lawsD(9) [OF laws])
  then have "unat (irq_clk A v + 20000) < 2 ^ 41" by (subst unat_word_ariths) simp
  then obtain t where t: "asid_clock_to_nanos (irq_clk A v + 20000) (of_int (machine_get_cycles_per_second A (os d))) = Some t"
      "unat t < 2 ^ 53"
    using nanos_bounded alsa_lawsD(10,11) [OF laws] by blast
  have "s64_sub t (now - now) = Some (int (unat t))"
    using s64_sub_small [OF t(2), of 0] by simp
  then show ?thesis by (simp add: flush_delay_def t(1))
qed

definition is_flush :: "asid_op \<Rightarrow> bool" where
  "is_flush op = (case op of Set_Reg _ _ _ \<Rightarrow> False | Flush _ _ \<Rightarrow> True)"

lemma dev_inv_os:
  "dev_inv handed time base sp (s, d) \<Longrightarrow> handed v = handed (os d) \<Longrightarrow> time (os d) \<le> time v \<Longrightarrow>
     dev_inv handed time base sp (s, d\<lparr>os := v\<rparr>)"
  by (auto simp: dev_inv_def intro: order_trans)

lemma dev_inv_quiet:
  "dev_inv handed time base sp (s, d) \<Longrightarrow> quiet handed time f \<Longrightarrow>
     dev_inv handed time base sp (s, d\<lparr>os := f (os d)\<rparr>)"
  by (rule dev_inv_os) (simp_all add: quietD)

lemma dev_inv_clocks:
  assumes inv: "dev_inv handed time base sp (s, d)" and len: "length lasts = 2"
    and start: "unat start \<le> time (os d)"
  shows "dev_inv handed time base sp (s\<lparr>start_clock := (start_clock s)[i := start], last_irq := lasts\<rparr>, d)"
  using assms set_update_subset_insert [of "start_clock s" i start] by (auto simp: dev_inv_def)

text \<open>Reading the clock is exact.\<close>

lemma clock_now:
  assumes laws: "alsa_laws A clients handed time"
  shows "\<exists>ts v now. clock_gettime A u = (ts, v) \<and> get_clock ts = Some now \<and> unat now = time u \<and> unat now < 2 ^ 53 \<and>
    handed v = handed u \<and> time u \<le> time v"
proof -
  obtain ts v where u: "clock_gettime A u = (ts, v)" by (cases "clock_gettime A u")
  have ts: "ts = (time u div 1000000000, time u mod 1000000000)" and b: "time u < 2 ^ 53"
    using alsa_lawsD(7,8) [OF laws, of u] u by simp_all
  have "get_clock ts = Some (of_nat (time u))"
    using get_clock_exact [of "time u div 1000000000" "time u mod 1000000000"] b by (simp add: ts)
  moreover have "unat (of_nat (time u) :: u64) = time u" using b by (simp add: unat_of_nat take_bit_nat_eq_self)
  moreover have "handed v = handed u \<and> time u \<le> time v"
    using quietD [OF alsa_lawsD(6) [OF laws], of u] u by simp
  ultimately show ?thesis
    using u b by (intro exI [of _ ts] exI [of _ v] exI [of _ "of_nat (time u)"] conjI) simp_all
qed

lemma dev_inv_log:
  assumes "alsa_laws A clients handed time" "dev_inv handed time base sp (s, d)"
    and "d' = d \<or> (\<exists>str. d' = dev_log A str d)"
  shows "dev_inv handed time base sp (s, d')"
  using assms(3)
proof
  assume "\<exists>str. d' = dev_log A str d"
  then obtain str where "d' = dev_log A str d" ..
  then show ?thesis unfolding dev_log_def by (simp only: dev_inv_quiet [OF assms(2) alsa_lawsD(5) [OF assms(1)]])
qed (simp only: assms(2))

lemma irq_flush_sim:
  assumes laws: "alsa_laws A clients handed time" and inv: "dev_inv handed time base sp (s, d)" and chip: "chip < 2"
  shows "\<exists>fl s' d'. irq_flush A chip (s, d) = Some (s', d') \<and> list_all is_flush fl \<and>
    dev_inv handed time base (fold sp_do fl sp) (s', d')"
proof -
  have c: "unat chip < 2" using chip by (simp add: word_less_nat_alt)
  have len: "length (last_irq s) = 2" "length (start_clock s) = 2" using inv by (simp_all add: dev_inv_def)
  have last: "aget (last_irq s) (unat chip) = Some (last_irq s ! unat chip)" using c len by (simp add: aget_def)
  show ?thesis
  proof (cases "asid_should_flush_on_irq (irq_clk A (os d)) (last_irq s ! unat chip)")
    case False
    then have "irq_flush A chip (s, d) = Some (s, d)" by (simp add: irq_flush_def last)
    with inv show ?thesis by (intro exI [of _ "[]"]) simp
  next
    case True
    obtain ts v now where clock: "clock_gettime A (os d) = (ts, v)" "get_clock ts = Some now"
      "unat now = time (os d)" "unat now < 2 ^ 53" "handed v = handed (os d)" "time (os d) \<le> time v"
      using clock_now [OF laws] by blast
    let ?clk = "irq_clk A (os d)" and ?d = "d\<lparr>os := v\<rparr>"
    define start where "start = (if start_clock s ! unat chip = 0 then now else start_clock s ! unat chip)"
    have "start_clock s ! unat chip \<in> set (start_clock s)" using c len by simp
    then have st: "unat start \<le> unat now" using inv clock(3) by (auto simp: dev_inv_def start_def)
    define s1 where "s1 = s\<lparr>start_clock := (start_clock s)[unat chip := start],
        last_irq := (last_irq s)[unat chip := ?clk]\<rparr>"
    have inv1: "dev_inv handed time base sp (s1, ?d)"
      unfolding s1_def using st clock(3,6) len by (intro dev_inv_clocks dev_inv_os inv clock(5,6)) simp_all
    have "start \<le> now" using st by (simp add: word_le_nat_alt)
    then obtain n d' where fd: "flush_delay A ?clk now start ?d = Some (n, d')" "timely n"
      "d' = ?d \<or> (\<exists>str. d' = dev_log A str ?d)"
      using flush_delay_ok [OF laws, of start now "os d" ?d] clock(4) by blast
    note inv2 = dev_inv_log [OF laws inv1 fd(3)]
    obtain s' d'' where oc: "on_codec (asid_core_flush (asid_emit A) chip n) (s1, d') = Some (s', d'')"
      "dev_inv handed time base (sp_do (Flush chip n) sp) (s', d'')"
      using on_codec_sim [OF laws inv2, of "Flush chip n"] fd(2) unfolding asid_do_def asid_op.case by blast
    have "irq_flush A chip (s, d) = Some (s', d'')"
      using True c len oc(1) fd(1)
      by (simp add: irq_flush_def last clock Let_def start_def s1_def array_simps)
    with oc(2) show ?thesis by (intro exI [of _ "[Flush chip n]"]) (simp add: is_flush_def)
  qed
qed

section \<open>A session\<close>

text \<open>The register an address names.\<close>

lemma unat_reg: "unat (ucast (addr AND 0x1f) :: u8) = unat (addr AND 0x1f)" for addr :: u16
proof -
  have "(0x1f :: u16) = mask 5" by (simp add: mask_eq_exp_minus_1)
  then have "addr AND 0x1f = take_bit 5 addr" by (simp add: take_bit_eq_mask)
  then have "unat (addr AND 0x1f) = take_bit 5 (unat addr)" by (simp add: unsigned_take_bit_eq)
  moreover have "take_bit 5 (unat addr) < 2 ^ 5" by (rule take_bit_nat_less_exp)
  ultimately have "unat (addr AND 0x1f) < 2 ^ 8" by simp
  then show ?thesis by (simp add: unsigned_ucast_eq take_bit_nat_eq_self)
qed

lemma asid_dump2_sim:
  assumes laws: "alsa_laws A clients handed time" and inv: "dev_inv handed time base sp (s, d)"
  shows "\<exists>fl s' d'. asid_dump2 A chip addr byte (s, d) = Some (s', d') \<and> list_all is_flush fl \<and>
    dev_inv handed time base (fold sp_do (fl @ [Set_Reg chip (ucast (addr AND 0x1f)) byte]) sp) (s', d')"
proof (cases "chip < 2")
  case False
  then have "asid_dump2 A chip addr byte (s, d) = Some (s, d)" by (simp add: asid_dump2_def not_less)
  moreover have "sp_do (Set_Reg chip (ucast (addr AND 0x1f)) byte) sp = sp" using False by (simp add: sp_do_def)
  ultimately show ?thesis using inv by (intro exI [of _ "[]"]) simp
next
  case True
  let ?reg = "ucast (addr AND 0x1f) :: u8"
  obtain fl s1 d1 where fl: "irq_flush A chip (s, d) = Some (s1, d1)" "list_all is_flush fl"
    "dev_inv handed time base (fold sp_do fl sp) (s1, d1)"
    using irq_flush_sim [OF laws inv True] by blast
  have chip: "\<not> 2 \<le> chip" using True by simp
  show ?thesis
  proof (cases "24 < ?reg")
    case hi: True
    then have "\<not> ?reg < 25" by (simp add: word_less_nat_alt not_less)
    then have "sp_do (Set_Reg chip ?reg byte) (fold sp_do fl sp) = fold sp_do fl sp"
      by (simp only: sp_do_def asid_op.case simp_thms if_False)
    moreover have "asid_dump2 A chip addr byte (s, d) = Some (s1, d1)"
      using hi chip by (simp add: asid_dump2_def fl(1) Let_def)
    ultimately show ?thesis using fl(2,3) by (intro exI [of _ fl] exI [of _ s1] exI [of _ d1]) simp
  next
    case False
    obtain s2 d2 where s2: "on_codec (asid_core_set_reg (asid_emit A) chip ?reg byte) (s1, d1) = Some (s2, d2)"
      "dev_inv handed time base (sp_do (Set_Reg chip ?reg byte) (fold sp_do fl sp)) (s2, d2)"
      using on_codec_sim [OF laws fl(3), of "Set_Reg chip ?reg byte"] unfolding asid_do_def asid_op.case by blast
    then have "asid_dump2 A chip addr byte (s, d) = Some (s2, d2)"
      using False chip by (simp add: asid_dump2_def fl(1) Let_def)
    with s2(2) fl(2) show ?thesis by (intro exI [of _ fl] exI [of _ s2] exI [of _ d2]) simp
  qed
qed

text \<open>
  The emulator's SID writes. Before each one the rest of the emulator and the machine have run: the state
  of ALSA, the clocks and the emulator has changed in any way that hands nothing to the sequencer.
\<close>

type_synonym 'v sid_write = "('v \<Rightarrow> 'v) \<times> u8 \<times> u16 \<times> u8"

definition asid_session :: "('v, 'e) alsa \<Rightarrow> 'v sid_write list \<Rightarrow> asid_statics \<times> 'v asid_dev \<Rightarrow> (asid_statics \<times> 'v asid_dev) option" where
  "asid_session A = for_each (\<lambda>(f, chip, addr, byte) (s, d). asid_dump2 A chip addr byte (s, d\<lparr>os := f (os d)\<rparr>))"

definition sid_writes :: "nat \<Rightarrow> nat \<Rightarrow> 'v sid_write list \<Rightarrow> u8 list" where
  \<comment> \<open>what is written to register \<open>r\<close> of chip \<open>c\<close>, masked to its writable bits\<close>
  "sid_writes c r ws = concat (map (\<lambda>(f, chip, addr, byte).
     if unat chip = c \<and> unat (addr AND 0x1f) = r then [regmask ! r AND byte] else []) ws)"

lemma writes_append: "writes c r (xs @ ys) = writes c r xs @ writes c r ys"
  by (simp add: writes_def)

lemma writes_flushes: "list_all is_flush fl \<Longrightarrow> writes c r fl = []"
  by (induction fl) (auto simp: writes_def is_flush_def split: asid_op.splits)

lemma asid_session_sim:
  assumes laws: "alsa_laws A clients handed time"
  shows "dev_inv handed time base sp (s, d) \<Longrightarrow> \<forall>(f, w)\<in>set ws. quiet handed time f \<Longrightarrow>
    \<exists>ops s' d'. asid_session A ws (s, d) = Some (s', d') \<and> dev_inv handed time base (fold sp_do ops sp) (s', d') \<and>
      (\<forall>c r. writes c r ops = sid_writes c r ws)"
proof (induction ws arbitrary: sp s d)
  case Nil
  then show ?case by (intro exI [of _ "[]"]) (simp add: asid_session_def writes_def sid_writes_def)
next
  case (Cons w ws)
  obtain f chip addr byte where w: "w = (f, chip, addr, byte)" by (cases w)
  let ?set = "Set_Reg chip (ucast (addr AND 0x1f)) byte"
  have "quiet handed time f" using Cons.prems(2) by (simp add: w)
  from dev_inv_quiet [OF Cons.prems(1) this] have "dev_inv handed time base sp (s, d\<lparr>os := f (os d)\<rparr>)" .
  from asid_dump2_sim [OF laws this, of chip addr byte] obtain fl s1 d1 where
    s1: "asid_dump2 A chip addr byte (s, d\<lparr>os := f (os d)\<rparr>) = Some (s1, d1)" "list_all is_flush fl"
    "dev_inv handed time base (fold sp_do (fl @ [?set]) sp) (s1, d1)" by blast
  have "\<forall>(f, w)\<in>set ws. quiet handed time f" using Cons.prems(2) by simp
  from Cons.IH [OF s1(3) this] obtain ops s' d' where
    IH: "asid_session A ws (s1, d1) = Some (s', d')"
    "dev_inv handed time base (fold sp_do ops (fold sp_do (fl @ [?set]) sp)) (s', d')"
    "\<forall>c r. writes c r ops = sid_writes c r ws" by blast
  have "asid_session A (w # ws) (s, d) = Some (s', d')" using s1(1) IH(1) by (simp add: asid_session_def w)
  moreover have "writes c r ((fl @ [?set]) @ ops) = sid_writes c r (w # ws)" for c r
    using writes_flushes [OF s1(2)] IH(3) by (simp add: writes_append) (simp add: writes_def sid_writes_def w unat_reg)
  ultimately show ?case using IH(2) by (intro exI [of _ "(fl @ [?set]) @ ops"]) simp
qed


section \<open>Opening the device\<close>

definition started :: "handover list \<Rightarrow> bool" where
  \<comment> \<open>the last message handed over was the start message, and it was accepted\<close>
  "started evs \<longleftrightarrow> (\<exists>pre e. evs = pre @ [e] \<and> ho_taken e \<and> ho_msg e = asid_start_msg)"

lemma send_start:
  assumes "alsa_laws A clients handed time" and "send_message A asid_start_msg 4 0 d = Some (0, d')"
  shows "started (handed (os d'))" and "subscription d' = subscription d"
proof -
  have "length asid_start_msg = 4" by (simp add: asid_start_msg_def)
  with send_ok [OF assms(1), of asid_start_msg 0 d] assms(2)
  show "started (handed (os d'))" "subscription d' = subscription d"
    by (auto simp: timely_def started_def)
qed

lemma open_port_ok:
  assumes laws: "alsa_laws A clients handed time" and opened: "open_port A (int k) (s, d) = Some (0, s', d')"
  shows "k < length (midi_ports A (clients (os d)))"
    and "sub_dest (subscription d') = (port_client (midi_ports A (clients (os d)) ! k), port_number (midi_ports A (clients (os d)) ! k))"
    and "s' = s\<lparr>last_irq := replicate 2 0, start_clock := replicate 2 0\<rparr>"
    and "started (handed (os d'))"
  using opened send_start [OF laws] alsa_lawsD(12) [OF laws]
  by (auto simp: open_port_def get_port_info_nat [OF alsa_lawsD(12) [OF laws]] Let_def bind_eq_Some_conv
      split: if_splits prod.splits)

lemma os_dev_log [simp]: "os (dev_log A str d) = log_message A str (os d)" "vport (dev_log A str d) = vport d"
    "queue_id (dev_log A str d) = queue_id d"
  by (simp_all add: dev_log_def)

lemma log_ports_clients:
  assumes laws: "alsa_laws A clients handed time"
  shows "log_ports A n d = Some d' \<Longrightarrow>
    clients (os d') = clients (os d) \<and> handed (os d') = handed (os d) \<and> vport d' = vport d"
proof (induction n arbitrary: d')
  case (Suc n)
  from Suc.prems obtain d1 str where d1: "log_ports A n d = Some d1" "d' = dev_log A str d1"
    by (auto simp: log_ports_def for_each_append bind_eq_Some_conv)
  show ?case
    using Suc.IH [OF d1(1)] unfolding d1(2)
    by (simp add: alsa_lawsD(13) [OF laws] quietD(1) [OF alsa_lawsD(5) [OF laws]])
qed (simp add: log_ports_def)

text \<open>The listing never fails.\<close>

lemma get_port_name_list:
  assumes "lists A v cls"
  shows "\<exists>name. get_port_name A (int k) v = Some name"
  by (simp add: get_port_name_def get_port_info_nat [OF assms])

lemma log_ports_ok:
  assumes "alsa_laws A clients handed time"
  shows "\<exists>d'. log_ports A n d = Some d'"
proof (induction n)
  case (Suc n)
  then obtain d1 where "log_ports A n d = Some d1" by blast
  moreover obtain name where "get_port_name A (int n) (os d1) = Some name"
    using get_port_name_list [OF alsa_lawsD(12) [OF assms]] by blast
  ultimately show ?case by (simp add: log_ports_def for_each_append)
qed (simp add: log_ports_def)

text \<open>What an opened device is: the codec is freshly initialised and the session has just started.\<close>

definition opened ::
    "('v, 'e) alsa \<Rightarrow> ('v \<Rightarrow> client_list) \<Rightarrow> ('v \<Rightarrow> handover list) \<Rightarrow> string \<Rightarrow> 'v asid_dev \<Rightarrow> asid_statics \<times> 'v asid_dev \<Rightarrow> bool" where
  "opened A clients handed param d0 = (\<lambda>(s, d).
     let ports = midi_ports A (clients (os (snd (initialize_midi A d0)))); port = nat (atoi param AND 1023)
     in port < length ports \<and>
        sub_dest (subscription d) = (port_client (ports ! port), port_number (ports ! port)) \<and>
        asid s = asid_fresh (of_bool (atoi param AND 1024 \<noteq> 0)) \<and>
        last_irq s = [0, 0] \<and> start_clock s = [0, 0] \<and>
        started (handed (os d)))"

lemma asid_init_ok:
  assumes laws: "alsa_laws A clients handed time" and init: "asid_init A (Some param) (s0, d0) = Some (0, s, d)"
  shows "opened A clients handed param d0 (s, d)"
proof -
  define n where "n = atoi param AND 1023"
  have n: "int (nat n) = n" by (simp add: n_def)
  obtain d1 where d1: "initialize_midi A d0 = (0, d1)"
    using init by (cases "initialize_midi A d0") (auto simp: asid_init_def Let_def split: if_splits)
  obtain c where c: "get_port_count A (os d1) = Some c"
    using get_port_count_list [OF alsa_lawsD(12) [OF laws]] by blast
  obtain d2 where d2: "log_ports A (nat (sint c)) (dev_log A ''asid open, available ports'' d1) = Some d2"
    using log_ports_ok [OF laws] by blast
  define u where "u = (of_bool (atoi param AND 1024 \<noteq> 0) :: int)"
  define d3 where "d3 = (if u \<noteq> 0 then dev_log A ''Using asid register update messages'' d2 else d2)"
  obtain name where name: "get_port_name A n (os d3) = Some name"
    using get_port_name_list [OF alsa_lawsD(12) [OF laws], of "nat n", unfolded n] by blast
  define d4 where "d4 = dev_log A (''Using asid port: '' @ show_int n @ '' '' @ name) d3"
  have opn: "open_port A n (s0\<lparr>asid := asid_fresh u\<rparr>, d4) = Some (0, s, d)"
    using init name
    by (auto simp: asid_init_def d1 c d2 Let_def asid_core_init_fresh bind_eq_Some_conv n_def u_def d3_def d4_def
        split: if_splits)
  have d4: "clients (os d4) = clients (os d1)"
    using log_ports_clients [OF laws d2] by (simp add: d4_def d3_def alsa_lawsD(13) [OF laws])
  note o = open_port_ok [OF laws, of "nat n", unfolded n, OF opn]
  show ?thesis using o unfolding d4
    by (simp add: opened_def d1 n_def [symmetric] u_def eval_nat_numeral)
qed

lemma opened_inv:
  assumes "opened A clients handed param d0 (s, d)"
  shows "dev_inv handed time (handed (os d)) sp_init (s, d)"
  using assms asid_rel_fresh by (auto simp: opened_def dev_inv_def Let_def)

definition late_change :: "nat \<Rightarrow> nat \<Rightarrow> asid_core_t \<Rightarrow> u8 list" where
  \<comment> \<open>the change of a register the codec holds for the chip's next flush\<close>
  "late_change c r core =
     (let st = chips core ! c in if sid_modified st ! r then [sid_register st ! r] else [])"

lemma late_change_rel:
  "asid_rel core out sp \<Longrightarrow> c < 2 \<Longrightarrow> r < 25 \<Longrightarrow>
     late_change c r core = (if sp_dirty sp c r then [sp_file sp c r] else [])"
  by (simp add: late_change_def asid_rel_def chip_rel_def Let_def)

lemma asid_session_heard:
  assumes laws: "alsa_laws A clients handed time" and op: "opened A clients handed param d0 (s, d)"
    and env: "\<forall>(f, w)\<in>set ws. quiet handed time f" and c: "c < 2" and r: "r < 25"
  shows "\<exists>s' d' evs out. asid_session A ws (s, d) = Some (s', d') \<and>
    handed (os d') = handed (os d) @ evs \<and> map receive (map ho_msg evs) = map Some out \<and>
    (control_reg r \<longrightarrow> heard c r out @ late_change c r (asid s') = changes (sid_writes c r ws))"
proof -
  obtain ops s' d' where run: "asid_session A ws (s, d) = Some (s', d')"
    "dev_inv handed time (handed (os d)) (fold sp_do ops sp_init) (s', d')"
    "writes c r ops = sid_writes c r ws"
    using asid_session_sim [OF laws opened_inv [OF op, where time = time] env] by blast
  let ?sp = "fold sp_do ops sp_init"
  define evs where "evs = drop (length (handed (os d))) (handed (os d'))"
  have rel: "asid_rel (asid s') (map ho_msg evs) ?sp" and "handed (os d') = handed (os d) @ evs"
    using run(2) append_take_drop_id [of "length (handed (os d))" "handed (os d')"]
    by (simp_all add: dev_inv_def evs_def)
  moreover from rel have "map receive (map ho_msg evs) = map Some (sp_out ?sp)" by (simp add: asid_rel_def)
  moreover have "heard c r (sp_out ?sp) @ late_change c r (asid s') = changes (sid_writes c r ws)" if "control_reg r"
    using hist_inv_run [OF r c, of ops] that run(3) late_change_rel [OF rel c r]
    by (simp add: hist_inv_def pend_def)
  ultimately show ?thesis using run(1) by blast
qed

text \<open>C4: What the device makes of a session: from an opened device, with any sequence of SID writes and
  whatever the emulator, the clocks and the machine do between them, and whether or not ALSA accepts the
  messages, every write is handled and all that is handed to the sequencer can be read. For a control
  register what is handed over, in the order of the calls, is the sequence of the changes written to it,
  followed by the change the codec still holds for the next flush, if it holds one. A receiver reads them
  in that order when every message was accepted and none is due before one handed over earlier.\<close>

theorem asid_device_edges:
  assumes "alsa_laws A clients handed time" "asid_init A (Some param) (s0, d0) = Some (0, s, d)"
    and "\<forall>(f, w)\<in>set ws. quiet handed time f" "c < 2" "control_reg r"
  shows "\<exists>s' d' evs out. asid_session A ws (s, d) = Some (s', d') \<and>
    handed (os d') = handed (os d) @ evs \<and> map receive (map ho_msg evs) = map Some out \<and>
    heard c r out @ late_change c r (asid s') = changes (sid_writes c r ws) \<and>
    (list_all ho_taken evs \<and> sorted (map ho_due evs) \<longrightarrow> map receive (played evs) = map Some out)"
proof -
  have "r < 25" using assms(5) by (auto simp: control_reg_def)
  with asid_session_heard [OF assms(1) asid_init_ok [OF assms(1,2)] assms(3,4)] assms(5)
  obtain s' d' evs out where "asid_session A ws (s, d) = Some (s', d')" "handed (os d') = handed (os d) @ evs"
    "map receive (map ho_msg evs) = map Some out" "heard c r out @ late_change c r (asid s') = changes (sid_writes c r ws)"
    by blast
  then show ?thesis using played_in_order [of evs] by fastforce
qed

text \<open>C22: Opening: the sound argument's low ten bits name the MIDI port subscribed to, bit 10 selects the
  register update messages, the codec and the session's clocks are reset, and the start message is the
  last thing handed to the sequencer, which accepted it.\<close>

theorem asid_device_opens:
  assumes "alsa_laws A clients handed time" "asid_init A (Some param) (s0, d0) = Some (0, s, d)"
  shows "let ports = midi_ports A (clients (os (snd (initialize_midi A d0)))); port = nat (atoi param AND 1023)
     in port < length ports \<and>
        sub_dest (subscription d) = (port_client (ports ! port), port_number (ports ! port)) \<and>
        asid s = asid_fresh (of_bool (atoi param AND 1024 \<noteq> 0)) \<and>
        last_irq s = [0, 0] \<and> start_clock s = [0, 0] \<and>
        (\<exists>pre e. handed (os d) = pre @ [e] \<and> ho_taken e \<and> ho_msg e = asid_start_msg)"
  using asid_init_ok [OF assms] by (simp add: opened_def started_def)

text \<open>C40: Refused arguments: once the MIDI client is up, without an argument or with a port number that
  names no port, opening fails with -1: the codec and the interrupt clocks are as they were, the device
  has no port, and nothing is handed to the sequencer.\<close>

theorem asid_device_refuses:
  assumes "alsa_laws A clients handed time" "initialize_midi A d0 = (0, d1)"
    and "length (midi_ports A (clients (os d1))) < 2 ^ 31"
    and "param = None \<or> (\<exists>p. param = Some p \<and> length (midi_ports A (clients (os d1))) \<le> nat (atoi p AND 1023))"
  shows "\<exists>d. asid_init A param (s0, d0) = Some (- 1, s0, d) \<and> vport d = no_port \<and> handed (os d) = handed (os d1)"
proof -
  have log: "handed (os (dev_log A str d)) = handed (os d)" for str d
    using quietD(1) [OF alsa_lawsD(5) [OF assms(1)]] by simp
  have port: "vport d1 = no_port"
    using assms(2) by (auto simp: initialize_midi_def Let_def split: prod.splits if_splits)
  define n where "n = length (midi_ports A (clients (os d1)))"
  have c: "map_option sint (get_port_count A (os d1)) = Some (int n)"
    using assms(3) get_port_count_list [OF alsa_lawsD(12) [OF assms(1)], of "os d1"]
    by (simp add: n_def sint_uint unsigned_of_nat take_bit_nat_eq_self signed_take_bit_int_eq_self)
  obtain d2 where d2: "log_ports A n (dev_log A ''asid open, available ports'' d1) = Some d2"
    using log_ports_ok [OF assms(1)] by blast
  have "handed (os d2) = handed (os d1)" "vport d2 = no_port"
    using log_ports_clients [OF assms(1) d2] log port by simp_all
  then show ?thesis
    using assms(4) port unfolding n_def [symmetric]
    by (auto simp: asid_init_def assms(2) c d2 Let_def log simp del: os_dev_log(1))
qed

section \<open>Closing the device\<close>

text \<open>
  Removing a queue's output events, when all that is pending is on that queue, takes back what is not yet
  due, and nothing else. The calls after it take nothing back when everything handed over is already due.
\<close>

definition all_due :: "('v \<Rightarrow> handover list) \<Rightarrow> ('v \<Rightarrow> nat) \<Rightarrow> 'v \<Rightarrow> bool" where
  "all_due handed time v \<longleftrightarrow> (\<forall>e\<in>set (handed v). ho_due e \<le> time v)"

definition settled :: "('v \<Rightarrow> handover list) \<Rightarrow> ('v \<Rightarrow> nat) \<Rightarrow> ('v \<Rightarrow> 'v) \<Rightarrow> bool" where
  "settled handed time f \<longleftrightarrow>
     (\<forall>v. all_due handed time v \<longrightarrow> handed (f v) = handed v \<and> time v \<le> time (f v))"

definition teardown_laws :: "('v, 'e) alsa \<Rightarrow> ('v \<Rightarrow> handover list) \<Rightarrow> ('v \<Rightarrow> nat) \<Rightarrow> bool" where
  "teardown_laws A handed time \<longleftrightarrow>
     (\<forall>q v. (\<forall>e\<in>set (handed v). ho_due e \<le> time v \<or> ho_queue e = q) \<longrightarrow>
        (let w = snd_seq_remove_events A q v
         in \<exists>t. time v \<le> t \<and> t \<le> time w \<and> handed w = filter (\<lambda>e. ho_due e \<le> t) (handed v))) \<and>
     (\<forall>q. settled handed time (snd_seq_stop_queue A q)) \<and> (\<forall>q. settled handed time (snd_seq_free_queue A q)) \<and>
     (\<forall>sb. settled handed time (snd_seq_unsubscribe_port A sb)) \<and>
     (\<forall>p. settled handed time (snd_seq_delete_port A p)) \<and>
     settled handed time (snd_midi_event_free A) \<and> settled handed time (snd_seq_close A)"

lemma settledD:
  assumes "settled handed time f" "all_due handed time v"
  shows "all_due handed time (f v) \<and> handed (f v) = handed v \<and> time v \<le> time (f v)"
  using assms by (auto simp: settled_def all_due_def intro: order_trans)

lemma settled_comp:
  assumes "settled handed time f" "settled handed time g"
  shows "settled handed time (\<lambda>v. g (f v))"
  unfolding settled_def
proof (intro allI impI)
  fix v assume "all_due handed time v"
  from settledD [OF assms(1) this] settledD [OF assms(2), of "f v"]
  show "handed (g (f v)) = handed v \<and> time v \<le> time (g (f v))" by (auto intro: order_trans)
qed

lemma teardownD:
  assumes "teardown_laws A handed time"
  shows "settled handed time (snd_seq_stop_queue A q)" "settled handed time (snd_seq_free_queue A q)"
    "settled handed time (snd_seq_unsubscribe_port A sb)" "settled handed time (snd_seq_delete_port A p)"
    "settled handed time (snd_midi_event_free A)" "settled handed time (snd_seq_close A)"
  using assms unfolding teardown_laws_def by blast+

lemma remove_pending:
  assumes laws: "teardown_laws A handed time" and q: "\<forall>e\<in>set (handed v). ho_due e \<le> time v \<or> ho_queue e = q"
  obtains t where "handed (snd_seq_remove_events A q v) = filter (\<lambda>e. ho_due e \<le> t) (handed v)"
    "time v \<le> t" "t \<le> time (snd_seq_remove_events A q v)" "all_due handed time (snd_seq_remove_events A q v)"
proof -
  let ?w = "snd_seq_remove_events A q v"
  obtain t where t: "time v \<le> t" "t \<le> time ?w" "handed ?w = filter (\<lambda>e. ho_due e \<le> t) (handed v)"
    using laws [unfolded teardown_laws_def Let_def, THEN conjunct1] q by blast
  show ?thesis using t(2) by (intro that [OF t(3,1,2)]) (auto simp: all_due_def t(3))
qed

text \<open>The teardown of a device whose pending messages are all on its queue.\<close>

definition teardown :: "('v, 'e) alsa \<Rightarrow> 'v asid_dev \<Rightarrow> 'v" where
  "teardown A d =
     (let v = snd_seq_free_queue A (queue_id d) (snd_seq_stop_queue A (queue_id d) (snd_seq_remove_events A (queue_id d) (os d)));
          v = (if vport d \<noteq> no_port then snd_seq_delete_port A (vport d) (snd_seq_unsubscribe_port A (subscription d) v) else v)
      in snd_seq_close A (snd_midi_event_free A v))"

lemma teardown_ok:
  assumes laws: "teardown_laws A handed time"
    and q: "\<forall>e\<in>set (handed (os d)). ho_due e \<le> time (os d) \<or> ho_queue e = queue_id d"
  shows "\<exists>t. time (os d) \<le> t \<and> t \<le> time (teardown A d) \<and> handed (teardown A d) = filter (\<lambda>e. ho_due e \<le> t) (handed (os d))"
proof -
  obtain t where t: "handed (snd_seq_remove_events A (queue_id d) (os d)) = filter (\<lambda>e. ho_due e \<le> t) (handed (os d))"
    "time (os d) \<le> t" "t \<le> time (snd_seq_remove_events A (queue_id d) (os d))"
    "all_due handed time (snd_seq_remove_events A (queue_id d) (os d))"
    by (rule remove_pending [OF laws q])
  note D = teardownD [OF laws]
  have port: "settled handed time (\<lambda>v. if vport d \<noteq> no_port
      then snd_seq_delete_port A (vport d) (snd_seq_unsubscribe_port A (subscription d) v) else v)"
    using settled_comp [OF D(3) [of "subscription d"] D(4) [of "vport d"]] by (simp add: settled_def)
  note F = settled_comp [OF settled_comp [OF settled_comp [OF settled_comp
    [OF D(1) [of "queue_id d"] D(2) [of "queue_id d"]] port] D(5)] D(6)]
  from settledD [OF F t(4)] t(1-3) show ?thesis
    by (intro exI [of _ t]) (auto simp: teardown_def Let_def split: if_splits)
qed

lemma send_stop:
  assumes "alsa_laws A clients handed time"
  obtains r d' e where "send_message A asid_stop_msg 4 0 d = Some (r, d')" "handed (os d') = handed (os d) @ [e]"
    "ho_msg e = asid_stop_msg" "ho_queue e = queue_id d" "time (os d) \<le> ho_due e" "ho_due e \<le> time (os d')"
    "vport d' = vport d" "queue_id d' = queue_id d"
proof -
  have "length asid_stop_msg = 4" by (simp add: asid_stop_msg_def)
  with send_ok [OF assms, of asid_stop_msg 0 d] that show ?thesis by (fastforce simp: timely_def)
qed

text \<open>C23: Closing a device whose pending messages are on its own queue: what was due by then stays, what
  was still pending is taken back, and, if the device has a port, the stop message is handed over before
  that, due at once and so not taken back; afterwards the device has no port. A device without a port hands over
  nothing. Having a port is what the code takes for it, a port variable other than \<open>NO_PORT\<close>.\<close>

theorem asid_close_stops:
  assumes "alsa_laws A clients handed time" "teardown_laws A handed time"
    and "\<forall>e\<in>set (handed (os d)). ho_due e \<le> time (os d) \<or> ho_queue e = queue_id d"
  shows "\<exists>d' T. asid_close A (s, d) = Some (s, d') \<and> vport d' = no_port \<and> time (os d) \<le> T \<and> T \<le> time (os d') \<and>
    (let due = filter (\<lambda>e. ho_due e \<le> T) (handed (os d))
     in if vport d = no_port then handed (os d') = due
        else \<exists>e. handed (os d') = due @ [e] \<and> ho_msg e = asid_stop_msg \<and> time (os d) \<le> ho_due e \<and> ho_due e \<le> T)"
proof -
  define d1 where "d1 = dev_log A (show_nat (unat (bytes_total d)) @ '' asid bytes sent, '' @
           show_nat (unat (bytes_saved (asid s))) @ '' bytes saved'') d"
  have d1: "handed (os d1) = handed (os d)" "time (os d) \<le> time (os d1)" "vport d1 = vport d" "queue_id d1 = queue_id d"
    using quietD [OF alsa_lawsD(5) [OF assms(1)]] by (simp_all add: d1_def)
  have close: "\<exists>d'. asid_close A (s, d) = Some (s, d') \<and> os d' = teardown A d2 \<and> vport d' = no_port"
    if "(if vport d1 \<noteq> no_port then map_option snd (send_message A asid_stop_msg 4 0 d1) else Some d1) = Some d2" for d2
    using that unfolding asid_close_def close_port_def Let_def prod.case d1_def [symmetric]
    by (simp add: teardown_def Let_def)
  show ?thesis
  proof (cases "vport d = no_port")
    case True
    have "\<forall>e\<in>set (handed (os d1)). ho_due e \<le> time (os d1) \<or> ho_queue e = queue_id d1"
      using assms(3) d1 by (auto intro: order_trans)
    then obtain t where "time (os d1) \<le> t" "t \<le> time (teardown A d1)"
        "handed (teardown A d1) = filter (\<lambda>e. ho_due e \<le> t) (handed (os d1))"
      using teardown_ok [OF assms(2), of d1] by blast
    moreover obtain d' where "asid_close A (s, d) = Some (s, d')" "os d' = teardown A d1" "vport d' = no_port"
      using close [of d1] True d1(3) by auto
    ultimately show ?thesis using True d1(1,2) by (intro exI [of _ d'] exI [of _ t]) simp
  next
    case False
    obtain r d2 e where d2: "send_message A asid_stop_msg 4 0 d1 = Some (r, d2)" "handed (os d2) = handed (os d1) @ [e]"
      "ho_msg e = asid_stop_msg" "ho_queue e = queue_id d1" "time (os d1) \<le> ho_due e" "ho_due e \<le> time (os d2)"
      "vport d2 = vport d1" "queue_id d2 = queue_id d1"
      by (rule send_stop [OF assms(1)])
    have le: "time (os d) \<le> time (os d2)" using d1(2) d2(5,6) by simp
    then have "\<forall>e\<in>set (handed (os d2)). ho_due e \<le> time (os d2) \<or> ho_queue e = queue_id d2"
      using assms(3) d1 d2 by (auto intro: order_trans)
    then obtain t where t: "time (os d2) \<le> t" "t \<le> time (teardown A d2)"
        "handed (teardown A d2) = filter (\<lambda>e. ho_due e \<le> t) (handed (os d2))"
      using teardown_ok [OF assms(2), of d2] by blast
    have "ho_due e \<le> t" "time (os d) \<le> ho_due e" "time (os d) \<le> t" using t(1) d1(2) d2(5,6) by simp_all
    moreover obtain d' where "asid_close A (s, d) = Some (s, d')" "os d' = teardown A d2" "vport d' = no_port"
      using close [of d2] False d1(3) d2(1) by auto
    ultimately show ?thesis using False d1(1) d2(2,3) t(2,3) by (intro exI [of _ d'] exI [of _ t]) (simp add: Let_def)
  qed
qed

section \<open>A sequencer that keeps the laws\<close>

text \<open>
  One client besides the system's, with one MIDI port, and a clock that stands still; the state is the
  messages handed over, the emulator's cycle count and whether output is refused.
\<close>

type_synonym mock_v = "handover list \<times> u32 \<times> bool"

abbreviation mock_time :: "mock_v \<Rightarrow> nat" where
  "mock_time \<equiv> \<lambda>_. 5000000000"

definition mock_output :: "u8 list alsa_event \<Rightarrow> mock_v \<Rightarrow> int \<times> mock_v" where
  "mock_output ev = (\<lambda>(evs, c, full).
     (if full then - 11 else 0,
      evs @ [\<lparr>ho_taken = \<not> full, ho_queue = ev_queue ev, ho_due = 5000000000 + event_delay (ev_time ev), ho_msg = ev_data ev\<rparr>],
      c, full))"

definition mock_remove :: "int \<Rightarrow> mock_v \<Rightarrow> mock_v" where
  "mock_remove q = (\<lambda>(evs, rest). (filter (\<lambda>e. ho_queue e = q \<longrightarrow> ho_due e \<le> 5000000000) evs, rest))"

definition mock_port :: alsa_port where
  "mock_port = \<lparr>port_client = 20, port_number = 3, port_type = 2, port_capability = 66\<rparr>"

definition mock_clients :: client_list where
  "mock_clients = [(0, [mock_port\<lparr>port_client := 0, port_number := 0\<rparr>]), (20, [mock_port])]"

definition mock_alsa :: "(mock_v, u8 list) alsa" where
  "mock_alsa = \<lparr>SND_SEQ_PORT_CAP_READ = 1, SND_SEQ_PORT_CAP_WRITE = 2, SND_SEQ_PORT_CAP_SUBS_READ = 32,
     SND_SEQ_PORT_CAP_SUBS_WRITE = 64, SND_SEQ_PORT_TYPE_MIDI_GENERIC = 2,
     snd_seq_open = Pair 0, snd_seq_set_client_name = (\<lambda>_ v. v), snd_midi_event_new = (\<lambda>_. Pair 0),
     snd_midi_event_init = (\<lambda>v. v), snd_midi_event_free = (\<lambda>v. v), snd_seq_set_client_pool_output = (\<lambda>_ v. v),
     snd_seq_query_next_client = (\<lambda>c _. map_option fst (find (\<lambda>(c', _). c < c') mock_clients)),
     snd_seq_query_next_port = (\<lambda>c q _. case map_of mock_clients c of None \<Rightarrow> None | Some ps \<Rightarrow> find (\<lambda>p. q < port_number p) ps),
     snd_seq_client_info_get_name = (\<lambda>_ _. ''synth''), snd_seq_client_id = (\<lambda>_. 128),
     snd_seq_create_simple_port = (\<lambda>_ _ _. Pair 0), snd_seq_delete_port = (\<lambda>_ v. v),
     snd_seq_subscribe_port = (\<lambda>_. Pair 0), snd_seq_unsubscribe_port = (\<lambda>_ v. v),
     snd_seq_alloc_queue = Pair 0, snd_seq_start_queue = (\<lambda>_ v. v), snd_seq_stop_queue = (\<lambda>_ v. v),
     snd_seq_free_queue = (\<lambda>_ v. v), snd_seq_remove_events = mock_remove,
     snd_midi_event_encode = (\<lambda>msg v. (int (length msg), msg, v)),
     snd_seq_event_output_direct = mock_output, snd_seq_drain_output = (\<lambda>v. v),
     snd_seq_close = (\<lambda>v. v), log_message = (\<lambda>_ v. v), clock_gettime = Pair (5, 0),
     irq_clk = (\<lambda>(evs, c, full). ucast c), machine_get_cycles_per_second = (\<lambda>_. 985248)\<rparr>"

lemma mock_lists: "lists mock_alsa v mock_clients"
  by (simp add: lists_def port_list_def mock_alsa_def mock_clients_def mock_port_def case_prod_unfold)

lemma mock_alsa_laws: "alsa_laws mock_alsa (\<lambda>_. mock_clients) fst mock_time"
proof -
  have "unat (ucast c :: u64) + 20000 < 2 ^ 41" for c :: u32
  proof -
    have u: "unat c < 2 ^ 32" using unsigned_less [of c, where 'a = nat] by simp
    moreover from this have "unat c < 2 ^ 64" by simp
    then have "unat (ucast c :: u64) = unat c" by (simp add: unsigned_ucast_eq take_bit_nat_eq_self)
    ultimately show ?thesis by simp
  qed
  moreover note mock_lists
  ultimately show ?thesis unfolding alsa_laws_def
    by (intro conjI allI) (simp_all add: quiet_def outputs_def, simp_all add: mock_alsa_def mock_output_def case_prod_unfold)
qed

interpretation device: asid_transport "asid_emit mock_alsa" "sent_since fst []" "up_since fst mock_time [] 0" timely
  by (rule asid_emit_transport [OF mock_alsa_laws])

definition mock_statics :: asid_statics where
  "mock_statics = \<lparr>asid = asid_fresh 0, last_irq = [0, 0], start_clock = [0, 0]\<rparr>"

definition mock_dev :: "mock_v asid_dev" where
  "mock_dev = \<lparr>vport = 0, queue_id = 0, subscription = \<lparr>sub_sender = (0, 0), sub_dest = (0, 0)\<rparr>,
     bytes_total = 0, os = ([], 0, False)\<rparr>"

lemma mock_stepping: "stepping mock_alsa v 256"
proof -
  have "c < c' \<and> c' < 256" if "map_option fst (find (\<lambda>(c', _). c < c') mock_clients) = Some c'" for c c'
    using that by (auto simp: mock_clients_def split: if_splits)
  moreover have "q < port_number p \<and> port_number p < 256"
    if "(case map_of mock_clients c of None \<Rightarrow> None | Some ps \<Rightarrow> find (\<lambda>p. q < port_number p) ps) = Some p" for c q p
    using that by (auto simp: mock_clients_def mock_port_def split: if_splits option.splits)
  ultimately show ?thesis by (auto simp: stepping_def mock_alsa_def)
qed

lemma asid_init_returns_witness:
  "\<exists>r s d. asid_init mock_alsa (Some ''7'') (mock_statics, mock_dev) = Some (r, s, d) \<and> (r = 0 \<or> r = - 1)"
  by (rule asid_init_returns [OF mock_stepping])

lemma mock_ports: "midi_ports mock_alsa mock_clients = [mock_port]"
  by (simp add: midi_ports_def mock_clients_def mock_port_def mock_alsa_def usable_port_def Let_def)

lemma mock_log [simp]: "dev_log mock_alsa str d = d"
  by (simp add: dev_log_def mock_alsa_def)

lemma mock_logs: "log_ports mock_alsa n d = Some d"
proof -
  have "log_ports mock_alsa n d = Some d' \<Longrightarrow> d' = d" for n d'
    by (induction n arbitrary: d') (auto simp: log_ports_def for_each_append bind_eq_Some_conv)
  with log_ports_ok [OF mock_alsa_laws, of n d] show ?thesis by auto
qed

lemma mock_initialize: "initialize_midi mock_alsa mock_dev = (0, mock_dev\<lparr>vport := no_port\<rparr>)"
  by (simp add: initialize_midi_def mock_alsa_def mock_dev_def Let_def)

lemma mock_lookup:
  "get_port_count mock_alsa v = Some 1" "get_port_info mock_alsa 0 v = Some (1, Some mock_port)"
  "\<exists>name. get_port_name mock_alsa 0 v = Some name"
  using get_port_count_list [OF alsa_lawsD(12) [OF mock_alsa_laws], of v]
    get_port_info_nat [OF alsa_lawsD(12) [OF mock_alsa_laws], of 0 v]
    get_port_name_list [OF alsa_lawsD(12) [OF mock_alsa_laws], of 0 v]
  by (simp_all add: mock_ports)

definition mock_send :: "u8 list \<Rightarrow> mock_v asid_dev \<Rightarrow> mock_v asid_dev" where
  \<comment> \<open>a message of four bytes, due at once\<close>
  "mock_send msg d =
     d\<lparr>os := (fst (os d) @ [\<lparr>ho_taken = True, ho_queue = queue_id d, ho_due = 5000000000, ho_msg = msg\<rparr>], snd (os d)),
       bytes_total := bytes_total d + 4\<rparr>"

lemma mock_send_ok:
  assumes "length msg = 4" "\<not> snd (snd (os d))"
  shows "send_message mock_alsa msg 4 0 d = Some (0, mock_send msg d)"
proof -
  have "schedule_time 0 = Some (0, 0)" using schedule_time_split [of 0] by simp
  with assms show ?thesis
    by (simp add: send_message_def mock_alsa_def mock_output_def event_delay_def mock_send_def case_prod_unfold Let_def)
qed

lemma mock_open:
  assumes "\<not> snd (snd (os d))"
  shows "\<exists>s' d'. open_port mock_alsa 0 (s, d) = Some (0, s', d')"
proof -
  have f: "snd_seq_create_simple_port mock_alsa nm x y v = (0, v)" "snd_seq_subscribe_port mock_alsa sb v = (0, v)"
    "snd_seq_alloc_queue mock_alsa v = (0, v)" "snd_seq_start_queue mock_alsa q v = v" for nm x y sb q v
    by (simp_all add: mock_alsa_def)
  have "length asid_start_msg = 4" by (simp add: asid_start_msg_def)
  then show ?thesis using assms by (simp add: open_port_def mock_lookup f Let_def mock_send_ok)
qed

lemma atoi_1024: "atoi ''1024'' = 1024"
  by (simp add: atoi_def char_eval signed_take_bit_int_eq_self)

lemma mock_init: "\<exists>s d. asid_init mock_alsa (Some ''1024'') (mock_statics, mock_dev) = Some (0, s, d)"
proof -
  have "\<not> snd (snd (os (mock_dev\<lparr>vport := no_port\<rparr>)))" by (simp add: mock_dev_def)
  from mock_open [OF this, of "mock_statics\<lparr>asid := asid_fresh 1\<rparr>"] mock_lookup(3) [of "os mock_dev"]
  show ?thesis
    by (auto simp: atoi_1024 asid_init_def mock_initialize mock_lookup(1) mock_logs Let_def asid_core_init_fresh)
qed

lemma asid_device_edges_witness:
  "\<exists>s d s' d' evs out. asid_init mock_alsa (Some ''1024'') (mock_statics, mock_dev) = Some (0, s, d) \<and>
     asid_session mock_alsa [(\<lambda>(evs, c, full). (evs, c + 300, full), 0, 0xd404, 0x11), (\<lambda>(evs, c, full). (evs, c, True), 0, 0xd404, 0x10),
       (\<lambda>(evs, c, full). (evs, c + 300, full), 0, 0xd400, 7)] (s, d) = Some (s', d') \<and>
     fst (os d') = fst (os d) @ evs \<and> map receive (map ho_msg evs) = map Some out \<and>
     heard 0 4 out @ late_change 0 4 (asid s') = [0x11, 0x10] \<and>
     (list_all ho_taken evs \<and> sorted (map ho_due evs) \<longrightarrow> map receive (played evs) = map Some out)"
proof -
  let ?ws = "[(\<lambda>(evs, c, full). (evs, c + 300, full), 0, 0xd404, 0x11), (\<lambda>(evs, c, full). (evs, c, True), 0, 0xd404, 0x10),
       (\<lambda>(evs, c, full). (evs, c + 300, full), 0, 0xd400, 7)] :: mock_v sid_write list"
  obtain s d where i: "asid_init mock_alsa (Some ''1024'') (mock_statics, mock_dev) = Some (0, s, d)"
    using mock_init by blast
  have q: "\<forall>(f, w)\<in>set ?ws. quiet fst mock_time f" by (auto simp: quiet_def)
  have "changes (sid_writes 0 4 ?ws) = [0x11, 0x10]" by (simp add: sid_writes_def changes_def regmask_def)
  with asid_device_edges [OF mock_alsa_laws i q, of 0 4] i show ?thesis by (auto simp: control_reg_def)
qed

lemma asid_device_opens_witness:
  "\<exists>s d pre e. asid_init mock_alsa (Some ''1024'') (mock_statics, mock_dev) = Some (0, s, d) \<and>
     sub_dest (subscription d) = (20, 3) \<and> use_update_reg (asid s) \<and>
     fst (os d) = pre @ [e] \<and> ho_taken e \<and> ho_msg e = asid_start_msg"
proof -
  obtain s d where i: "asid_init mock_alsa (Some ''1024'') (mock_statics, mock_dev) = Some (0, s, d)"
    using mock_init by blast
  from asid_device_opens [OF mock_alsa_laws i] i show ?thesis
    by (simp add: mock_ports mock_port_def Let_def atoi_1024 asid_fresh_def)
qed

lemma asid_device_refuses_witness:
  "\<exists>d. asid_init mock_alsa None (mock_statics, mock_dev) = Some (- 1, mock_statics, d) \<and> vport d = no_port \<and> fst (os d) = []"
  using asid_device_refuses [OF mock_alsa_laws mock_initialize, of None mock_statics]
  by (simp add: mock_ports mock_dev_def)

text \<open>A flush still pending when the device is closed.\<close>

definition mock_pending :: handover where
  "mock_pending = \<lparr>ho_taken = True, ho_queue = 0, ho_due = 5020000000, ho_msg = [0xf0, 0x2d, 0x4e, 0xf7]\<rparr>"

lemma asid_close_stops_witness:
  "\<exists>d' e. asid_close mock_alsa (mock_statics, mock_dev\<lparr>os := ([mock_pending], 0, False)\<rparr>) = Some (mock_statics, d') \<and>
     vport d' = no_port \<and> fst (os d') = [e] \<and> ho_msg e = asid_stop_msg"
proof -
  have "teardown_laws mock_alsa fst mock_time"
    by (auto simp: teardown_laws_def settled_def mock_alsa_def mock_remove_def intro!: exI [of _ 5000000000] filter_cong)
  from asid_close_stops [OF mock_alsa_laws this, of "mock_dev\<lparr>os := ([mock_pending], 0, False)\<rparr>" mock_statics] show ?thesis
    by (auto simp: mock_dev_def no_port_def mock_pending_def Let_def)
qed

end
