(* ===== verification/Video.thy ===== *)
theory Video
  imports Prelude
begin

text \<open>
  The VIDEO_RECORD (0x79) core of \<open>libs/video/src/video_core.c\<close>: body validation, the guard
  against a second recording, and the save and restore of the warp mode around a recording. The
  host operations of \<open>video_host_t\<close> are functions on a host state; the outer \<open>None\<close> is an
  access outside an array.
\<close>

section \<open>State and operations\<close>

record 'h video_host_t =
  start_recording :: "u8 list \<Rightarrow> 'h \<Rightarrow> int \<times> 'h"
  stop_recording :: "'h \<Rightarrow> 'h"
  is_recording :: "'h \<Rightarrow> int"
  get_warp :: "'h \<Rightarrow> int"
  set_warp :: "int \<Rightarrow> 'h \<Rightarrow> 'h"

datatype video_result = VIDEO_OK | VIDEO_ERR_LENGTH | VIDEO_ERR_FAILURE

record 'h video_core_t =
  v_host :: "'h video_host_t"
  v_saved_warp :: int
  v_warp_was_saved :: bool

definition video_core_init :: "'h video_host_t \<Rightarrow> 'h video_core_t" where
  "video_core_init host = \<lparr>v_host = host, v_saved_warp = 0, v_warp_was_saved = False\<rparr>"

abbreviation (input) VIDEO_ACTION_STOP :: u8 where "VIDEO_ACTION_STOP \<equiv> 0"
abbreviation (input) VIDEO_MAX_PATH :: nat where "VIDEO_MAX_PATH \<equiv> 256"

definition video_path :: "u8 list \<Rightarrow> u8 \<Rightarrow> u8 list option" where
  \<comment> \<open>\<open>memcpy\<close> into \<open>path[VIDEO_MAX_PATH]\<close> and its terminator\<close>
  "video_path body path_len = do {
     p \<leftarrow> aslice body 2 (unat path_len);
     path \<leftarrow> aput (replicate VIDEO_MAX_PATH 0) 0 p;
     path \<leftarrow> aset path (unat path_len) 0;
     Some (cstr path)
   }"

definition video_stop :: "'h video_core_t \<Rightarrow> 'h \<Rightarrow> video_result \<times> 'h video_core_t \<times> 'h" where
  "video_stop v h =
     (let h = stop_recording (v_host v) h
      in if v_warp_was_saved v
         then (VIDEO_OK, v\<lparr>v_warp_was_saved := False\<rparr>, set_warp (v_host v) (v_saved_warp v) h)
         else (VIDEO_OK, v, h))"

definition video_start ::
    "'h video_core_t \<Rightarrow> u8 list \<Rightarrow> 'h \<Rightarrow> video_result \<times> 'h video_core_t \<times> 'h" where
  "video_start v path h =
     (if is_recording (v_host v) h \<noteq> 0 then (VIDEO_ERR_FAILURE, v, h)
      else
        let v = v\<lparr>v_saved_warp := get_warp (v_host v) h, v_warp_was_saved := True\<rparr>;
            h = set_warp (v_host v) 0 h;
            (r, h) = start_recording (v_host v) path h
        in if r < 0
           then (VIDEO_ERR_FAILURE, v\<lparr>v_warp_was_saved := False\<rparr>,
                 set_warp (v_host v) (v_saved_warp v) h)
           else (VIDEO_OK, v, h))"

definition video_core_binmon_record ::
    "'h video_core_t \<Rightarrow> u8 list \<Rightarrow> u32 \<Rightarrow> 'h \<Rightarrow> (video_result \<times> 'h video_core_t \<times> 'h) option" where
  "video_core_binmon_record v body len h =
     (if len < 1 then Some (VIDEO_ERR_LENGTH, v, h)
      else do {
        action \<leftarrow> aget body 0;
        if action = VIDEO_ACTION_STOP then Some (video_stop v h)
        else if len < 2 then Some (VIDEO_ERR_LENGTH, v, h)
        else do {
          path_len \<leftarrow> aget body 1;
          if path_len = 0 \<or> len < 2 + ucast path_len then Some (VIDEO_ERR_LENGTH, v, h)
          else do {
            path \<leftarrow> video_path body path_len;
            Some (video_start v path h)
          }
        }
      })"

section \<open>Requests\<close>

text \<open>What a body asks for, independently of any array.\<close>

datatype video_request = Bad | Stop | Start "u8 list"

definition video_request :: "u8 list \<Rightarrow> video_request" where
  "video_request b =
     (if b = [] then Bad
      else if b ! 0 = 0 then Stop
      else if length b < 2 \<or> b ! 1 = 0 \<or> length b < 2 + unat (b ! 1) then Bad
      else Start (cstr (take (unat (b ! 1)) (drop 2 b))))"

fun video_do :: "video_request \<Rightarrow> 'h video_core_t \<times> 'h \<Rightarrow> video_result \<times> 'h video_core_t \<times> 'h" where
  "video_do Bad (v, h) = (VIDEO_ERR_LENGTH, v, h)"
| "video_do Stop (v, h) = video_stop v h"
| "video_do (Start p) (v, h) = video_start v p h"

lemma unat_add_u8: "unat (2 + ucast (n :: u8) :: u32) = 2 + unat n"
  using u8_less [of n] by (simp add: unat_word_ariths)

lemma video_path_eq:
  assumes "2 + unat n \<le> length b"
  shows "video_path b n = Some (cstr (take (unat n) (drop 2 b)))"
proof -
  define p where "p = take (unat n) (drop 2 b)"
  have p: "aslice b 2 (unat n) = Some p" "length p = unat n"
    using assms by (simp_all add: p_def aslice_Some)
  obtain k where k: "256 - unat n = Suc k"
    using u8_less [of n] by (metis Suc_diff_Suc)
  have "p @ replicate (256 - unat n) 0 = p @ 0 # replicate k 0"
    by (simp add: k)
  then show ?thesis
    using p u8_less [of n]
    by (simp add: video_path_def array_simps list_update_append cstr_append_zero flip: p_def)
qed

lemma video_core_eq:
  assumes "length b < 2 ^ 32"
  shows "video_core_binmon_record v b (of_nat (length b)) h = Some (video_do (video_request b) (v, h))"
proof -
  have l: "unat (of_nat (length b) :: u32) = length b"
    using assms by (simp add: unat_of_nat)
  have "(of_nat (length b) :: u32) = 0 \<longleftrightarrow> length b = 0"
    by (simp only: l flip: unat_eq_0)
  then have z: "(of_nat (length b) :: u32) = 0 \<longleftrightarrow> b = []" by simp
  have c: "(of_nat (length b) :: u32) < 2 \<longleftrightarrow> length b < 2"
    "(of_nat (length b) :: u32) < 2 + ucast n \<longleftrightarrow> length b < 2 + unat n" for n :: u8
    by (simp_all only: word_less_nat_alt l unat_add_u8) simp
  have g: "b \<noteq> [] \<Longrightarrow> aget b 0 = Some (b ! 0)" "\<not> length b < 2 \<Longrightarrow> aget b (Suc 0) = Some (b ! 1)"
    by (simp_all add: aget_def)
  show ?thesis
    by (auto simp: video_core_binmon_record_def z c g video_request_def video_path_eq not_less)
qed

section \<open>The recorder interface\<close>

text \<open>
  What \<open>video_host_t\<close> promises about the emulator: \<open>warp\<close> and \<open>recording\<close> are the warp mode
  and the recorder's state, \<open>set_warp\<close> only changes the warp mode, and starting and stopping
  only changes the recorder; a refused start changes neither.
\<close>

locale video_recorder =
  fixes H :: "'h video_host_t" and warp :: "'h \<Rightarrow> int" and recording :: "'h \<Rightarrow> bool"
  assumes get_warp: "get_warp H h = warp h"
    and is_recording: "is_recording H h \<noteq> 0 \<longleftrightarrow> recording h"
    and warp_set: "warp (set_warp H w h) = w"
    and recording_set: "recording (set_warp H w h) = recording h"
    and warp_start: "warp (snd (start_recording H p h)) = warp h"
    and recording_start: "recording (snd (start_recording H p h))
          = (recording h \<or> 0 \<le> fst (start_recording H p h))"
    and warp_stop: "warp (stop_recording H h) = warp h"
    and recording_stop: "\<not> recording (stop_recording H h)"
begin

lemmas recorder_laws = get_warp is_recording warp_set recording_set warp_start recording_start
  warp_stop recording_stop

text \<open>Between requests: either nothing is recorded and the warp mode is the user's, or a
  recording is under way with warp off and the user's mode saved.\<close>

definition inv :: "int \<Rightarrow> 'h video_core_t \<Rightarrow> 'h \<Rightarrow> bool" where
  "inv w v h \<longleftrightarrow> v_host v = H \<and>
     (if recording h then warp h = 0 \<and> v_warp_was_saved v \<and> v_saved_warp v = w
      else warp h = w \<and> \<not> v_warp_was_saved v)"

lemma inv_init: "\<not> recording h \<Longrightarrow> inv (warp h) (video_core_init H) h"
  by (simp add: inv_def video_core_init_def)

lemma inv_host: "inv w v h \<Longrightarrow> v_host v = H"
  by (simp add: inv_def)

lemma inv_stop:
  assumes "inv w v h" "video_stop v h = (r, v', h')"
  shows "inv w v' h' \<and> \<not> recording h'"
proof -
  have "v' = v\<lparr>v_warp_was_saved := False\<rparr> \<and>
      h' = (if v_warp_was_saved v then set_warp H (v_saved_warp v) (stop_recording H h)
            else stop_recording H h)"
    using assms(2) unfolding video_stop_def inv_host [OF assms(1)]
    by (simp add: Let_def split: if_splits)
  with assms(1) show ?thesis by (simp add: inv_def recorder_laws split: if_splits)
qed

lemma inv_start:
  assumes "inv w v h" "video_start v p h = (r, v', h')"
  shows "inv w v' h'"
proof (cases "recording h")
  case True
  then have "is_recording H h \<noteq> 0" by (simp add: is_recording)
  then have "v' = v \<and> h' = h"
    using assms(2) unfolding video_start_def inv_host [OF assms(1)] by simp
  with assms(1) show ?thesis by simp
next
  case False
  then have n: "is_recording H h = 0" using is_recording by metis
  obtain k h1 where s: "start_recording H p (set_warp H 0 h) = (k, h1)" by fastforce
  have h1: "warp h1 = 0" "recording h1 \<longleftrightarrow> 0 \<le> k"
    using warp_start [of p "set_warp H 0 h"] recording_start [of p "set_warp H 0 h"] False
    by (simp_all add: s warp_set recording_set)
  have "v' = v\<lparr>v_saved_warp := warp h, v_warp_was_saved := \<not> k < 0\<rparr> \<and>
      h' = (if k < 0 then set_warp H (warp h) h1 else h1)"
    using assms(2)
    by (auto simp: video_start_def inv_host [OF assms(1)] n s Let_def get_warp split: if_splits)
  with assms(1) h1 False show ?thesis by (simp add: inv_def recorder_laws)
qed

lemma inv_do: "inv w v h \<Longrightarrow> video_do q (v, h) = (r, v', h') \<Longrightarrow> inv w v' h'"
  by (cases q) (auto dest: inv_stop inv_start)

lemma inv_run:
  "inv w v h \<Longrightarrow> fold (\<lambda>q s. snd (video_do q s)) qs (v, h) = (v', h') \<Longrightarrow> inv w v' h'"
proof (induction qs arbitrary: v h)
  case Nil
  then show ?case by simp
next
  case (Cons q qs)
  obtain r v1 h1 where d: "video_do q (v, h) = (r, v1, h1)" by (metis prod_cases3)
  with Cons show ?case by (auto dest: inv_do)
qed

end

section \<open>The test double\<close>

text \<open>
  The recorder of \<open>libs/video/tests/test_video.c\<close>: the mock host the core is tested against.
\<close>

record mock_t =
  m_recording :: int
  m_warp :: int
  m_start_calls :: nat
  m_stop_calls :: nat
  m_start_should_fail :: bool
  m_last_path :: "u8 list"

definition mock_start :: "u8 list \<Rightarrow> mock_t \<Rightarrow> int \<times> mock_t" where
  "mock_start path m =
     (let m = m\<lparr>m_start_calls := Suc (m_start_calls m), m_last_path := take 255 path\<rparr>
      in if m_start_should_fail m then (-1, m) else (0, m\<lparr>m_recording := 1\<rparr>))"

definition mock_stop :: "mock_t \<Rightarrow> mock_t" where
  "mock_stop m = m\<lparr>m_stop_calls := Suc (m_stop_calls m), m_recording := 0\<rparr>"

definition mock_host :: "mock_t video_host_t" where
  "mock_host = \<lparr>start_recording = mock_start, stop_recording = mock_stop,
     is_recording = m_recording, get_warp = m_warp, set_warp = (\<lambda>w m. m\<lparr>m_warp := w\<rparr>)\<rparr>"

definition mock_setup :: "bool \<Rightarrow> mock_t" where
  "mock_setup fail = \<lparr>m_recording = 0, m_warp = 1, m_start_calls = 0, m_stop_calls = 0,
     m_start_should_fail = fail, m_last_path = []\<rparr>"

interpretation mock: video_recorder mock_host m_warp "\<lambda>m. m_recording m \<noteq> 0"
  by unfold_locales (auto simp: mock_host_def mock_start_def mock_stop_def Let_def)

section \<open>Properties\<close>

text \<open>Every body whose first byte is not zero (not only the documented action 1) and that
  carries its whole non-empty path is a start of that path, read up to its first NUL; bytes after
  the path are ignored.\<close>

theorem video_start_format:
  assumes "a \<noteq> 0" and "p \<noteq> []" and "length p \<le> 255" and "length rest < 2 ^ 31"
  shows "video_core_binmon_record v ([a, of_nat (length p)] @ p @ rest)
      (of_nat (2 + length p + length rest)) h = Some (video_start v (cstr p) h)"
proof -
  let ?b = "[a, of_nat (length p)] @ p @ rest"
  have n: "unat (of_nat (length p) :: u8) = length p" using assms(3) by (simp add: unat_of_nat)
  then have "(of_nat (length p) :: u8) \<noteq> 0" using assms(2) by (metis length_0_conv unat_0)
  with n assms(1) have "video_request ?b = Start (cstr p)" by (simp add: video_request_def)
  moreover have "length ?b < 2 ^ 32" using assms(3,4) by simp
  ultimately show ?thesis using video_core_eq [of ?b v h] by simp
qed

theorem video_start_format_witness:
  "video_core_binmon_record (video_core_init mock_host)
     ([7, of_nat (length [0x61, 0x62 :: u8])] @ [0x61, 0x62] @ [])
     (of_nat (2 + length [0x61, 0x62 :: u8] + length ([] :: u8 list))) (mock_setup False)
   = Some (video_start (video_core_init mock_host) (cstr [0x61, 0x62]) (mock_setup False))"
  by (rule video_start_format) simp_all

end
