(* ===== verification/Video_Adapter.thy ===== *)
theory Video_Adapter
  imports Video
begin

text \<open>
  The VICE adapter \<open>libs/video/vice/mon_video.c\<close>. The recorder and warp functions of VICE are
  not part of the repository: they are the record \<open>vice_video\<close>, a parameter of every
  definition, and \<open>vice_video_laws\<close> is their documented behaviour.
\<close>

record ('v, 'c) vice_video =
  screenshot_save :: "string \<Rightarrow> u8 list \<Rightarrow> 'c \<Rightarrow> 'v \<Rightarrow> int \<times> 'v"
  machine_video_canvas_get :: "int \<Rightarrow> 'c"
  screenshot_stop_recording :: "'v \<Rightarrow> 'v"
  screenshot_is_recording :: "'v \<Rightarrow> int"
  vsync_get_warp_mode :: "'v \<Rightarrow> int"
  vsync_set_warp_mode :: "int \<Rightarrow> 'v \<Rightarrow> 'v"

definition h_start_recording :: "('v, 'c) vice_video \<Rightarrow> u8 list \<Rightarrow> 'v \<Rightarrow> int \<times> 'v" where
  "h_start_recording V path v = screenshot_save V ''ZMBV'' path (machine_video_canvas_get V 0) v"

definition vid_host :: "('v, 'c) vice_video \<Rightarrow> 'v video_host_t" where
  "vid_host V =
     \<lparr>start_recording = h_start_recording V, stop_recording = screenshot_stop_recording V,
      is_recording = screenshot_is_recording V, get_warp = vsync_get_warp_mode V,
      set_warp = vsync_set_warp_mode V\<rparr>"

record 'v vid_statics =
  vid :: "'v video_core_t"
  vid_inited :: bool

definition vid_ensure :: "('v, 'c) vice_video \<Rightarrow> 'v vid_statics \<Rightarrow> 'v vid_statics" where
  "vid_ensure V s =
     (if \<not> vid_inited s then s\<lparr>vid := video_core_init (vid_host V), vid_inited := True\<rparr> else s)"

definition mon_video_binmon_record ::
    "('v, 'c) vice_video \<Rightarrow> u8 list \<Rightarrow> int \<Rightarrow> 'v vid_statics \<times> 'v \<Rightarrow>
       (video_result \<times> 'v vid_statics \<times> 'v) option" where
  "mon_video_binmon_record V body len = (\<lambda>(s, v).
     let s = vid_ensure V s
     in if len < 0 then Some (VIDEO_ERR_LENGTH, s, v)
        else do {
          (r, c, v) \<leftarrow> video_core_binmon_record (vid s) body (of_int len) v;
          Some (r, s\<lparr>vid := c\<rparr>, v)
        })"

text \<open>A sequence of requests, each body passed with its own length.\<close>

definition mon_video_run ::
    "('v, 'c) vice_video \<Rightarrow> u8 list list \<Rightarrow> 'v vid_statics \<times> 'v \<Rightarrow> ('v vid_statics \<times> 'v) option" where
  "mon_video_run V = for_each (\<lambda>body s. map_option snd (mon_video_binmon_record V body (int (length body)) s))"

definition vice_video_laws :: "('v, 'c) vice_video \<Rightarrow> ('v \<Rightarrow> int) \<Rightarrow> ('v \<Rightarrow> bool) \<Rightarrow> bool" where
  "vice_video_laws V warp recording \<longleftrightarrow>
     (\<forall>v. vsync_get_warp_mode V v = warp v) \<and>
     (\<forall>v. screenshot_is_recording V v \<noteq> 0 \<longleftrightarrow> recording v) \<and>
     (\<forall>w v. warp (vsync_set_warp_mode V w v) = w \<and> recording (vsync_set_warp_mode V w v) = recording v) \<and>
     (\<forall>d p c v. warp (snd (screenshot_save V d p c v)) = warp v \<and>
        (recording (snd (screenshot_save V d p c v))
           \<longleftrightarrow> recording v \<or> 0 \<le> fst (screenshot_save V d p c v))) \<and>
     (\<forall>v. warp (screenshot_stop_recording V v) = warp v \<and> \<not> recording (screenshot_stop_recording V v))"

text \<open>The adapter's vtable keeps the recorder contract when VICE keeps its own.\<close>

lemma vid_host_recorder:
  assumes "vice_video_laws V warp recording"
  shows "video_recorder (vid_host V) warp recording"
proof -
  have save: "warp (snd (h_start_recording V p v)) = warp v"
    "recording (snd (h_start_recording V p v)) = (recording v \<or> 0 \<le> fst (h_start_recording V p v))" for p v
    using assms by (simp_all add: vice_video_laws_def h_start_recording_def)
  show ?thesis
    using assms by unfold_locales (auto simp: vid_host_def save vice_video_laws_def)
qed

lemma mon_video_step:
  assumes "length b < 2 ^ 31"
  shows "mon_video_binmon_record V b (int (length b)) (s, v) =
    (let s = vid_ensure V s; (r, c, v) = video_do (video_request b) (vid s, v)
     in Some (r, s\<lparr>vid := c\<rparr>, v))"
  using assms by (simp add: mon_video_binmon_record_def Let_def video_core_eq split: prod.splits)

text \<open>The recorder invariant of the statics, before and after the lazy initialisation.\<close>

definition vid_inv :: "('v, 'c) vice_video \<Rightarrow> ('v \<Rightarrow> int) \<Rightarrow> ('v \<Rightarrow> bool) \<Rightarrow> int \<Rightarrow> 'v vid_statics \<times> 'v \<Rightarrow> bool" where
  "vid_inv V warp recording w = (\<lambda>(s, v).
     video_recorder.inv (vid_host V) warp recording w (vid (vid_ensure V s)) v)"

lemma vid_inv_boot:
  assumes "vice_video_laws V warp recording" "\<not> vid_inited s" "\<not> recording v"
  shows "vid_inv V warp recording (warp v) (s, v)"
  using assms(2,3) video_recorder.inv_init [OF vid_host_recorder [OF assms(1)]]
  by (simp add: vid_inv_def vid_ensure_def)

lemma vid_inv_step:
  assumes "vice_video_laws V warp recording" "length b < 2 ^ 31" "vid_inv V warp recording w s"
  shows "\<exists>r s'. mon_video_binmon_record V b (int (length b)) s = Some (r, s') \<and>
    vid_inv V warp recording w s'"
proof -
  obtain t v where s: "s = (t, v)" by fastforce
  obtain r c v' where d: "video_do (video_request b) (vid (vid_ensure V t), v) = (r, c, v')"
    by (metis prod_cases3)
  have "video_recorder.inv (vid_host V) warp recording w c v'"
    using video_recorder.inv_do [OF vid_host_recorder [OF assms(1)] _ d] assms(3)
    by (simp add: vid_inv_def s)
  moreover have "vid_inited (vid_ensure V t)" by (simp add: vid_ensure_def)
  ultimately show ?thesis using assms(2) d
    by (simp add: s mon_video_step Let_def vid_inv_def vid_ensure_def)
qed

lemma vid_inv_run:
  assumes "vice_video_laws V warp recording" "\<forall>b \<in> set bs. length b < 2 ^ 31"
    "vid_inv V warp recording w s"
  shows "\<exists>s'. mon_video_run V bs s = Some s' \<and> vid_inv V warp recording w s'"
  using assms(2,3)
proof (induction bs arbitrary: s)
  case Nil
  then show ?case by (simp add: mon_video_run_def)
next
  case (Cons b bs)
  then obtain r s1 where s1: "mon_video_binmon_record V b (int (length b)) s = Some (r, s1)"
    "vid_inv V warp recording w s1"
    using vid_inv_step [OF assms(1), of b w s] by auto
  from Cons.IH [OF _ s1(2)] Cons.prems(1) s1(1) show ?case
    by (auto simp: mon_video_run_def)
qed

section \<open>Properties\<close>

text \<open>The functions of the test double in the place of VICE's.\<close>

definition mock_vice :: "(mock_t, unit) vice_video" where
  "mock_vice = \<lparr>screenshot_save = (\<lambda>driver path canvas. mock_start path),
     machine_video_canvas_get = (\<lambda>_. ()), screenshot_stop_recording = mock_stop,
     screenshot_is_recording = m_recording, vsync_get_warp_mode = m_warp,
     vsync_set_warp_mode = (\<lambda>w m. m\<lparr>m_warp := w\<rparr>)\<rparr>"

lemma mock_vice_laws: "vice_video_laws mock_vice m_warp (\<lambda>m. m_recording m \<noteq> 0)"
  by (auto simp: vice_video_laws_def mock_vice_def mock_start_def mock_stop_def Let_def)

text \<open>C16: Whatever requests arrive, well-formed or not, and whatever the recorder accepts or
  refuses: no request makes the code leave its arrays; while a recording is under way warp is
  off, and whenever none is, the warp mode is the one the machine had before the first.\<close>

theorem video_warp_policy:
  assumes "vice_video_laws V warp recording"
    and "\<not> vid_inited s" and "\<not> recording v"
    and "\<forall>b \<in> set bodies. length b < 2 ^ 31"
  shows "\<exists>s' v'. mon_video_run V bodies (s, v) = Some (s', v') \<and>
    warp v' = (if recording v' then 0 else warp v)"
proof -
  obtain s' v' where r: "mon_video_run V bodies (s, v) = Some (s', v')"
    "vid_inv V warp recording (warp v) (s', v')"
    using vid_inv_run [OF assms(1,4) vid_inv_boot [OF assms(1-3)]] by fastforce
  then have "warp v' = (if recording v' then 0 else warp v)"
    using video_recorder.inv_def [OF vid_host_recorder [OF assms(1)]]
    by (simp add: vid_inv_def split: if_splits)
  with r(1) show ?thesis by blast
qed

theorem video_warp_policy_witness:
  "\<exists>s' v'. mon_video_run mock_vice [[1, 1, 0x61], [1, 9], [0]]
     (\<lparr>vid = video_core_init (vid_host mock_vice), vid_inited = False\<rparr>, mock_setup False) = Some (s', v') \<and>
    m_warp v' = (if m_recording v' \<noteq> 0 then 0 else m_warp (mock_setup False))"
  by (rule video_warp_policy [OF mock_vice_laws]) (simp_all add: mock_setup_def)

text \<open>The saved warp mode is overwritten by a second start: when the recorder ends a
  recording by itself, the next start saves the forced-off mode, and its stop leaves a machine
  that had booted in warp (mode 1) without warp (mode 0).\<close>

theorem video_restart_loses_warp:
  "do {
     (s, m) \<leftarrow> mon_video_run mock_vice [[1, 1, 0x61]]
       (\<lparr>vid = video_core_init (vid_host mock_vice), vid_inited = False\<rparr>, mock_setup False);
     (s, m) \<leftarrow> mon_video_run mock_vice [[1, 1, 0x62], [0]] (s, m\<lparr>m_recording := 0\<rparr>);
     Some (m_warp (mock_setup False), m_warp m)
   } = Some (1, 0)"
  by code_simp

end
