(* ===== verification/Key_Table.thy ===== *)
theory Key_Table
  imports Prelude Clib
begin

text \<open>
  The C64 key table of \<open>libs/keymatrix/src/keymatrix_core.c\<close>: the descriptor of a key, the
  case-insensitive comparison and the lookup by name. A C string is the list of its characters
  up to the terminator, so it holds no NUL; lemmas that need this say so with \<open>c_string\<close>.
\<close>

section \<open>Keys\<close>

record km_key_t =
  row :: int
  col :: int
  kind :: int
  key_name :: string

definition km_max_keys :: nat where "km_max_keys = 16"

definition km_row_restore_1 :: int where "km_row_restore_1 = -3"
definition km_col_restore_1 :: int where "km_col_restore_1 = 0"
definition km_row_restore_2 :: int where "km_row_restore_2 = -3"
definition km_col_restore_2 :: int where "km_col_restore_2 = 1"
definition km_row_4080column :: int where "km_row_4080column = -4"
definition km_col_4080column :: int where "km_col_4080column = 0"
definition km_row_capslock :: int where "km_row_capslock = -4"
definition km_col_capslock :: int where "km_col_capslock = 1"

lemmas km_sentinels = km_row_restore_1_def km_col_restore_1_def km_row_restore_2_def
  km_col_restore_2_def km_row_4080column_def km_col_4080column_def km_row_capslock_def
  km_col_capslock_def

definition c64_keys :: "(string \<times> int \<times> int \<times> int) list" where
  "c64_keys =
    [(''INSTDEL'', 0, 0, 0), (''DEL'', 0, 0, 0), (''INST'', 0, 0, 0), (''BACKSPACE'', 0, 0, 0),
     (''BS'', 0, 0, 0), (''RETURN'', 0, 1, 0), (''ENTER'', 0, 1, 0), (''RTN'', 0, 1, 0),
     (''CRSRLR'', 0, 2, 0), (''CR'', 0, 2, 0), (''RIGHT'', 0, 2, 0), (''F7'', 0, 3, 0),
     (''F1'', 0, 4, 0), (''F3'', 0, 5, 0), (''F5'', 0, 6, 0), (''CRSRUD'', 0, 7, 0),
     (''CD'', 0, 7, 0), (''DOWN'', 0, 7, 0),
     (''3'', 1, 0, 0), (''W'', 1, 1, 0), (''A'', 1, 2, 0), (''4'', 1, 3, 0), (''Z'', 1, 4, 0),
     (''S'', 1, 5, 0), (''E'', 1, 6, 0), (''LSHIFT'', 1, 7, 0), (''SHIFT'', 1, 7, 0),
     (''LEFTSHIFT'', 1, 7, 0),
     (''5'', 2, 0, 0), (''R'', 2, 1, 0), (''D'', 2, 2, 0), (''6'', 2, 3, 0), (''C'', 2, 4, 0),
     (''F'', 2, 5, 0), (''T'', 2, 6, 0), (''X'', 2, 7, 0),
     (''7'', 3, 0, 0), (''Y'', 3, 1, 0), (''G'', 3, 2, 0), (''8'', 3, 3, 0), (''B'', 3, 4, 0),
     (''H'', 3, 5, 0), (''U'', 3, 6, 0), (''V'', 3, 7, 0),
     (''9'', 4, 0, 0), (''I'', 4, 1, 0), (''J'', 4, 2, 0), (''0'', 4, 3, 0), (''M'', 4, 4, 0),
     (''K'', 4, 5, 0), (''O'', 4, 6, 0), (''N'', 4, 7, 0),
     (''PLUS'', 5, 0, 0), (''P'', 5, 1, 0), (''L'', 5, 2, 0), (''MINUS'', 5, 3, 0),
     (''PERIOD'', 5, 4, 0), (''DOT'', 5, 4, 0), (''COLON'', 5, 5, 0), (''AT'', 5, 6, 0),
     (''COMMA'', 5, 7, 0),
     (''POUND'', 6, 0, 0), (''STERLING'', 6, 0, 0), (''TIMES'', 6, 1, 0), (''STAR'', 6, 1, 0),
     (''ASTERISK'', 6, 1, 0), (''SEMICOLON'', 6, 2, 0), (''SEMI'', 6, 2, 0), (''CLR'', 6, 3, 0),
     (''HOME'', 6, 3, 0), (''CLRHOME'', 6, 3, 0), (''RSHIFT'', 6, 4, 0), (''RIGHTSHIFT'', 6, 4, 0),
     (''EQUALS'', 6, 5, 0), (''EQ'', 6, 5, 0), (''UPARROW'', 6, 6, 0), (''UP'', 6, 6, 0),
     (''EXPONENT'', 6, 6, 0), (''SLASH'', 6, 7, 0),
     (''1'', 7, 0, 0), (''LEFTARROW'', 7, 1, 0), (''LEFT'', 7, 1, 0), (''CTRL'', 7, 2, 0),
     (''2'', 7, 3, 0), (''SPACE'', 7, 4, 0), (''SP'', 7, 4, 0), (''CBM'', 7, 5, 0),
     (''COMMODORE'', 7, 5, 0), (''Q'', 7, 6, 0), (''RUNSTOP'', 7, 7, 0), (''STOP'', 7, 7, 0),
     (''RUN'', 7, 7, 0),
     (''RESTORE'', km_row_restore_1, km_col_restore_1, 1),
     (''CAPSLOCK'', km_row_capslock, km_col_capslock, 1),
     (''CAPS'', km_row_capslock, km_col_capslock, 1),
     (''4080'', km_row_4080column, km_col_4080column, 1)]"

section \<open>Lookup\<close>

fun km_strcasecmp :: "string \<Rightarrow> string \<Rightarrow> int" where
  "km_strcasecmp [] [] = 0"
| "km_strcasecmp [] (b # bs) = - int (ord (tolower b))"
| "km_strcasecmp (a # as) [] = int (ord (tolower a))"
| "km_strcasecmp (a # as) (b # bs) =
     (let ca = int (ord (tolower a)); cb = int (ord (tolower b))
      in if ca \<noteq> cb then ca - cb else km_strcasecmp as bs)"

definition strncpy_name :: "string \<Rightarrow> string" where
  \<comment> \<open>into \<open>char name[16]\<close>, with the last byte set to NUL\<close>
  "strncpy_name s = take 15 s"

fun find_key_in :: "(string \<times> int \<times> int \<times> int) list \<Rightarrow> string \<Rightarrow> km_key_t option" where
  "find_key_in [] name = None"
| "find_key_in ((n, r, c, k) # ks) name =
     (if km_strcasecmp name n = 0
      then Some \<lparr>row = r, col = c, kind = k, key_name = strncpy_name n\<rparr>
      else find_key_in ks name)"

definition find_key_by_name :: "string \<Rightarrow> km_key_t option" where
  "find_key_by_name name = find_key_in c64_keys name"

section \<open>Comparison\<close>

definition c_string :: "string \<Rightarrow> bool" where
  "c_string s \<longleftrightarrow> chr 0 \<notin> set s"

lemma ord_eq_iff [simp]: "ord a = ord b \<longleftrightarrow> a = b"
  by (metis chr_ord)

lemma ord_tolower_0: "ord (tolower c) = 0 \<longleftrightarrow> c = chr 0"
proof -
  have "ord (chr 0) = 0" by simp
  then have "ord c = 0 \<longleftrightarrow> c = chr 0" by (metis ord_eq_iff)
  then show ?thesis by (auto simp: tolower_def)
qed

lemma km_strcasecmp_0:
  assumes "c_string a" "c_string b"
  shows "km_strcasecmp a b = 0 \<longleftrightarrow> map tolower a = map tolower b"
  using assms by (induction a b rule: km_strcasecmp.induct)
    (auto simp: c_string_def ord_tolower_0 Let_def)

lemma find_key_in_hit:
  assumes "(n, r, c, k) \<in> set ks" "\<forall>(n, _) \<in> set ks. c_string n" "c_string name"
    "distinct (map (map tolower \<circ> fst) ks)" "map tolower name = map tolower n"
  shows "find_key_in ks name = Some \<lparr>row = r, col = c, kind = k, key_name = strncpy_name n\<rparr>"
  using assms by (induction ks name rule: find_key_in.induct)
    (auto simp: km_strcasecmp_0 image_iff split: prod.splits)

lemma find_key_in_Some:
  assumes "find_key_in ks name = Some key" "\<forall>(n, _) \<in> set ks. c_string n" "c_string name"
  shows "\<exists>(n, r, c, k) \<in> set ks. map tolower name = map tolower n \<and>
    key = \<lparr>row = r, col = c, kind = k, key_name = strncpy_name n\<rparr>"
  using assms by (induction ks name rule: find_key_in.induct)
    (auto simp: km_strcasecmp_0 split: if_splits)

definition lower_names :: "string list" where
  "lower_names = [''instdel'', ''del'', ''inst'', ''backspace'', ''bs'', ''return'', ''enter'', ''rtn'', ''crsrlr'', ''cr'', ''right'', ''f7'', ''f1'', ''f3'', ''f5'', ''crsrud'', ''cd'', ''down'', ''3'', ''w'', ''a'', ''4'', ''z'', ''s'', ''e'', ''lshift'', ''shift'', ''leftshift'', ''5'', ''r'', ''d'', ''6'', ''c'', ''f'', ''t'', ''x'', ''7'', ''y'', ''g'', ''8'', ''b'', ''h'', ''u'', ''v'', ''9'', ''i'', ''j'', ''0'', ''m'', ''k'', ''o'', ''n'', ''plus'', ''p'', ''l'', ''minus'', ''period'', ''dot'', ''colon'', ''at'', ''comma'', ''pound'', ''sterling'', ''times'', ''star'', ''asterisk'', ''semicolon'', ''semi'', ''clr'', ''home'', ''clrhome'', ''rshift'', ''rightshift'', ''equals'', ''eq'', ''uparrow'', ''up'', ''exponent'', ''slash'', ''1'', ''leftarrow'', ''left'', ''ctrl'', ''2'', ''space'', ''sp'', ''cbm'', ''commodore'', ''q'', ''runstop'', ''stop'', ''run'', ''restore'', ''capslock'', ''caps'', ''4080'']"

lemma lower_names: "map (map tolower \<circ> fst) c64_keys = lower_names"
  by (simp add: c64_keys_def lower_names_def char_eval)

lemma distinct_lower_names: "distinct lower_names"
  by (simp add: lower_names_def)

definition name_ok :: "string \<Rightarrow> bool" where
  "name_ok n \<longleftrightarrow> c_string n \<and> length n \<le> 15 \<and> n \<noteq> [] \<and> CHR '','' \<notin> set n"

lemma table_names_ok: "list_all (\<lambda>(n, _). name_ok n) c64_keys"
  by (simp add: c64_keys_def name_ok_def c_string_def char_eval)

lemma table_shape:
  "list_all (\<lambda>(n, r, c, k). (if k = 0 then 0 \<le> r \<and> r \<le> 7 else k = 1 \<and> - 8 \<le> r \<and> r < 0) \<and> 0 \<le> c \<and> c \<le> 7) c64_keys"
  by (simp add: c64_keys_def km_sentinels)

lemma table_entry:
  assumes "(n, r, c, k) \<in> set c64_keys"
  shows "name_ok n" "k = (if r < 0 then 1 else 0)" "- 8 \<le> r" "r \<le> 7" "0 \<le> c" "c \<le> 7"
  using assms table_names_ok table_shape by (auto simp: list_all_iff split: if_splits)

lemma c_string_lower: "c_string n \<Longrightarrow> map tolower s = map tolower n \<Longrightarrow> c_string s"
proof (induction n arbitrary: s)
  case (Cons x n)
  then obtain y u where s: "s = y # u" "tolower y = tolower x" "map tolower u = map tolower n"
    by (auto simp: map_eq_Cons_conv)
  then have "y = chr 0 \<longleftrightarrow> x = chr 0" by (metis ord_tolower_0)
  with s Cons show ?case by (auto simp: c_string_def)
qed (simp add: c_string_def)

lemma find_key_hit:
  assumes "(n, r, c, k) \<in> set c64_keys" "map tolower s = map tolower n"
  shows "find_key_by_name s = Some \<lparr>row = r, col = c, kind = k, key_name = n\<rparr>"
proof -
  have n: "name_ok n" by (rule table_entry(1) [OF assms(1)])
  have "\<forall>(n, _) \<in> set c64_keys. c_string n"
    using table_names_ok by (auto simp: list_all_iff name_ok_def)
  moreover have "distinct (map (map tolower \<circ> fst) c64_keys)"
    by (simp add: lower_names distinct_lower_names)
  ultimately show ?thesis
    using find_key_in_hit [OF assms(1), of s] assms(2) c_string_lower [of n s] n
    by (simp add: find_key_by_name_def name_ok_def strncpy_name_def)
qed

lemma find_key_Some:
  assumes "find_key_by_name s = Some key" "c_string s"
  shows "\<exists>k. (key_name key, row key, col key, k) \<in> set c64_keys \<and> kind key = k \<and>
    map tolower s = map tolower (key_name key)"
proof -
  have "\<forall>(n, _) \<in> set c64_keys. c_string n"
    using table_names_ok by (auto simp: list_all_iff name_ok_def)
  from find_key_in_Some [OF assms(1) [unfolded find_key_by_name_def] this assms(2)]
  obtain n r c k where "(n, r, c, k) \<in> set c64_keys" "map tolower s = map tolower n"
    "key = \<lparr>row = r, col = c, kind = k, key_name = strncpy_name n\<rparr>" by auto
  moreover from this have "strncpy_name n = n"
    using table_entry(1) by (simp add: name_ok_def strncpy_name_def)
  ultimately show ?thesis by simp
qed

lemma find_key_miss:
  assumes "c_string s" "map tolower s \<notin> set lower_names"
  shows "find_key_by_name s = None"
proof (rule ccontr)
  assume "find_key_by_name s \<noteq> None"
  then obtain key where "find_key_by_name s = Some key" by blast
  from find_key_Some [OF this assms(1)] obtain e where "e \<in> set c64_keys" "map tolower s = map tolower (fst e)"
    by fastforce
  then have "map tolower s \<in> set (map (map tolower \<circ> fst) c64_keys)" by auto
  with assms(2) show False by (simp add: lower_names)
qed

section \<open>Properties\<close>

text \<open>C30: A name is found exactly when, up to case, it is a name of the table, and the key found is
  the position and kind of that entry: no entry shadows another, no name is truncated.\<close>

theorem key_names_resolve:
  assumes "c_string s"
  shows "find_key_by_name s = Some key \<longleftrightarrow>
    (key_name key, row key, col key, kind key) \<in> set c64_keys \<and>
      map tolower s = map tolower (key_name key)"
proof
  assume "find_key_by_name s = Some key"
  with find_key_Some [OF this assms] show
    "(key_name key, row key, col key, kind key) \<in> set c64_keys \<and> map tolower s = map tolower (key_name key)"
    by auto
next
  assume "(key_name key, row key, col key, kind key) \<in> set c64_keys \<and>
    map tolower s = map tolower (key_name key)"
  then show "find_key_by_name s = Some key"
    using find_key_hit [of "key_name key" "row key" "col key" "kind key" s] by simp
qed

lemma key_names_resolve_witness:
  "find_key_by_name ''rUnStOp'' = Some \<lparr>row = 7, col = 7, kind = 0, key_name = ''RUNSTOP''\<rparr> \<and>
   find_key_by_name ''notakey'' = None"
proof
  show "find_key_by_name ''rUnStOp'' = Some \<lparr>row = 7, col = 7, kind = 0, key_name = ''RUNSTOP''\<rparr>"
    by (subst key_names_resolve) (simp_all add: c64_keys_def c_string_def char_eval)
  have "find_key_by_name ''notakey'' \<noteq> Some key" for key
  proof -
    have "map tolower (key_name key) \<in> set lower_names"
      if "(key_name key, row key, col key, kind key) \<in> set c64_keys"
      unfolding lower_names [symmetric] using that by force
    moreover have "map tolower ''notakey'' \<notin> set lower_names"
      by (simp add: lower_names_def char_eval)
    ultimately show ?thesis
      using key_names_resolve [of "''notakey''" key] by (auto simp: c_string_def char_eval)
  qed
  then show "find_key_by_name ''notakey'' = None" by (cases "find_key_by_name ''notakey''") auto
qed

text \<open>Every one of the 64 positions of the C64 matrix has a name, and every entry of the table
  is a matrix position with kind 0 or a special key with a negative row and kind 1.\<close>

theorem key_table_covers:
  "list_all (\<lambda>r. list_all (\<lambda>c.
       \<exists>n. find_key_by_name n = Some \<lparr>row = r, col = c, kind = 0, key_name = n\<rparr>) [0..7]) [0..7] \<and>
   list_all (\<lambda>(n, r, c, k). if k = 0 then r \<in> {0..7} \<and> c \<in> {0..7} else k = 1 \<and> r < 0) c64_keys"
proof
  have "list_all (\<lambda>r. list_all (\<lambda>c. list_ex (\<lambda>(n, r', c', k). (r', c', k) = (r, c, 0)) c64_keys) [0..7]) [0..7]"
    by (simp add: c64_keys_def upto.simps)
  then have "\<exists>n. (n, r, c, 0) \<in> set c64_keys" if "r \<in> set [0..7]" "c \<in> set [0..7]" for r c
    using that unfolding list_all_iff list_ex_iff by fast
  then show "list_all (\<lambda>r. list_all (\<lambda>c.
       \<exists>n. find_key_by_name n = Some \<lparr>row = r, col = c, kind = 0, key_name = n\<rparr>) [0..7]) [0..7]"
    unfolding list_all_iff using find_key_hit by blast
  show "list_all (\<lambda>(n, r, c, k). if k = 0 then r \<in> {0..7} \<and> c \<in> {0..7} else k = 1 \<and> r < 0) c64_keys"
    using table_shape by (auto simp: list_all_iff split: if_splits)
qed

end
