(* ===== verification/Key_Parse.thy ===== *)
theory Key_Parse
  imports Key_Table
begin

text \<open>
  The argument parser of \<open>libs/keymatrix/src/keymatrix_core.c\<close>. The writable buffer and its save
  pointer are the string still to be read, which is all the code looks at again; an error is the
  message the code prints. The list of parsed keys grows up to \<open>max_keys\<close>, the size of the
  caller's array.
\<close>

section \<open>Tokens\<close>

definition blank :: "char \<Rightarrow> bool" where
  "blank c \<longleftrightarrow> c = CHR '' '' \<or> c = CHR 0x09"

definition km_tok :: "string \<Rightarrow> string option \<times> string" where
  "km_tok str =
     (let s = dropWhile blank str
      in if s = [] then (None, s)
         else (Some (takeWhile (\<lambda>c. \<not> blank c) s),
               case dropWhile (\<lambda>c. \<not> blank c) s of [] \<Rightarrow> [] | _ # r \<Rightarrow> r))"

definition km_copy_args :: "string \<Rightarrow> nat \<Rightarrow> string option" where
  "km_copy_args args bufsize = (if bufsize \<le> length args then None else Some args)"

section \<open>Keys\<close>

definition parse_rc_pair :: "string \<Rightarrow> km_key_t option" where
  "parse_rc_pair tok =
     (let (r, e) = strtol tok 10
      in if e = tok then None
         else case e of [] \<Rightarrow> None
           | x # e1 \<Rightarrow>
               if x \<noteq> CHR '','' then None
               else
                 let (c, e2) = strtol e1 10
                 in if e2 \<noteq> [] then None
                    else if r < - 8 \<or> r > 15 \<or> c < 0 \<or> c > 7 then None
                    else Some \<lparr>row = r, col = c, kind = (if r < 0 then 1 else 0),
                           key_name = vsnprintf 16 (show_int r @ '','' @ show_int c)\<rparr>)"

definition parse_key_token :: "string \<Rightarrow> km_key_t option" where
  "parse_key_token tok =
     (if CHR '','' \<in> set tok then parse_rc_pair tok else find_key_by_name tok)"

definition quoted :: "string \<Rightarrow> string" where
  "quoted s = CHR 0x27 # s @ [CHR 0x27]"

definition out_line :: "string \<Rightarrow> string" where
  "out_line s = s @ [CHR 0x0A]"

definition bad_frames :: "string \<Rightarrow> bool" where
  "bad_frames tok = (let (v, e) = strtol tok 0 in e = tok \<or> e \<noteq> [] \<or> v < 1 \<or> 65535 < v)"

lemma km_tok_shorter: "km_tok s = (Some tok, r) \<Longrightarrow> length r < length s"
proof -
  assume a: "km_tok s = (Some tok, r)"
  let ?s = "dropWhile blank s"
  from a have "?s \<noteq> []" and r: "r = (case dropWhile (\<lambda>c. \<not> blank c) ?s of [] \<Rightarrow> [] | _ # r \<Rightarrow> r)"
    by (auto simp: km_tok_def Let_def split: if_splits)
  have le: "length (dropWhile (\<lambda>c. \<not> blank c) ?s) \<le> length ?s" "length ?s \<le> length s"
    by (rule length_dropWhile_le)+
  with r \<open>?s \<noteq> []\<close> show ?thesis
    by (cases "dropWhile (\<lambda>c. \<not> blank c) ?s") auto
qed

function parse_key_loop ::
    "nat \<Rightarrow> string \<Rightarrow> km_key_t list \<Rightarrow> int \<Rightarrow> string + km_key_t list \<times> int" where
  "parse_key_loop max_keys buf keys for_frames =
     (case km_tok buf of
        (None, _) \<Rightarrow> Inr (keys, for_frames)
      | (Some tok, rest) \<Rightarrow>
          if km_strcasecmp tok ''for'' = 0 then
            (case km_tok rest of
               (None, _) \<Rightarrow> Inl (out_line (''error: '' @ quoted ''for'' @ '' must be followed by a frame count''))
             | (Some frames_tok, rest') \<Rightarrow>
                 if bad_frames frames_tok
                 then Inl (out_line (''error: invalid frame count '' @ quoted frames_tok))
                 else parse_key_loop max_keys rest' keys (fst (strtol frames_tok 0)))
          else if max_keys \<le> length keys then
            Inl (out_line (''error: too many keys (max '' @ show_nat max_keys @ '')''))
          else
            (case parse_key_token tok of
               None \<Rightarrow> Inl (out_line (''error: unknown key '' @ quoted tok @
                               '' (try '' @ quoted ''keymatrix names'' @ '')''))
             | Some key \<Rightarrow> parse_key_loop max_keys rest (keys @ [key]) for_frames))"
  by pat_completeness auto
termination
  by (relation "measure (\<lambda>(_, buf, _). length buf)")
    (auto dest!: km_tok_shorter sym [of _ "km_tok _"])

declare parse_key_loop.simps [simp del]

definition parse_key_list :: "nat \<Rightarrow> string \<Rightarrow> string + km_key_t list \<times> int" where
  "parse_key_list max_keys buf = parse_key_loop max_keys buf [] (- 1)"

section \<open>What the parser accepts\<close>

definition key_ok :: "km_key_t \<Rightarrow> bool" where
  "key_ok k \<longleftrightarrow> - 8 \<le> row k \<and> row k \<le> 15 \<and> 0 \<le> col k \<and> col k \<le> 7 \<and>
     kind k = (if row k < 0 then 1 else 0) \<and> length (key_name k) \<le> 15"

lemma find_key_in_entry:
  "find_key_in ks s = Some key \<Longrightarrow>
     \<exists>(n, r, c, k) \<in> set ks. key = \<lparr>row = r, col = c, kind = k, key_name = strncpy_name n\<rparr>"
  by (induction ks s rule: find_key_in.induct) (auto split: if_splits)

lemma parse_key_token_ok:
  assumes "parse_key_token tok = Some key"
  shows "key_ok key"
proof (cases "CHR '','' \<in> set tok")
  case True
  with assms have "parse_rc_pair tok = Some key" by (simp add: parse_key_token_def)
  then show ?thesis
    by (auto simp: parse_rc_pair_def key_ok_def vsnprintf_def Let_def split: prod.splits if_splits list.splits)
next
  case False
  with assms have "find_key_in c64_keys tok = Some key" by (simp add: parse_key_token_def find_key_by_name_def)
  then obtain n r c k where e: "(n, r, c, k) \<in> set c64_keys"
    "key = \<lparr>row = r, col = c, kind = k, key_name = strncpy_name n\<rparr>"
    using find_key_in_entry by fast
  then show ?thesis using table_entry [OF e(1)] by (simp add: key_ok_def strncpy_name_def)
qed

text \<open>The words of a line, and the parser as a function of them.\<close>

fun split_words :: "string \<Rightarrow> string \<Rightarrow> string list" where
  "split_words cur [] = (if cur = [] then [] else [cur])"
| "split_words cur (c # cs) =
     (if blank c then (if cur = [] then [] else [cur]) @ split_words [] cs
      else split_words (cur @ [c]) cs)"

definition line_words :: "string \<Rightarrow> string list" where
  "line_words s = split_words [] s"

fun parse_words ::
    "nat \<Rightarrow> string list \<Rightarrow> km_key_t list \<Rightarrow> int \<Rightarrow> string + km_key_t list \<times> int" where
  "parse_words m [] keys ff = Inr (keys, ff)"
| "parse_words m (t # ts) keys ff =
     (if map tolower t = ''for'' then
        (case ts of
           [] \<Rightarrow> Inl (out_line (''error: '' @ quoted ''for'' @ '' must be followed by a frame count''))
         | f # ts' \<Rightarrow> if bad_frames f then Inl (out_line (''error: invalid frame count '' @ quoted f))
                     else parse_words m ts' keys (fst (strtol f 0)))
      else if m \<le> length keys then Inl (out_line (''error: too many keys (max '' @ show_nat m @ '')''))
      else case parse_key_token t of
          None \<Rightarrow> Inl (out_line (''error: unknown key '' @ quoted t @ '' (try '' @ quoted ''keymatrix names'' @ '')''))
        | Some k \<Rightarrow> parse_words m ts (keys @ [k]) ff)"

lemma split_words_word:
  "split_words cur s =
     (let t = cur @ takeWhile (\<lambda>c. \<not> blank c) s
      in (if t = [] then [] else [t]) @
         (case dropWhile (\<lambda>c. \<not> blank c) s of [] \<Rightarrow> [] | _ # r \<Rightarrow> split_words [] r))"
  by (induction s arbitrary: cur) (auto simp: Let_def)

lemma split_words_blank: "split_words [] (dropWhile blank s) = split_words [] s"
  by (induction s) auto

lemma km_tok_words:
  "line_words s = (case km_tok s of (None, _) \<Rightarrow> [] | (Some t, r) \<Rightarrow> t # line_words r)"
proof (cases "dropWhile blank s")
  case Nil
  then show ?thesis using split_words_blank [of s, unfolded Nil] by (simp add: km_tok_def line_words_def)
next
  case (Cons x u)
  then have "\<not> blank x" by (simp add: dropWhile_eq_Cons_conv)
  then show ?thesis
    using split_words_blank [of s] split_words_word [of "[]" "dropWhile blank s"] Cons
    by (cases "dropWhile (\<lambda>c. \<not> blank c) u")
      (simp_all add: km_tok_def line_words_def Let_def del: dropWhile_eq_Nil_conv)
qed

lemma c_string_append [simp]: "c_string (a @ b) \<longleftrightarrow> c_string a \<and> c_string b"
  by (auto simp: c_string_def)

lemma km_tok_c_string:
  assumes "km_tok s = (x, r)" "c_string s"
  shows "c_string r" "x = Some t \<Longrightarrow> c_string t"
proof -
  have d: "c_string (dropWhile P u)" "c_string (takeWhile P u)" if "c_string u" for P u
    using that by (auto simp: c_string_def dest: set_dropWhileD set_takeWhileD)
  show "c_string r" "x = Some t \<Longrightarrow> c_string t"
    using assms d [of s blank] d [of "dropWhile blank s" "\<lambda>c. \<not> blank c"]
    by (auto simp: km_tok_def Let_def c_string_def split: if_splits list.splits)
qed

lemma is_for: "c_string t \<Longrightarrow> km_strcasecmp t ''for'' = 0 \<longleftrightarrow> map tolower t = ''for''"
proof -
  have "c_string ''for''" "map tolower ''for'' = ''for''" by (simp_all add: c_string_def char_eval)
  moreover assume "c_string t"
  ultimately show ?thesis using km_strcasecmp_0 [of t "''for''"] by (simp del: list.map)
qed

lemma parse_key_loop_words:
  assumes "c_string buf"
  shows "parse_key_loop m buf keys ff = parse_words m (line_words buf) keys ff"
  using assms
proof (induction m buf keys ff rule: parse_key_loop.induct)
  case (1 m buf keys ff)
  note IH = "1.IH" and loop = parse_key_loop.simps [of m buf keys ff] and split = km_tok_words [of buf]
  show ?case
  proof (cases "km_tok buf")
    case (Pair x rest)
    show ?thesis
    proof (cases x)
      case None
      with Pair loop split show ?thesis by simp
    next
      case (Some tok)
      have cs: "c_string rest" "c_string tok"
        using km_tok_c_string [OF Pair "1.prems"] Some by auto
      show ?thesis
      proof (cases "km_tok rest")
        case p2: (Pair y rest')
        have "c_string rest'" using km_tok_c_string [OF p2 cs(1)] by auto
        then show ?thesis
          using loop split Pair Some p2 cs km_tok_words [of rest] is_for [OF cs(2)]
            IH(1) [OF Pair [symmetric] Some _ p2 [symmetric]] IH(2) [OF Pair [symmetric] Some]
          by (auto split: option.splits)
      qed
    qed
  qed
qed

lemma parse_words_ok:
  assumes "parse_words m ws keys ff = Inr (ks, f)" "length keys \<le> m" "list_all key_ok keys"
    "ff = - 1 \<or> 1 \<le> ff \<and> ff \<le> 65535"
  shows "length ks \<le> m \<and> list_all key_ok ks \<and> (f = - 1 \<or> 1 \<le> f \<and> f \<le> 65535)"
  using assms
proof (induction m ws keys ff rule: parse_words.induct)
  case (1 m keys ff)
  then show ?case by auto
next
  case (2 m t ts keys ff)
  show ?case
  proof (cases "map tolower t = ''for''")
    case True
    with "2.prems"(1) obtain fr ts' where f: "ts = fr # ts'" "\<not> bad_frames fr"
      "parse_words m ts' keys (fst (strtol fr 0)) = Inr (ks, f)"
      by (auto split: list.splits if_splits)
    then have "1 \<le> fst (strtol fr 0)" "fst (strtol fr 0) \<le> 65535"
      by (auto simp: bad_frames_def Let_def prod.case_eq_if)
    with "2.IH"(1) [OF True f(1,2,3)] "2.prems" show ?thesis by blast
  next
    case False
    with "2.prems"(1) obtain k where k: "parse_key_token t = Some k" "\<not> m \<le> length keys"
      "parse_words m ts (keys @ [k]) ff = Inr (ks, f)"
      by (auto split: option.splits if_splits)
    with "2.IH"(2) [OF False k(2,1,3)] parse_key_token_ok [OF k(1)] "2.prems" show ?thesis by simp
  qed
qed

lemma parse_key_list_ok:
  assumes "parse_key_list m buf = Inr (ks, f)" "c_string buf"
  shows "length ks \<le> m" "list_all key_ok ks" "f = - 1 \<or> 1 \<le> f \<and> f \<le> 65535"
  using assms parse_words_ok [of m "line_words buf" "[]" "- 1" ks f]
  by (auto simp: parse_key_list_def parse_key_loop_words)

lemma parse_key_list_words:
  "c_string buf \<Longrightarrow> parse_key_list m buf = parse_words m (line_words buf) [] (- 1)"
  by (simp add: parse_key_list_def parse_key_loop_words)

lemma parse_words_keys:
  assumes "list_all (\<lambda>w. map tolower w \<noteq> ''for'' \<and> parse_key_token w \<noteq> None) ws"
    "length keys + length ws \<le> m"
  shows "parse_words m (ws @ rest) keys ff = parse_words m rest (keys @ map (the \<circ> parse_key_token) ws) ff"
  using assms by (induction ws arbitrary: keys) auto

text \<open>A line made of words separated by blanks has those words.\<close>

definition is_word :: "string \<Rightarrow> bool" where
  "is_word w \<longleftrightarrow> w \<noteq> [] \<and> list_all (\<lambda>c. \<not> blank c) w"

fun join_words :: "string list \<Rightarrow> string" where
  "join_words [] = []"
| "join_words [w] = w"
| "join_words (w # ws) = w @ '' '' @ join_words ws"

lemma split_words_append:
  "list_all (\<lambda>c. \<not> blank c) w \<Longrightarrow> split_words cur (w @ s) = split_words (cur @ w) s"
  by (induction w arbitrary: cur) auto

lemma line_words_join: "list_all is_word ws \<Longrightarrow> line_words (join_words ws) = ws"
proof (induction ws rule: join_words.induct)
  case 1
  show ?case by (simp add: line_words_def)
next
  case (2 w)
  then show ?case using split_words_append [of w "[]" "[]"] by (simp add: line_words_def is_word_def)
next
  case (3 w x xs)
  then show ?case
    using split_words_append [of w "[]" "'' '' @ join_words (x # xs)"]
    by (simp add: line_words_def is_word_def blank_def)
qed

lemma c_string_join: "list_all c_string ws \<Longrightarrow> c_string (join_words ws)"
proof (induction ws rule: join_words.induct)
  case (3 w x xs)
  then show ?case by (simp add: c_string_def char_eval)
qed (simp_all add: c_string_def)

section \<open>Properties\<close>

lemma length_show_nat: "n < 100 \<Longrightarrow> length (show_nat n) \<le> 2"
proof (cases "n < 10")
  case False
  moreover assume "n < 100"
  then have "n div 10 < 10" by (simp add: less_mult_imp_div_less)
  ultimately show ?thesis by (simp add: show_nat_def show_base.simps [of 10 n] show_base.simps [of 10 "n div 10"])
qed (simp add: show_nat_def show_base.simps [of 10 n])

lemma length_show_int:
  assumes "- 100 < i" "i < 100"
  shows "length (show_int i) \<le> 3 \<and> show_int i \<noteq> []"
proof -
  have "nat i < 100" "nat (- i) < 100" using assms by linarith+
  then have "length (show_nat (nat i)) \<le> 2" "length (show_nat (nat (- i))) \<le> 2"
    by (simp_all only: length_show_nat)
  moreover have "show_nat (nat i) \<noteq> []" using show_nat_first [of "nat i"] by auto
  ultimately show ?thesis by (simp add: show_int_def)
qed

lemma show_nat_word: "is_word (show_nat n) \<and> c_string (show_nat n)"
proof -
  have "\<not> blank (digit_char d) \<and> digit_char d \<noteq> chr 0" if "d < 10" for d
  proof -
    have "ord (digit_char d) = 48 + d" using that by (rule ord_digit_char)
    moreover have "ord CHR '' '' = 32" "ord CHR 0x09 = 9" "ord (chr 0) = 0" by (simp_all add: ord_def chr_def)
    ultimately show ?thesis by (auto simp: blank_def)
  qed
  moreover have "set (show_nat n) \<subseteq> digit_char ` {..<10}"
    using show_base_digits [of 10 n] by (simp add: show_nat_def)
  moreover have "show_nat n \<noteq> []" using show_nat_first [of n] by auto
  ultimately show ?thesis by (force simp: is_word_def c_string_def list_all_iff)
qed

text \<open>C29: The in-place tokenising parser is the structural recursion over the words of the line:
  keys in order, the last frame count kept, the first bad word reported. On success there are at
  most \<open>max_keys\<close> keys, each with a row in -8..15, a column in 0..7, a matching kind and a name
  that fits its array, and a frame count of -1 or 1..65535.\<close>

theorem parse_key_list_spec:
  assumes "c_string buf"
  shows "parse_key_list m buf = parse_words m (line_words buf) [] (- 1) \<and>
    (case parse_key_list m buf of Inl _ \<Rightarrow> True
     | Inr (ks, f) \<Rightarrow> length ks \<le> m \<and> list_all key_ok ks \<and> (f = - 1 \<or> f \<in> {1..65535}))"
  using parse_key_list_words [OF assms] parse_key_list_ok [OF _ assms]
  by (auto split: sum.split)

lemma parse_key_list_spec_witness:
  "parse_key_list 16 ''Lshift 1,2'' = parse_words 16 (line_words ''Lshift 1,2'') [] (- 1) \<and>
   (case parse_key_list 16 ''Lshift 1,2'' of Inl _ \<Rightarrow> True
    | Inr (ks, f) \<Rightarrow> length ks \<le> 16 \<and> list_all key_ok ks \<and> (f = - 1 \<or> f \<in> {1..65535}))"
  by (rule parse_key_list_spec) (simp add: c_string_def char_eval)

text \<open>A line of up to \<open>max_keys\<close> key words, separated by blanks and closed by a frame
  count, is parsed into exactly those keys and that count.\<close>

theorem parse_chord:
  assumes "list_all (\<lambda>w. is_word w \<and> c_string w \<and> map tolower w \<noteq> ''for'' \<and> parse_key_token w \<noteq> None) ws"
    "length ws \<le> m" "1 \<le> n" "n \<le> 65535"
  shows "parse_key_list m (join_words (ws @ [''for'', show_nat n])) =
    Inr (map (the \<circ> parse_key_token) ws, int n)"
proof -
  let ?ws = "ws @ [''for'', show_nat n]"
  have "is_word ''for''" "c_string ''for''" by (simp_all add: is_word_def blank_def c_string_def char_eval)
  then have ws: "list_all is_word ?ws" "list_all c_string ?ws"
    using assms(1) show_nat_word [of n] by (auto simp: list_all_iff)
  have lower: "map tolower ''for'' = ''for''" by (simp add: char_eval)
  have n: "strtol (show_nat n) 0 = (int n, [])" "show_nat n \<noteq> []"
    using assms strtol_show_nat_open [of n] show_nat_first [of n] by (auto simp: long_max_def)
  have "parse_key_list m (join_words ?ws) = parse_words m ?ws [] (- 1)"
    by (simp add: parse_key_list_words [OF c_string_join [OF ws(2)]] line_words_join [OF ws(1)])
  also have "\<dots> = parse_words m [''for'', show_nat n] (map (the \<circ> parse_key_token) ws) (- 1)"
    using parse_words_keys [of ws "[]" m] assms(1,2) by (simp add: list_all_iff)
  also have "\<dots> = Inr (map (the \<circ> parse_key_token) ws, int n)"
    using lower n assms(3,4) by (simp add: bad_frames_def del: list.map)
  finally show ?thesis .
qed

lemma parse_chord_witness:
  "parse_key_list 16 ''lshift A for 50'' =
     Inr ([\<lparr>row = 1, col = 7, kind = 0, key_name = ''LSHIFT''\<rparr>, \<lparr>row = 1, col = 2, kind = 0, key_name = ''A''\<rparr>], 50)"
proof -
  have k: "parse_key_token ''lshift'' = Some \<lparr>row = 1, col = 7, kind = 0, key_name = ''LSHIFT''\<rparr>"
    "parse_key_token ''A'' = Some \<lparr>row = 1, col = 2, kind = 0, key_name = ''A''\<rparr>"
    unfolding parse_key_token_def
    by (simp_all add: find_key_hit [of "''LSHIFT''" 1 7 0] find_key_hit [of "''A''" 1 2 0] c64_keys_def char_eval)
  have "list_all (\<lambda>w. is_word w \<and> c_string w \<and> map tolower w \<noteq> ''for'' \<and> parse_key_token w \<noteq> None)
      [''lshift'', ''A'']"
    using k by (simp add: is_word_def blank_def c_string_def char_eval)
  from parse_chord [OF this, of 16 50] k show ?thesis by (simp add: char_eval)
qed

text \<open>A row and column, printed with a comma as the code prints them, parse to that key,
  with the printed text as its name.\<close>

theorem rc_pair_roundtrip:
  assumes "- 8 \<le> r" "r \<le> 15" "0 \<le> c" "c \<le> 7"
  shows "parse_key_token (show_int r @ '','' @ show_int c) =
    Some \<lparr>row = r, col = c, kind = (if r < 0 then 1 else 0), key_name = show_int r @ '','' @ show_int c\<rparr>"
proof -
  have comma: "ends_number 10 ('','' @ s)" for s by (simp add: ends_number_def char_eval)
  have r: "strtol (show_int r @ '','' @ show_int c) 10 = (r, '','' @ show_int c)"
    using assms comma by (intro strtol_show_int) (auto simp: long_min_def long_max_def)
  have c: "strtol (show_int c) 10 = (c, [])"
    using assms strtol_show_int [of "[]" c] by (simp add: long_min_def long_max_def ends_number_def)
  have "length (show_int r) \<le> 3 \<and> show_int r \<noteq> []" "length (show_int c) \<le> 3 \<and> show_int c \<noteq> []"
    using assms by (simp_all add: length_show_int)
  then have "take 15 (show_int r @ '','' @ show_int c) = show_int r @ '','' @ show_int c"
    by (intro take_all) simp
  with r c assms \<open>length (show_int r) \<le> 3 \<and> show_int r \<noteq> []\<close> show ?thesis
    by (simp add: parse_key_token_def parse_rc_pair_def vsnprintf_def del: take_append)
qed

lemma rc_pair_roundtrip_witness:
  "parse_key_token ''-3,1'' = Some \<lparr>row = -3, col = 1, kind = 1, key_name = ''-3,1''\<rparr>"
  using rc_pair_roundtrip [of "-3" 1] by (simp add: char_eval)

text \<open>The column of a pair may be missing: a row and a bare comma is accepted as column 0, although
  the row of a pair may not be missing.\<close>

theorem rc_pair_empty_column:
  "parse_key_token ''7,'' = Some \<lparr>row = 7, col = 0, kind = 0, key_name = ''7,0''\<rparr> \<and>
   parse_key_token '',7'' = None"
  by (simp add: parse_key_token_def parse_rc_pair_def vsnprintf_def char_eval)

end
