(* ===== verification/Keymatrix.thy ===== *)
theory Keymatrix
  imports Key_Parse
begin

unbundle bit_operations_syntax

text \<open>
  The keyboard injection core of \<open>libs/keymatrix/src/keymatrix_core.c\<close>: its state, the monitor
  verbs, the CIA read hooks, the alarm callback and the binary-monitor entry points. The host is
  a record of operations on a host state that is passed along with the core; the fixed arrays are
  lists of 16 keys whose accesses can fault. \<open>n_keys\<close> is never negative and is a \<open>nat\<close>; the
  \<open>long\<close> cycles per frame is an \<open>int\<close>.
\<close>

section \<open>State\<close>

abbreviation (input) KM_DEFAULT_TIMEOUT_FRAMES :: int where "KM_DEFAULT_TIMEOUT_FRAMES \<equiv> 60"
abbreviation (input) KM_BINMON_GET_RESPONSE_SIZE :: "'a::numeral" where "KM_BINMON_GET_RESPONSE_SIZE \<equiv> 24"
abbreviation (input) KM_CUSTOM_RESTORE1 :: int where "KM_CUSTOM_RESTORE1 \<equiv> 1"
abbreviation (input) KM_CUSTOM_RESTORE2 :: int where "KM_CUSTOM_RESTORE2 \<equiv> 2"
abbreviation (input) KM_CUSTOM_CAPS :: int where "KM_CUSTOM_CAPS \<equiv> 3"
abbreviation (input) KM_CUSTOM_4080 :: int where "KM_CUSTOM_4080 \<equiv> 4"

datatype km_release_reason =
  KM_RELEASE_NONE | KM_RELEASE_OBSERVED | KM_RELEASE_TIMEOUT | KM_RELEASE_MANUAL

datatype km_mode = KM_MODE_IDLE | KM_MODE_TAP_OBSERVED | KM_MODE_TAP_FIXED | KM_MODE_PRESS_STICKY

fun reason_code :: "km_release_reason \<Rightarrow> u8" where
  "reason_code KM_RELEASE_NONE = 0"
| "reason_code KM_RELEASE_OBSERVED = 1"
| "reason_code KM_RELEASE_TIMEOUT = 2"
| "reason_code KM_RELEASE_MANUAL = 3"

fun km_reason_str :: "km_release_reason \<Rightarrow> string" where
  "km_reason_str KM_RELEASE_OBSERVED = ''observed''"
| "km_reason_str KM_RELEASE_TIMEOUT = ''timeout''"
| "km_reason_str KM_RELEASE_MANUAL = ''manual''"
| "km_reason_str KM_RELEASE_NONE = ''none''"

fun km_mode_str :: "km_mode \<Rightarrow> string" where
  "km_mode_str KM_MODE_TAP_OBSERVED = ''tap-observed''"
| "km_mode_str KM_MODE_TAP_FIXED = ''tap-fixed''"
| "km_mode_str KM_MODE_PRESS_STICKY = ''press''"
| "km_mode_str KM_MODE_IDLE = ''idle''"

record 'h km_host_t =
  set_keyarr_any :: "int \<Rightarrow> int \<Rightarrow> int \<Rightarrow> 'h \<Rightarrow> 'h"
  get_keyarr :: "int \<Rightarrow> 'h \<Rightarrow> int"
  custom_key_get :: "int \<Rightarrow> 'h \<Rightarrow> int"
  clear_keymatrix :: "'h \<Rightarrow> 'h"
  host_now :: "'h \<Rightarrow> u64"
  cycles_per_frame :: "'h \<Rightarrow> int"
  set_alarm :: "u64 \<Rightarrow> 'h \<Rightarrow> 'h"
  cancel_alarm :: "'h \<Rightarrow> 'h"
  emit_text :: "string \<Rightarrow> 'h \<Rightarrow> 'h"

record km_last_t =
  last_valid :: bool
  last_keys :: "km_key_t list"
  last_n_keys :: nat
  last_reads_total :: u32
  last_reads_sampling :: u32
  last_release :: km_release_reason
  last_mode :: km_mode
  last_frames_held :: u16

record 'h km_core_t =
  km_host :: "'h km_host_t"
  km_active :: bool
  km_mode :: km_mode
  km_keys :: "km_key_t list"
  km_n_keys :: nat
  cia1_reads_total :: u32
  cia1_reads_sampling :: u32
  timeout_clk :: u64
  last_reason :: km_release_reason
  press_clk :: u64
  km_last :: km_last_t

definition km_key_zero :: km_key_t where
  "km_key_zero = \<lparr>row = 0, col = 0, kind = 0, key_name = []\<rparr>"

definition km_core_init :: "'h km_host_t \<Rightarrow> 'h km_core_t" where
  "km_core_init host =
     \<lparr>km_host = host, km_active = False, km_mode = KM_MODE_IDLE,
      km_keys = replicate km_max_keys km_key_zero, km_n_keys = 0, cia1_reads_total = 0,
      cia1_reads_sampling = 0, timeout_clk = 0, last_reason = KM_RELEASE_NONE, press_clk = 0,
      km_last = \<lparr>last_valid = False, last_keys = replicate km_max_keys km_key_zero,
        last_n_keys = 0, last_reads_total = 0, last_reads_sampling = 0,
        last_release = KM_RELEASE_NONE, last_mode = KM_MODE_IDLE, last_frames_held = 0\<rparr>\<rparr>"

section \<open>Helpers\<close>

definition km_outf :: "'h km_core_t \<Rightarrow> string \<Rightarrow> 'h \<Rightarrow> 'h" where
  "km_outf km s = emit_text (km_host km) (vsnprintf 512 s)"

definition plural :: "nat \<Rightarrow> string" where
  "plural n = (if n = 1 then '''' else ''s'')"

definition km_copy_keys :: "km_key_t list \<Rightarrow> nat \<Rightarrow> km_key_t list \<Rightarrow> km_key_t list option" where
  \<comment> \<open>\<open>for (i = 0; i < n; i++) dst[i] = src[i]\<close>\<close>
  "km_copy_keys src n = for_each (\<lambda>i dst. do { k \<leftarrow> aget src i; aset dst i k }) [0..<n]"

definition km_apply_bits ::
    "'h km_core_t \<Rightarrow> km_key_t list \<Rightarrow> nat \<Rightarrow> int \<Rightarrow> 'h \<Rightarrow> 'h option" where
  "km_apply_bits km ks n value = for_each (\<lambda>i h. do {
     k \<leftarrow> aget ks i;
     Some (set_keyarr_any (km_host km) (row k) (col k) value h)
   }) [0..<n]"

definition frames_held :: "int \<Rightarrow> u64 \<Rightarrow> u64 \<Rightarrow> u16" where
  "frames_held cpf now press =
     (if 0 < cpf \<and> press \<le> now then
        let f = (now - press) div of_int cpf in if 65535 < f then 65535 else ucast f
      else 0)"

definition km_release_now ::
    "km_release_reason \<Rightarrow> 'h km_core_t \<times> 'h \<Rightarrow> ('h km_core_t \<times> 'h) option" where
  "km_release_now reason = (\<lambda>(km, h).
     if \<not> km_active km then Some (km, h)
     else do {
       h \<leftarrow> km_apply_bits km (km_keys km) (km_n_keys km) 0 h;
       lkeys \<leftarrow> km_copy_keys (km_keys km) (km_n_keys km) (last_keys (km_last km));
       let l = \<lparr>last_valid = True, last_keys = lkeys, last_n_keys = km_n_keys km,
             last_reads_total = cia1_reads_total km, last_reads_sampling = cia1_reads_sampling km,
             last_release = (if last_reason km \<noteq> KM_RELEASE_NONE then last_reason km else reason),
             last_mode = km_mode km,
             last_frames_held =
               frames_held (cycles_per_frame (km_host km) h) (host_now (km_host km) h) (press_clk km)\<rparr>;
       let km = km\<lparr>km_last := l, km_active := False, km_n_keys := 0, km_mode := KM_MODE_IDLE,
             cia1_reads_total := 0, cia1_reads_sampling := 0, last_reason := KM_RELEASE_NONE\<rparr>;
       Some (km, cancel_alarm (km_host km) h)
     })"

definition km_core_on_alarm :: "'h km_core_t \<times> 'h \<Rightarrow> ('h km_core_t \<times> 'h) option" where
  "km_core_on_alarm = (\<lambda>(km, h).
     km_release_now
       (if last_reason km \<noteq> KM_RELEASE_NONE then last_reason km else KM_RELEASE_TIMEOUT) (km, h))"

definition km_supersede_active :: "'h km_core_t \<times> 'h \<Rightarrow> ('h km_core_t \<times> 'h) option" where
  "km_supersede_active = (\<lambda>(km, h).
     if km_active km then km_release_now KM_RELEASE_MANUAL (km, h) else Some (km, h))"

definition km_cpf_or_pal :: "'h km_core_t \<Rightarrow> 'h \<Rightarrow> int" where
  "km_cpf_or_pal km h =
     (let cpf = cycles_per_frame (km_host km) h in if cpf \<le> 0 then 19656 else cpf)"

definition no_args :: "string option \<Rightarrow> bool" where
  "no_args args = (args = None \<or> args = Some [])"

definition km_parse_args ::
    "string option \<Rightarrow> string \<Rightarrow> string + km_key_t list \<times> int" where
  \<comment> \<open>the argument checks the verbs share; an error is the text to print\<close>
  "km_parse_args args usage =
     (if no_args args then Inl usage
      else case km_copy_args (the args) 256 of
          None \<Rightarrow> Inl (out_line ''error: argument too long'')
        | Some buf \<Rightarrow> parse_key_list km_max_keys buf)"

section \<open>Monitor verbs\<close>

definition tap_usage :: string where
  "tap_usage = out_line ''usage: keymatrix tap <key> [<key> ...] [for <frames>]''"

definition km_core_tap ::
    "string option \<Rightarrow> 'h km_core_t \<times> 'h \<Rightarrow> ('h km_core_t \<times> 'h) option" where
  "km_core_tap args = (\<lambda>(km, h).
     case km_parse_args args tap_usage of
       Inl msg \<Rightarrow> Some (km, km_outf km msg h)
     | Inr (ks, for_frames) \<Rightarrow>
         if ks = [] then Some (km, km_outf km (out_line ''error: no keys specified'') h)
         else do {
           (km, h) \<leftarrow> km_supersede_active (km, h);
           keys \<leftarrow> km_copy_keys ks (length ks) (km_keys km);
           let km = km\<lparr>km_keys := keys, km_n_keys := length ks\<rparr>;
           h \<leftarrow> km_apply_bits km (km_keys km) (km_n_keys km) 1 h;
           let (mode, frames) =
             (if 0 < for_frames then (KM_MODE_TAP_FIXED, for_frames) else (KM_MODE_TAP_OBSERVED, KM_DEFAULT_TIMEOUT_FRAMES));
           let km = km\<lparr>km_mode := mode, cia1_reads_total := 0, cia1_reads_sampling := 0,
                 last_reason := KM_RELEASE_NONE, km_active := True,
                 press_clk := host_now (km_host km) h\<rparr>;
           let km = km\<lparr>timeout_clk := press_clk km + of_int frames * of_int (km_cpf_or_pal km h)\<rparr>;
           let h = set_alarm (km_host km) (timeout_clk km) h;
           Some (km, km_outf km (out_line (''keymatrix: tap '' @ show_nat (length ks) @ '' key'' @
             plural (length ks) @ '', mode='' @ km_mode_str (km_mode km) @ '', max '' @
             show_int frames @ '' frame'' @ plural (nat frames))) h)
         })"

definition press_usage :: string where
  "press_usage = out_line ''usage: keymatrix press <key> [<key> ...]''"

definition km_core_press ::
    "string option \<Rightarrow> 'h km_core_t \<times> 'h \<Rightarrow> ('h km_core_t \<times> 'h) option" where
  "km_core_press args = (\<lambda>(km, h).
     case km_parse_args args press_usage of
       Inl msg \<Rightarrow> Some (km, km_outf km msg h)
     | Inr (ks, for_frames) \<Rightarrow> do {
         let h = (if 0 < for_frames
                  then km_outf km (out_line (''note: '' @ quoted ''for <frames>'' @
                         '' has no effect on press; use '' @ quoted ''tap'' @ '' for that'')) h
                  else h);
         if ks = [] then Some (km, km_outf km (out_line ''error: no keys specified'') h)
         else do {
           (km, h) \<leftarrow> km_supersede_active (km, h);
           keys \<leftarrow> km_copy_keys ks (length ks) (km_keys km);
           let km = km\<lparr>km_keys := keys, km_n_keys := length ks\<rparr>;
           h \<leftarrow> km_apply_bits km (km_keys km) (km_n_keys km) 1 h;
           let km = km\<lparr>km_mode := KM_MODE_PRESS_STICKY, cia1_reads_total := 0,
                 cia1_reads_sampling := 0, last_reason := KM_RELEASE_NONE, km_active := True,
                 press_clk := host_now (km_host km) h\<rparr>;
           Some (km, km_outf km (out_line (''keymatrix: pressed '' @ show_nat (length ks) @ '' key'' @
             plural (length ks) @ '' (sticky; clear with '' @ quoted ''keymatrix release'' @ '')'')) h)
         }
       })"

definition same_key :: "km_key_t \<Rightarrow> km_key_t \<Rightarrow> bool" where
  "same_key a b = (row a = row b \<and> col a = col b)"

definition km_surviving :: "km_key_t list \<Rightarrow> nat \<Rightarrow> km_key_t list \<Rightarrow> km_key_t list option" where
  "km_surviving keys n dropped = for_each (\<lambda>j surviving. do {
     k \<leftarrow> aget keys j;
     Some (if list_ex (same_key k) dropped then surviving else surviving @ [k])
   }) [0..<n] []"

definition km_drop_released ::
    "km_key_t list \<Rightarrow> 'h km_core_t \<times> 'h \<Rightarrow> ('h km_core_t \<times> 'h) option" where
  "km_drop_released ks = (\<lambda>(km, h).
     if km_active km then do {
       surviving \<leftarrow> km_surviving (km_keys km) (km_n_keys km) ks;
       keys \<leftarrow> km_copy_keys surviving (length surviving) (km_keys km);
       let km = km\<lparr>km_n_keys := length surviving, km_keys := keys\<rparr>;
       if km_n_keys km = 0 then km_release_now KM_RELEASE_MANUAL (km, h) else Some (km, h)
     } else Some (km, h))"

definition km_core_release ::
    "string option \<Rightarrow> 'h km_core_t \<times> 'h \<Rightarrow> ('h km_core_t \<times> 'h) option" where
  "km_core_release args = (\<lambda>(km, h).
     if no_args args then do {
       (km, h) \<leftarrow> (if km_active km then km_release_now KM_RELEASE_MANUAL (km, h) else Some (km, h));
       let h = clear_keymatrix (km_host km) h;
       Some (km, km_outf km (out_line ''keymatrix: released all keys'') h)
     }
     else case km_parse_args args [] of
       Inl msg \<Rightarrow> Some (km, km_outf km msg h)
     | Inr (ks, for_frames) \<Rightarrow>
         if ks = [] then Some (km, km_outf km (out_line ''error: no keys specified'') h)
         else do {
           h \<leftarrow> km_apply_bits km ks (length ks) 0 h;
           (km, h) \<leftarrow> km_drop_released ks (km, h);
           Some (km, km_outf km (out_line (''keymatrix: released '' @ show_nat (length ks) @ '' key'' @
             plural (length ks))) h)
         })"

definition poke_usage :: string where
  "poke_usage = out_line ''usage: keymatrix poke <row> <col> <0|1>''"

definition poke_number :: "string \<Rightarrow> (int \<times> string) option" where
  \<comment> \<open>the next token read as a number; \<open>None\<close> is \<open>goto bad\<close>\<close>
  "poke_number buf =
     (case km_tok buf of
        (None, _) \<Rightarrow> None
      | (Some tok, rest) \<Rightarrow> let (v, e) = strtol tok 0 in if e \<noteq> [] then None else Some (v, rest))"

definition poke_parse :: "string \<Rightarrow> (int \<times> int \<times> int) option" where
  "poke_parse buf = do {
     (r, buf) \<leftarrow> poke_number buf;
     (c, buf) \<leftarrow> poke_number buf;
     (v, _) \<leftarrow> poke_number buf;
     if v \<noteq> 0 \<and> v \<noteq> 1 then None else Some (r, c, v)
   }"

definition km_core_poke :: "string option \<Rightarrow> 'h km_core_t \<times> 'h \<Rightarrow> 'h km_core_t \<times> 'h" where
  "km_core_poke args = (\<lambda>(km, h).
     (km,
      if no_args args then km_outf km poke_usage h
      else case km_copy_args (the args) 256 of
          None \<Rightarrow> km_outf km (out_line ''error: argument too long'') h
        | Some buf \<Rightarrow>
            (case poke_parse buf of
               None \<Rightarrow> km_outf km poke_usage h
             | Some (r, c, v) \<Rightarrow>
                 if c < 0 \<or> c > 7 \<or> r < - 8 \<or> r > 15
                 then km_outf km (out_line ''error: row must be -8..15, col must be 0..7'') h
                 else km_outf km (out_line (''keymatrix: poked ('' @ show_int r @ '','' @ show_int c @
                        '') <- '' @ show_int v)) (set_keyarr_any (km_host km) r c v h))))"

definition km_outs :: "'h km_core_t \<Rightarrow> string list \<Rightarrow> 'h \<Rightarrow> 'h" where
  "km_outs km ss h = fold (km_outf km) ss h"

definition on_off :: "int \<Rightarrow> string" where
  "on_off v = (if v \<noteq> 0 then ''on'' else ''off'')"

definition km_show_row :: "'h km_core_t \<Rightarrow> nat \<Rightarrow> 'h \<Rightarrow> 'h" where
  "km_show_row km r h =
     (let row_bits = get_keyarr (km_host km) (int r) h;
          h = km_outf km (''  r'' @ show_nat r @ '':  '') h;
          h = km_outs km (map (\<lambda>c. (if bit row_bits c then ''*'' else ''.'') @ '' '') [0..<8]) h
      in km_outf km (out_line '''') h)"

definition km_show_key :: "'h km_core_t \<Rightarrow> km_key_t list \<Rightarrow> nat \<Rightarrow> 'h \<Rightarrow> 'h option" where
  "km_show_key km ks i h = do {
     k \<leftarrow> aget ks i;
     Some (km_outf km (out_line (''  '' @ key_name k @ '' ('' @ show_int (row k) @ '','' @ show_int (col k) @ '')'')) h)
   }"

definition reads_line :: "u32 \<Rightarrow> u32 \<Rightarrow> string" where
  "reads_line n s = out_line (''  cia1 reads: '' @ show_nat (unat n) @ '' total, '' @
     show_nat (unat s) @ '' sampled injected bits'')"

definition km_core_show :: "'h km_core_t \<times> 'h \<Rightarrow> ('h km_core_t \<times> 'h) option" where
  "km_core_show = (\<lambda>(km, h). do {
     let h = km_outs km ([out_line ''keymatrix: live keyarr (rows down, cols right):'', ''       ''] @
           map (\<lambda>c. show_nat c @ '' '') [0..<8] @ [out_line '''']) h;
     let h = fold (km_show_row km) [0..<8] h;
     let h = km_outf km (out_line (''  RESTORE: '' @ on_off (custom_key_get (km_host km) KM_CUSTOM_RESTORE1 h) @
           ''   CAPSLOCK: '' @ on_off (custom_key_get (km_host km) KM_CUSTOM_CAPS h) @
           ''   4080: '' @ on_off (custom_key_get (km_host km) KM_CUSTOM_4080 h))) h;
     h \<leftarrow> (if km_active km then do {
            let h = km_outf km (CHR 0x0A # out_line (''active injection: '' @ km_mode_str (km_mode km) @ '', '' @
                  show_nat (km_n_keys km) @ '' key'' @ plural (km_n_keys km))) h;
            h \<leftarrow> for_each (km_show_key km (km_keys km)) [0..<km_n_keys km] h;
            Some (km_outf km (reads_line (cia1_reads_total km) (cia1_reads_sampling km)) h)
          } else Some (km_outf km (CHR 0x0A # out_line ''no active injection'') h));
     let l = km_last km;
     h \<leftarrow> (if last_valid l then do {
            let h = km_outf km (CHR 0x0A # out_line (''last tap: '' @ show_nat (last_n_keys l) @ '' key'' @
                  plural (last_n_keys l) @ '' ('' @ km_mode_str (last_mode l) @ '')'')) h;
            h \<leftarrow> for_each (km_show_key km (last_keys l)) [0..<last_n_keys l] h;
            let h = km_outf km (out_line (''  released after '' @ show_nat (unat (last_frames_held l)) @
                  '' frame'' @ plural (unat (last_frames_held l)) @ ''; reason: '' @
                  km_reason_str (last_release l))) h;
            Some (km_outf km (reads_line (last_reads_total l) (last_reads_sampling l)) h)
          } else Some h);
     Some (km, h)
   })"

definition km_name_step :: "'h km_core_t \<Rightarrow> string \<times> int \<times> int \<times> int \<Rightarrow> nat \<times> 'h \<Rightarrow> nat \<times> 'h" where
  "km_name_step km e = (\<lambda>(column, h).
     let h = km_outf km (pad_right 12 (fst e)) h;
         column = column + 1
     in if column = 5 then (0, km_outf km (CHR 0x0A # ''  '') h) else (column, h))"

definition km_core_names :: "'h km_core_t \<times> 'h \<Rightarrow> 'h km_core_t \<times> 'h" where
  "km_core_names = (\<lambda>(km, h).
     let h = km_outf km (out_line ''keymatrix: known C64 key names (case-insensitive):'' @ ''  '') h;
         (column, h) = fold (km_name_step km) c64_keys (0, h);
         h = (if column \<noteq> 0 then km_outf km (out_line '''') h else h);
         h = km_outf km (CHR 0x0A # out_line (''  Use '' @ quoted ''keymatrix poke <row> <col> <0|1>'' @
               '' for raw matrix bits.'')) h
     in (km, km_outf km (out_line (''  Combine names for chords, e.g. '' @
               quoted ''keymatrix tap lshift a'' @ ''.'')) h))"

section \<open>CIA read hooks\<close>

definition km_observe :: "bool \<Rightarrow> 'h km_core_t \<times> 'h \<Rightarrow> 'h km_core_t \<times> 'h" where
  "km_observe sampled = (\<lambda>(km, h).
     if sampled then
       let km = km\<lparr>cia1_reads_sampling := cia1_reads_sampling km + 1\<rparr>
       in if km_mode km = KM_MODE_TAP_OBSERVED \<and> last_reason km = KM_RELEASE_NONE
          then (km\<lparr>last_reason := KM_RELEASE_OBSERVED\<rparr>,
                set_alarm (km_host km) (host_now (km_host km) h + 1) h)
          else (km, h)
     else (km, h))"

definition km_line_sampled :: "(km_key_t \<Rightarrow> int) \<Rightarrow> km_key_t list \<Rightarrow> nat \<Rightarrow> u8 \<Rightarrow> bool option" where
  \<comment> \<open>does the scan mask drive, active low, the row (or column) of an injected matrix key\<close>
  "km_line_sampled line keys n m = for_each (\<lambda>i sampled.
     if sampled then Some True
     else do {
       k \<leftarrow> aget keys i;
       if kind k \<noteq> 0 then Some False
       else if line k < 0 \<or> line k > 7 then Some False
       else Some (\<not> bit m (nat (line k)))
     }) [0..<n] False"

definition km_core_cia1_pa_read :: "u8 \<Rightarrow> 'h km_core_t \<times> 'h \<Rightarrow> ('h km_core_t \<times> 'h) option" where
  "km_core_cia1_pa_read row_scan_mask = (\<lambda>(km, h).
     if \<not> km_active km then Some (km, h)
     else do {
       let km = km\<lparr>cia1_reads_total := cia1_reads_total km + 1\<rparr>;
       sampled \<leftarrow> km_line_sampled row (km_keys km) (km_n_keys km) row_scan_mask;
       Some (km_observe sampled (km, h))
     })"

definition km_core_cia1_pb_read :: "u8 \<Rightarrow> 'h km_core_t \<times> 'h \<Rightarrow> ('h km_core_t \<times> 'h) option" where
  "km_core_cia1_pb_read col_scan_mask = (\<lambda>(km, h).
     if \<not> km_active km then Some (km, h)
     else do {
       let km = km\<lparr>cia1_reads_total := cia1_reads_total km + 1\<rparr>;
       sampled \<leftarrow> km_line_sampled col (km_keys km) (km_n_keys km) col_scan_mask;
       Some (km_observe sampled (km, h))
     })"

section \<open>Binary monitor\<close>

definition put_le16 :: "u16 \<Rightarrow> u8 list" where
  "put_le16 v = [ucast v, ucast (drop_bit 8 v)]"

definition put_le32 :: "u32 \<Rightarrow> u8 list" where
  "put_le32 v = [ucast v, ucast (drop_bit 8 v), ucast (drop_bit 16 v), ucast (drop_bit 24 v)]"

definition km_core_binmon_set ::
    "u8 list \<Rightarrow> u32 \<Rightarrow> 'h km_core_t \<times> 'h \<Rightarrow> (int \<times> 'h km_core_t \<times> 'h) option" where
  "km_core_binmon_set body len = (\<lambda>(km, h).
     if len < 1 then Some (- 1, km, h)
     else do {
       count \<leftarrow> aget body 0;
       if len < 1 + ucast count * 3 then Some (- 1, km, h)
       else do {
         h \<leftarrow> for_each (\<lambda>i h. do {
             r \<leftarrow> aget body (1 + i * 3);
             c \<leftarrow> aget body (1 + i * 3 + 1);
             v \<leftarrow> aget body (1 + i * 3 + 2);
             Some (set_keyarr_any (km_host km) (sint r) (sint c) (if v \<noteq> 0 then 1 else 0) h)
           }) [0..<unat count] h;
         Some (0, km, h)
       }
     })"

definition binmon_key :: "u8 \<Rightarrow> u8 \<Rightarrow> km_key_t" where
  "binmon_key r c = \<lparr>row = sint r, col = sint c, kind = (if sint r < 0 then 1 else 0),
     key_name = vsnprintf 16 (show_int (sint r) @ '','' @ show_int (sint c))\<rparr>"

definition frames_or_default :: "u16 \<Rightarrow> int" where
  "frames_or_default frames = (if 0 < frames then uint frames else KM_DEFAULT_TIMEOUT_FRAMES)"

definition km_core_binmon_tap ::
    "u8 list \<Rightarrow> u32 \<Rightarrow> 'h km_core_t \<times> 'h \<Rightarrow> (int \<times> 'h km_core_t \<times> 'h) option" where
  "km_core_binmon_tap body len = (\<lambda>(km, h).
     if len < 4 then Some (- 1, km, h)
     else do {
       mode \<leftarrow> aget body 0;
       f0 \<leftarrow> aget body 1;
       f1 \<leftarrow> aget body 2;
       count \<leftarrow> aget body 3;
       let frames = (ucast f0 OR push_bit 8 (ucast f1) :: u16);
       if len < 4 + ucast count * 2 then Some (- 1, km, h)
       else if count = 0 \<or> 16 < count then Some (- 1, km, h)
       else do {
         (km, h) \<leftarrow> km_supersede_active (km, h);
         keys \<leftarrow> for_each (\<lambda>i keys. do {
             r \<leftarrow> aget body (4 + i * 2);
             c \<leftarrow> aget body (4 + i * 2 + 1);
             aset keys i (binmon_key r c)
           }) [0..<unat count] (km_keys km);
         let km = km\<lparr>km_keys := keys, km_n_keys := unat count\<rparr>;
         h \<leftarrow> km_apply_bits km (km_keys km) (km_n_keys km) 1 h;
         let km = km\<lparr>km_mode := (if mode = 1 then KM_MODE_TAP_FIXED else KM_MODE_TAP_OBSERVED),
               cia1_reads_total := 0, cia1_reads_sampling := 0, last_reason := KM_RELEASE_NONE,
               km_active := True, press_clk := host_now (km_host km) h\<rparr>;
         let km = km\<lparr>timeout_clk := press_clk km + of_int (frames_or_default frames) * of_int (km_cpf_or_pal km h)\<rparr>;
         Some (0, km, set_alarm (km_host km) (timeout_clk km) h)
       }
     })"

definition km_custom_bits :: "'h km_core_t \<Rightarrow> 'h \<Rightarrow> u8" where
  "km_custom_bits km h =
     (let b = (\<lambda>id i. if custom_key_get (km_host km) id h \<noteq> 0 then push_bit i 1 else 0)
      in b KM_CUSTOM_RESTORE1 0 OR b KM_CUSTOM_RESTORE2 1 OR b KM_CUSTOM_CAPS 2 OR b KM_CUSTOM_4080 3)"

definition km_frames_left :: "'h km_core_t \<Rightarrow> 'h \<Rightarrow> u16" where
  "km_frames_left km h =
     (if km_active km \<and> host_now (km_host km) h < timeout_clk km then
        let cpf = cycles_per_frame (km_host km) h
        in if 0 < cpf then
             let f = (timeout_clk km - host_now (km_host km) h) div of_int cpf
             in if 65535 < f then 65535 else ucast f
           else 0
      else 0)"

definition km_get_response :: "'h km_core_t \<Rightarrow> 'h \<Rightarrow> u8 list" where
  "km_get_response km h =
     map (\<lambda>i. of_int (get_keyarr (km_host km) (int i) h AND 0xff)) [0..<8] @
     [km_custom_bits km h, 0, 0, 0] @
     (let l = km_last km in
      if km_active km then put_le32 (cia1_reads_total km) @ put_le32 (cia1_reads_sampling km) @
        [reason_code (last_reason km), of_nat (km_n_keys km)]
      else if last_valid l then put_le32 (last_reads_total l) @ put_le32 (last_reads_sampling l) @
        [reason_code (last_release l), of_nat (last_n_keys l)]
      else put_le32 0 @ put_le32 0 @ [0, 0]) @
     put_le16 (km_frames_left km h)"

definition km_core_binmon_get ::
    "u8 list option \<Rightarrow> u32 option \<Rightarrow> 'h km_core_t \<times> 'h \<Rightarrow> (int \<times> u8 list option \<times> u32 option) option" where
  \<comment> \<open>the result, the response buffer and its length; core and host are only read\<close>
  "km_core_binmon_get out out_length = (\<lambda>(km, h).
     if out = None \<or> out_length = None then Some (- 1, out, out_length)
     else if the out_length < KM_BINMON_GET_RESPONSE_SIZE then Some (- 1, out, out_length)
     else do {
       buf \<leftarrow> aput (the out) 0 (km_get_response km h);
       Some (0, Some buf, Some KM_BINMON_GET_RESPONSE_SIZE)
     })"


section \<open>Closed forms of the loops\<close>

lemma for_each_aget:
  "n \<le> length xs \<Longrightarrow>
     for_each (\<lambda>i s. aget xs i \<bind> (\<lambda>x. Some (g x s))) [0..<n] s = Some (fold g (take n xs) s)"
  by (induction n) (simp_all add: for_each_append aget_def take_Suc_conv_app_nth)

lemma km_copy_keys_Some:
  "n \<le> length src \<Longrightarrow> n \<le> length dst \<Longrightarrow>
     km_copy_keys src n dst = Some (take n src @ drop n dst)"
proof (induction n)
  case 0
  then show ?case by (simp add: km_copy_keys_def)
next
  case (Suc n)
  then have "km_copy_keys src (Suc n) dst = aset (take n src @ drop n dst) n (src ! n)"
    by (simp add: km_copy_keys_def for_each_append aget_def split: bind_splits)
  also have "\<dots> = Some (take (Suc n) src @ drop (Suc n) dst)"
    using Suc.prems by (simp add: aset_def take_Suc_conv_app_nth list_update_append
        Cons_nth_drop_Suc [symmetric])
  finally show ?case .
qed

lemma km_apply_bits_Some:
  "n \<le> length ks \<Longrightarrow>
     km_apply_bits km ks n v h =
       Some (fold (\<lambda>k. set_keyarr_any (km_host km) (row k) (col k) v) (take n ks) h)"
  unfolding km_apply_bits_def by (rule for_each_aget)

lemma fold_filter: "fold (\<lambda>k ys. if P k then ys else ys @ [k]) xs acc = acc @ filter (\<lambda>k. \<not> P k) xs"
  by (induction xs arbitrary: acc) auto

lemma km_surviving_Some:
  "n \<le> length ks \<Longrightarrow>
     km_surviving ks n dropped = Some (filter (\<lambda>k. \<not> list_ex (same_key k) dropped) (take n ks))"
  unfolding km_surviving_def by (simp add: for_each_aget fold_filter)

definition line_hit :: "(km_key_t \<Rightarrow> int) \<Rightarrow> u8 \<Rightarrow> km_key_t \<Rightarrow> bool" where
  "line_hit line m k \<longleftrightarrow> kind k = 0 \<and> 0 \<le> line k \<and> line k \<le> 7 \<and> \<not> bit m (nat (line k))"

lemma km_line_sampled_Some:
  "n \<le> length ks \<Longrightarrow> km_line_sampled line ks n m = Some (list_ex (line_hit line m) (take n ks))"
  by (induction n)
    (auto simp: km_line_sampled_def for_each_append aget_def take_Suc_conv_app_nth line_hit_def)

lemma km_show_keys_Some:
  "n \<le> length ks \<Longrightarrow> \<exists>ss. for_each (km_show_key km ks) [0..<n] h = Some (km_outs km ss h)"
proof (induction n)
  case 0
  show ?case by (rule exI [of _ "[]"]) (simp add: km_outs_def)
next
  case (Suc n)
  then obtain ss where "for_each (km_show_key km ks) [0..<n] h = Some (km_outs km ss h)" by auto
  moreover have "km_show_key km ks n h' =
      Some (km_outs km [out_line (''  '' @ key_name (ks ! n) @ '' ('' @ show_int (row (ks ! n)) @ '','' @
        show_int (col (ks ! n)) @ '')'')] h')" for h'
    using Suc.prems by (simp add: km_show_key_def aget_def km_outs_def)
  ultimately have "for_each (km_show_key km ks) [0..<Suc n] h =
      Some (km_outs km (ss @ [out_line (''  '' @ key_name (ks ! n) @ '' ('' @ show_int (row (ks ! n)) @ '','' @
        show_int (col (ks ! n)) @ '')'')]) h)"
    by (simp add: for_each_append km_outs_def)
  then show ?case by blast
qed

text \<open>\<open>show\<close> and \<open>names\<close> only print.\<close>

lemma km_outs_append: "km_outs km ts (km_outs km ss h) = km_outs km (ss @ ts) h"
  by (simp add: km_outs_def)

lemma km_outf_outs: "km_outf km s h = km_outs km [s] h"
  by (simp add: km_outs_def)

lemma km_show_row_outs: "\<exists>ss. km_show_row km r h = km_outs km ss h"
  by (simp add: km_show_row_def Let_def km_outf_outs km_outs_append) blast

lemma km_show_rows_outs: "\<exists>ss. fold (km_show_row km) rs h = km_outs km ss h"
proof (induction rs arbitrary: h)
  case Nil
  show ?case by (rule exI [of _ "[]"]) (simp add: km_outs_def)
next
  case (Cons r rs)
  obtain ss where "km_show_row km r h = km_outs km ss h" using km_show_row_outs [of km r h] by blast
  moreover obtain ts where "fold (km_show_row km) rs (km_outs km ss h) = km_outs km ts (km_outs km ss h)"
    using Cons.IH by blast
  ultimately show ?case by (auto simp: km_outs_append)
qed

lemma km_core_show_outs:
  assumes "km_n_keys km \<le> length (km_keys km)" "last_n_keys (km_last km) \<le> length (last_keys (km_last km))"
  shows "\<exists>ss. km_core_show (km, h) = Some (km, km_outs km ss h)"
proof -
  have keys: "\<exists>ss. for_each (km_show_key km (km_keys km)) [0..<km_n_keys km] h = Some (km_outs km ss h)" for h
    by (rule km_show_keys_Some [OF assms(1)])
  have last: "\<exists>ss. for_each (km_show_key km (last_keys (km_last km))) [0..<last_n_keys (km_last km)] h
      = Some (km_outs km ss h)" for h
    by (rule km_show_keys_Some [OF assms(2)])
  obtain kf where kf: "\<And>h. for_each (km_show_key km (km_keys km)) [0..<km_n_keys km] h = Some (km_outs km (kf h) h)"
    using keys by metis
  obtain lf where lf: "\<And>h. for_each (km_show_key km (last_keys (km_last km))) [0..<last_n_keys (km_last km)] h
      = Some (km_outs km (lf h) h)"
    using last by metis
  obtain rf where rf: "\<And>h. fold (km_show_row km) [0..<8] h = km_outs km (rf h) h"
    using km_show_rows_outs [of km "[0..<8]"] by metis
  show ?thesis
    by (simp add: km_core_show_def Let_def km_outf_outs km_outs_append kf lf rf del: upt_Suc) blast
qed

lemma km_name_step_outs: "\<exists>ss n. km_name_step km e (i, h) = (n, km_outs km ss h)"
  by (simp add: km_name_step_def Let_def km_outf_outs km_outs_append) blast

lemma km_names_outs: "\<exists>ss n. fold (km_name_step km) es (i, h) = (n, km_outs km ss h)"
proof (induction es arbitrary: i h)
  case Nil
  show ?case by (intro exI [of _ "[]"]) (simp add: km_outs_def)
next
  case (Cons e es)
  obtain ss n where "km_name_step km e (i, h) = (n, km_outs km ss h)" using km_name_step_outs [of km e i h] by blast
  moreover obtain ts m where "fold (km_name_step km) es (n, km_outs km ss h) = (m, km_outs km ts (km_outs km ss h))"
    using Cons.IH by blast
  ultimately show ?case by (auto simp: km_outs_append)
qed

lemma km_core_names_outs: "\<exists>ss. km_core_names (km, h) = (km, km_outs km ss h)"
proof -
  have "\<forall>h. \<exists>ss n. fold (km_name_step km) c64_keys (0, h) = (n, km_outs km ss h)"
    by (intro allI km_names_outs)
  then obtain nf sf where f: "\<And>h. fold (km_name_step km) c64_keys (0, h) = (nf h, km_outs km (sf h) h)"
    by metis
  show ?thesis
    by (simp add: km_core_names_def Let_def km_outf_outs km_outs_append f) blast
qed

end
