(* ===== verification/Keymatrix_Spec.thy ===== *)
theory Keymatrix_Spec
  imports Keymatrix
begin

unbundle bit_operations_syntax

text \<open>
  The contract of the injection core, with no arrays, no text and no host: at most one injection,
  a report of the last one, and the keyboard it acts on (which positions are down, the release
  alarm, the clock). The interface \<open>km_keyboard\<close> states what the core relies on in its host;
  inside it every operation of the code is shown to implement the contract.
\<close>

section \<open>Specification\<close>

record km_injection =
  inj_keys :: "km_key_t list"
  inj_mode :: km_mode
  inj_total :: u32
  inj_sampling :: u32
  inj_reason :: km_release_reason
  inj_press :: u64

record km_report =
  rep_keys :: "km_key_t list"
  rep_mode :: km_mode
  rep_total :: u32
  rep_sampling :: u32
  rep_reason :: km_release_reason
  rep_frames :: u16

record km_spec =
  sp_inj :: "km_injection option"
  sp_report :: "km_report option"
  sp_timeout :: u64

record km_world =
  w_pressed :: "int \<Rightarrow> int \<Rightarrow> bool"
  w_alarm :: "u64 option"
  w_now :: u64
  w_cpf :: int

datatype km_op =
    Tap "string option" | Press "string option" | Release "string option" | Poke "string option"
  | Show | Names | Pa_Read u8 | Pb_Read u8 | Alarm
  | Bin_Set "u8 list" u32 | Bin_Tap "u8 list" u32

definition at_key :: "int \<Rightarrow> int \<Rightarrow> km_key_t \<Rightarrow> bool" where
  "at_key r c k \<longleftrightarrow> row k = r \<and> col k = c"

definition sp_drive ::
    "(int \<Rightarrow> int \<Rightarrow> bool) \<Rightarrow> km_key_t list \<Rightarrow> bool \<Rightarrow> km_world \<Rightarrow> km_world" where
  "sp_drive wired ks v w = w\<lparr>w_pressed := (\<lambda>r c.
     if wired r c \<and> list_ex (at_key r c) ks then v else w_pressed w r c)\<rparr>"

definition sp_release_now ::
    "(int \<Rightarrow> int \<Rightarrow> bool) \<Rightarrow> km_release_reason \<Rightarrow> km_spec \<times> km_world \<Rightarrow> km_spec \<times> km_world" where
  "sp_release_now wired reason = (\<lambda>(s, w).
     case sp_inj s of None \<Rightarrow> (s, w)
     | Some i \<Rightarrow>
         (s\<lparr>sp_inj := None, sp_report := Some \<lparr>rep_keys = inj_keys i, rep_mode = inj_mode i,
              rep_total = inj_total i, rep_sampling = inj_sampling i,
              rep_reason = (if inj_reason i \<noteq> KM_RELEASE_NONE then inj_reason i else reason),
              rep_frames = frames_held (w_cpf w) (w_now w) (inj_press i)\<rparr>\<rparr>,
          (sp_drive wired (inj_keys i) False w)\<lparr>w_alarm := None\<rparr>))"

definition sp_inject ::
    "(int \<Rightarrow> int \<Rightarrow> bool) \<Rightarrow> km_key_t list \<Rightarrow> km_mode \<Rightarrow> km_spec \<times> km_world \<Rightarrow> km_spec \<times> km_world" where
  "sp_inject wired ks mode sw =
     (let (s, w) = sp_release_now wired KM_RELEASE_MANUAL sw
      in (s\<lparr>sp_inj := Some \<lparr>inj_keys = ks, inj_mode = mode, inj_total = 0, inj_sampling = 0,
              inj_reason = KM_RELEASE_NONE, inj_press = w_now w\<rparr>\<rparr>,
          sp_drive wired ks True w))"

definition sp_arm :: "int \<Rightarrow> km_spec \<times> km_world \<Rightarrow> km_spec \<times> km_world" where
  \<comment> \<open>the timeout of a tap, a number of frames after now\<close>
  "sp_arm frames = (\<lambda>(s, w).
     let t = w_now w + of_int frames * of_int (if w_cpf w \<le> 0 then 19656 else w_cpf w)
     in (s\<lparr>sp_timeout := t\<rparr>, w\<lparr>w_alarm := Some t\<rparr>))"

definition sp_tap ::
    "(int \<Rightarrow> int \<Rightarrow> bool) \<Rightarrow> km_key_t list \<Rightarrow> km_mode \<Rightarrow> int \<Rightarrow> km_spec \<times> km_world \<Rightarrow> km_spec \<times> km_world" where
  "sp_tap wired ks mode frames sw = sp_arm frames (sp_inject wired ks mode sw)"

definition sp_release_keys ::
    "(int \<Rightarrow> int \<Rightarrow> bool) \<Rightarrow> km_key_t list \<Rightarrow> km_spec \<times> km_world \<Rightarrow> km_spec \<times> km_world" where
  "sp_release_keys wired ks = (\<lambda>(s, w).
     let w = sp_drive wired ks False w
     in case sp_inj s of None \<Rightarrow> (s, w)
        | Some i \<Rightarrow>
            let keep = filter (\<lambda>k. \<not> list_ex (same_key k) ks) (inj_keys i);
                s = s\<lparr>sp_inj := Some (i\<lparr>inj_keys := keep\<rparr>)\<rparr>
            in if keep = [] then sp_release_now wired KM_RELEASE_MANUAL (s, w) else (s, w))"

definition sp_release_all ::
    "(int \<Rightarrow> int \<Rightarrow> bool) \<Rightarrow> km_spec \<times> km_world \<Rightarrow> km_spec \<times> km_world" where
  "sp_release_all wired sw =
     (let (s, w) = sp_release_now wired KM_RELEASE_MANUAL sw
      in (s, w\<lparr>w_pressed := (\<lambda>r c. r < 0 \<and> w_pressed w r c)\<rparr>))"

definition sp_read :: "(km_key_t \<Rightarrow> bool) \<Rightarrow> km_spec \<times> km_world \<Rightarrow> km_spec \<times> km_world" where
  \<comment> \<open>a scan of the matrix in which the keys selected by \<open>hit\<close> are visible\<close>
  "sp_read hit = (\<lambda>(s, w).
     case sp_inj s of None \<Rightarrow> (s, w)
     | Some i \<Rightarrow>
         let i = i\<lparr>inj_total := inj_total i + 1\<rparr>
         in if \<not> list_ex hit (inj_keys i) then (s\<lparr>sp_inj := Some i\<rparr>, w)
            else
              let i = i\<lparr>inj_sampling := inj_sampling i + 1\<rparr>
              in if inj_mode i = KM_MODE_TAP_OBSERVED \<and> inj_reason i = KM_RELEASE_NONE
                 then (s\<lparr>sp_inj := Some (i\<lparr>inj_reason := KM_RELEASE_OBSERVED\<rparr>)\<rparr>,
                       w\<lparr>w_alarm := Some (w_now w + 1)\<rparr>)
                 else (s\<lparr>sp_inj := Some i\<rparr>, w))"

definition sp_keys :: "string option \<Rightarrow> (km_key_t list \<times> int) option" where
  \<comment> \<open>the keys of an argument line; \<open>None\<close> when it is rejected with a message\<close>
  "sp_keys args =
     (if no_args args \<or> 256 \<le> length (the args) then None
      else case parse_words km_max_keys (line_words (the args)) [] (- 1) of
          Inl _ \<Rightarrow> None | Inr (ks, f) \<Rightarrow> if ks = [] then None else Some (ks, f))"

fun set_items :: "u8 list \<Rightarrow> (int \<times> int \<times> bool) list" where
  "set_items (r # c # v # bs) = (sint r, sint c, v \<noteq> 0) # set_items bs"
| "set_items _ = []"

fun tap_items :: "u8 list \<Rightarrow> km_key_t list" where
  "tap_items (r # c # bs) = binmon_key r c # tap_items bs"
| "tap_items _ = []"

definition sp_set_items ::
    "(int \<Rightarrow> int \<Rightarrow> bool) \<Rightarrow> (int \<times> int \<times> bool) list \<Rightarrow> km_world \<Rightarrow> km_world" where
  "sp_set_items wired is = fold (\<lambda>(r, c, v). sp_drive wired [\<lparr>row = r, col = c, kind = 0, key_name = []\<rparr>] v) is"

definition bin_set_ok :: "u8 list \<Rightarrow> u32 \<Rightarrow> bool" where
  "bin_set_ok body len \<longleftrightarrow> 1 \<le> unat len \<and> 1 + 3 * unat (body ! 0) \<le> unat len"

definition bin_tap_ok :: "u8 list \<Rightarrow> u32 \<Rightarrow> bool" where
  "bin_tap_ok body len \<longleftrightarrow> 4 \<le> unat len \<and> 4 + 2 * unat (body ! 3) \<le> unat len \<and>
     1 \<le> unat (body ! 3) \<and> unat (body ! 3) \<le> 16"

definition bin_frames :: "u8 list \<Rightarrow> int" where
  "bin_frames body = (let f = le_val [body ! 1, body ! 2] in if f = 0 then 60 else int f)"

definition sp_do ::
    "(int \<Rightarrow> int \<Rightarrow> bool) \<Rightarrow> km_op \<Rightarrow> km_spec \<times> km_world \<Rightarrow> km_spec \<times> km_world" where
  "sp_do wired op sw = (case op of
     Tap args \<Rightarrow> (case sp_keys args of None \<Rightarrow> sw
       | Some (ks, f) \<Rightarrow> if 0 < f then sp_tap wired ks KM_MODE_TAP_FIXED f sw
                        else sp_tap wired ks KM_MODE_TAP_OBSERVED 60 sw)
   | Press args \<Rightarrow> (case sp_keys args of None \<Rightarrow> sw
       | Some (ks, _) \<Rightarrow> sp_inject wired ks KM_MODE_PRESS_STICKY sw)
   | Release args \<Rightarrow>
       if no_args args then sp_release_all wired sw
       else (case sp_keys args of None \<Rightarrow> sw | Some (ks, _) \<Rightarrow> sp_release_keys wired ks sw)
   | Poke args \<Rightarrow>
       (if no_args args \<or> 256 \<le> length (the args) then sw
        else case poke_parse (the args) of
            None \<Rightarrow> sw
          | Some (r, c, v) \<Rightarrow> if c \<in> {0..7} \<and> r \<in> {-8..15}
              then (fst sw, sp_set_items wired [(r, c, v \<noteq> 0)] (snd sw)) else sw)
   | Show \<Rightarrow> sw | Names \<Rightarrow> sw
   | Pa_Read m \<Rightarrow> sp_read (line_hit row m) sw
   | Pb_Read m \<Rightarrow> sp_read (line_hit col m) sw
   | Alarm \<Rightarrow> sp_release_now wired KM_RELEASE_TIMEOUT sw
   | Bin_Set body len \<Rightarrow>
       if bin_set_ok body len
       then (fst sw, sp_set_items wired (set_items (take (3 * unat (body ! 0)) (drop 1 body))) (snd sw))
       else sw
   | Bin_Tap body len \<Rightarrow>
       if bin_tap_ok body len
       then sp_tap wired (tap_items (take (2 * unat (body ! 3)) (drop 4 body)))
              (if body ! 0 = 1 then KM_MODE_TAP_FIXED else KM_MODE_TAP_OBSERVED) (bin_frames body) sw
       else sw)"

section \<open>The invariant of the specification\<close>

definition inj_ok :: "km_injection \<Rightarrow> bool" where
  "inj_ok i \<longleftrightarrow> inj_keys i \<noteq> [] \<and> inj_mode i \<noteq> KM_MODE_IDLE \<and>
     (inj_reason i = KM_RELEASE_NONE \<or>
      inj_reason i = KM_RELEASE_OBSERVED \<and> inj_mode i = KM_MODE_TAP_OBSERVED)"

definition sp_inv :: "km_spec \<times> km_world \<Rightarrow> bool" where
  "sp_inv = (\<lambda>(s, w). case sp_inj s of
     None \<Rightarrow> w_alarm w = None
   | Some i \<Rightarrow> inj_ok i \<and>
       (if inj_mode i = KM_MODE_PRESS_STICKY then w_alarm w = None
        else w_alarm w \<noteq> None \<and> (inj_reason i = KM_RELEASE_NONE \<longrightarrow> w_alarm w = Some (sp_timeout s))))"

lemma sp_drive_simps [simp]:
  "w_alarm (sp_drive wired ks v w) = w_alarm w" "w_now (sp_drive wired ks v w) = w_now w"
  "w_cpf (sp_drive wired ks v w) = w_cpf w"
  by (simp_all add: sp_drive_def)

lemma sp_set_items_simps [simp]: "w_alarm (sp_set_items wired is w) = w_alarm w"
  by (induction "is" arbitrary: w) (auto simp: sp_set_items_def)

lemma release_now_inv:
  assumes "sp_inv (s, w)" "sp_release_now wired reason (s, w) = (s', w')"
  shows "sp_inj s' = None \<and> w_alarm w' = None \<and> sp_inv (s', w')"
  using assms by (cases "sp_inj s") (auto simp: sp_release_now_def sp_inv_def)

lemma inject_inv:
  assumes "sp_inv (s, w)" "sp_inject wired ks mode (s, w) = (s', w')"
  shows "w_alarm w' = None \<and> (\<exists>i. sp_inj s' = Some i \<and> inj_keys i = ks \<and> inj_mode i = mode \<and>
    inj_reason i = KM_RELEASE_NONE \<and> inj_press i = w_now w)"
proof -
  obtain s1 w1 where r: "sp_release_now wired KM_RELEASE_MANUAL (s, w) = (s1, w1)" by force
  then have "w_now w1 = w_now w" by (auto simp: sp_release_now_def split: option.splits)
  with release_now_inv [OF assms(1) r] r assms(2) show ?thesis
    by (auto simp: sp_inject_def)
qed

lemma press_inv:
  "sp_inv (s, w) \<Longrightarrow> ks \<noteq> [] \<Longrightarrow> sp_inv (sp_inject wired ks KM_MODE_PRESS_STICKY (s, w))"
  using inject_inv [of s w wired ks KM_MODE_PRESS_STICKY]
  by (cases "sp_inject wired ks KM_MODE_PRESS_STICKY (s, w)") (auto simp: sp_inv_def inj_ok_def)

lemma tap_inv:
  assumes "sp_inv (s, w)" "ks \<noteq> []" "mode = KM_MODE_TAP_FIXED \<or> mode = KM_MODE_TAP_OBSERVED"
  shows "sp_inv (sp_tap wired ks mode frames (s, w))"
  using assms(2,3) inject_inv [OF assms(1), of wired ks mode]
  by (cases "sp_inject wired ks mode (s, w)")
    (auto simp: sp_tap_def sp_arm_def Let_def sp_inv_def inj_ok_def)

lemma release_keys_inv:
  assumes "sp_inv (s, w)"
  shows "sp_inv (sp_release_keys wired ks (s, w))"
  using assms
  by (cases "sp_inj s")
    (auto simp: sp_release_keys_def sp_release_now_def sp_inv_def inj_ok_def Let_def)

lemma read_inv:
  assumes "sp_inv (s, w)"
  shows "sp_inv (sp_read hit (s, w))"
  using assms
  by (cases "sp_inj s") (auto simp: sp_read_def sp_inv_def inj_ok_def Let_def)

lemma release_all_inv:
  assumes "sp_inv (s, w)"
  shows "sp_inv (sp_release_all wired (s, w))"
  using release_now_inv [OF assms, of wired KM_RELEASE_MANUAL]
  by (cases "sp_release_now wired KM_RELEASE_MANUAL (s, w)")
    (auto simp: sp_release_all_def sp_inv_def)

lemma sp_keys_nonempty: "sp_keys args = Some (ks, f) \<Longrightarrow> ks \<noteq> []"
  by (auto simp: sp_keys_def split: if_splits sum.splits)

lemma world_only_inv: "sp_inv (s, w) \<Longrightarrow> w_alarm w' = w_alarm w \<Longrightarrow> sp_inv (s, w')"
  by (auto simp: sp_inv_def split: option.splits)

lemma tap_items_nonempty:
  "bin_tap_ok body len \<Longrightarrow> unat len \<le> length body \<Longrightarrow>
     tap_items (take (2 * unat (body ! 3)) (drop 4 body)) \<noteq> []"
proof -
  assume "bin_tap_ok body len" "unat len \<le> length body"
  then have "2 \<le> length (take (2 * unat (body ! 3)) (drop 4 body))" by (auto simp: bin_tap_ok_def)
  then obtain r c bs where "take (2 * unat (body ! 3)) (drop 4 body) = r # c # bs"
    by (metis One_nat_def Suc_1 Suc_le_length_iff)
  then show ?thesis by simp
qed

section \<open>The code's state and the specification's\<close>

definition km_do :: "km_op \<Rightarrow> 'h km_core_t \<times> 'h \<Rightarrow> ('h km_core_t \<times> 'h) option" where
  "km_do op st = (case op of
     Tap args \<Rightarrow> km_core_tap args st | Press args \<Rightarrow> km_core_press args st
   | Release args \<Rightarrow> km_core_release args st | Poke args \<Rightarrow> Some (km_core_poke args st)
   | Show \<Rightarrow> km_core_show st | Names \<Rightarrow> Some (km_core_names st)
   | Pa_Read m \<Rightarrow> km_core_cia1_pa_read m st | Pb_Read m \<Rightarrow> km_core_cia1_pb_read m st
   | Alarm \<Rightarrow> km_core_on_alarm st
   | Bin_Set body len \<Rightarrow> map_option snd (km_core_binmon_set body len st)
   | Bin_Tap body len \<Rightarrow> map_option snd (km_core_binmon_tap body len st))"

definition op_ok :: "km_op \<Rightarrow> bool" where
  \<comment> \<open>what a caller guarantees: strings have no NUL inside, a body has the length given\<close>
  "op_ok op \<longleftrightarrow> (case op of
     Tap args \<Rightarrow> pred_option c_string args | Press args \<Rightarrow> pred_option c_string args
   | Release args \<Rightarrow> pred_option c_string args | Poke args \<Rightarrow> pred_option c_string args
   | Bin_Set body len \<Rightarrow> unat len \<le> length body | Bin_Tap body len \<Rightarrow> unat len \<le> length body
   | _ \<Rightarrow> True)"

definition km_wf :: "'h km_host_t \<Rightarrow> 'h km_core_t \<Rightarrow> bool" where
  "km_wf host km \<longleftrightarrow> km_host km = host \<and> length (km_keys km) = 16 \<and>
     length (last_keys (km_last km)) = 16 \<and> km_n_keys km \<le> 16 \<and> last_n_keys (km_last km) \<le> 16 \<and>
     (if km_active km then 0 < km_n_keys km \<and> km_mode km \<noteq> KM_MODE_IDLE
      else km_n_keys km = 0 \<and> km_mode km = KM_MODE_IDLE \<and> cia1_reads_total km = 0 \<and>
        cia1_reads_sampling km = 0 \<and> last_reason km = KM_RELEASE_NONE)"

definition km_abs :: "'h km_core_t \<Rightarrow> km_spec" where
  "km_abs km =
     \<lparr>sp_inj = (if km_active km then
          Some \<lparr>inj_keys = take (km_n_keys km) (km_keys km), inj_mode = km_mode km,
            inj_total = cia1_reads_total km, inj_sampling = cia1_reads_sampling km,
            inj_reason = last_reason km, inj_press = press_clk km\<rparr> else None),
      sp_report = (let l = km_last km in if last_valid l then
          Some \<lparr>rep_keys = take (last_n_keys l) (last_keys l), rep_mode = last_mode l,
            rep_total = last_reads_total l, rep_sampling = last_reads_sampling l,
            rep_reason = last_release l, rep_frames = last_frames_held l\<rparr> else None),
      sp_timeout = timeout_clk km\<rparr>"

lemma km_wf_init: "km_wf host (km_core_init host)"
  by (simp add: km_wf_def km_core_init_def km_max_keys_def)

theorem sp_do_inv:
  assumes "sp_inv (s, w)" "op_ok op"
  shows "sp_inv (sp_do wired op (s, w))"
proof (cases op)
  case (Tap args)
  with assms show ?thesis
    by (auto simp: sp_do_def intro!: tap_inv dest: sp_keys_nonempty split: option.split)
next
  case (Press args)
  with assms show ?thesis
    by (auto simp: sp_do_def intro!: press_inv dest: sp_keys_nonempty split: option.split)
next
  case (Release args)
  with assms show ?thesis
    by (auto simp: sp_do_def intro!: release_all_inv release_keys_inv split: option.split)
next
  case (Poke args)
  with assms show ?thesis
    by (auto simp: sp_do_def intro: world_only_inv split: option.split)
next
  case Alarm
  with release_now_inv [OF assms(1), of wired KM_RELEASE_TIMEOUT] show ?thesis
    by (cases "sp_release_now wired KM_RELEASE_TIMEOUT (s, w)") (simp add: sp_do_def)
next
  case (Bin_Set body len)
  with assms show ?thesis by (auto simp: sp_do_def intro: world_only_inv)
next
  case (Bin_Tap body len)
  with assms tap_items_nonempty [of body len] show ?thesis
    by (auto simp: sp_do_def op_ok_def intro!: tap_inv)
qed (use assms in \<open>simp_all add: sp_do_def read_inv\<close>)

section \<open>Binary-monitor bodies\<close>

lemma set_items_append: "3 dvd length xs \<Longrightarrow> set_items (xs @ ys) = set_items xs @ set_items ys"
proof (induction xs rule: set_items.induct)
  case (1 r c v bs)
  from "1.prems" have "3 dvd length bs" by simp presburger
  with 1 show ?case by simp
qed (simp_all, presburger+)

lemma tap_items_append: "even (length xs) \<Longrightarrow> tap_items (xs @ ys) = tap_items xs @ tap_items ys"
  by (induction xs rule: tap_items.induct) auto

lemma take_add_3: "n + 3 \<le> length bs \<Longrightarrow> take (n + 3) bs = take n bs @ [bs ! n, bs ! (n + 1), bs ! (n + 2)]"
  by (simp add: take_Suc_conv_app_nth numeral_3_eq_3)

lemma take_add_2: "n + 2 \<le> length bs \<Longrightarrow> take (n + 2) bs = take n bs @ [bs ! n, bs ! (n + 1)]"
  by (simp add: take_Suc_conv_app_nth)

lemma length_tap_items: "even (length xs) \<Longrightarrow> 2 * length (tap_items xs) = length xs"
  by (induction xs rule: tap_items.induct) auto

lemma bin_set_loop:
  assumes "1 + 3 * n \<le> length body"
  shows "for_each (\<lambda>i h. do {
      r \<leftarrow> aget body (1 + i * 3);
      c \<leftarrow> aget body (1 + i * 3 + 1);
      v \<leftarrow> aget body (1 + i * 3 + 2);
      Some (f (sint r) (sint c) (if v \<noteq> 0 then 1 else 0) h)
    }) [0..<n] h = Some (fold (\<lambda>(r, c, v). f r c (if v then 1 else 0))
      (set_items (take (3 * n) (drop 1 body))) h)"
  using assms
proof (induction n)
  case 0
  then show ?case by simp
next
  case (Suc n)
  have "take (3 * Suc n) (drop 1 body) = take (3 * n) (drop 1 body) @
      [body ! (1 + n * 3), body ! (1 + n * 3 + 1), body ! (1 + n * 3 + 2)]"
    using Suc.prems take_add_3 [of "3 * n" "drop 1 body"] by (simp add: algebra_simps)
  moreover have "3 dvd length (take (3 * n) (drop 1 body))" using Suc.prems by simp
  ultimately have items: "set_items (take (3 * Suc n) (drop 1 body)) = set_items (take (3 * n) (drop 1 body)) @
      [(sint (body ! (1 + n * 3)), sint (body ! (1 + n * 3 + 1)), body ! (1 + n * 3 + 2) \<noteq> 0)]"
    by (simp only: set_items_append set_items.simps)
  have idx: "1 + n * 3 < length body" "1 + n * 3 + 1 < length body" "1 + n * 3 + 2 < length body"
    using Suc.prems by simp_all
  show ?case
    unfolding upt_Suc_append [OF le0] for_each_append items
    using Suc.IH Suc.prems idx by (simp add: aget_def)
qed

lemma bin_tap_loop:
  assumes "4 + 2 * n \<le> length body" "n \<le> length keys"
  shows "for_each (\<lambda>i keys. do {
      r \<leftarrow> aget body (4 + i * 2);
      c \<leftarrow> aget body (4 + i * 2 + 1);
      aset keys i (binmon_key r c)
    }) [0..<n] keys = Some (tap_items (take (2 * n) (drop 4 body)) @ drop n keys)"
  using assms
proof (induction n)
  case 0
  then show ?case by simp
next
  case (Suc n)
  let ?is = "tap_items (take (2 * n) (drop 4 body))"
  have "take (2 * Suc n) (drop 4 body) = take (2 * n) (drop 4 body) @ [body ! (4 + n * 2), body ! (4 + n * 2 + 1)]"
    using Suc.prems take_add_2 [of "2 * n" "drop 4 body"] by (simp add: algebra_simps)
  moreover have e: "even (length (take (2 * n) (drop 4 body)))" using Suc.prems by simp
  ultimately have items: "tap_items (take (2 * Suc n) (drop 4 body)) =
      ?is @ [binmon_key (body ! (4 + n * 2)) (body ! (4 + n * 2 + 1))]"
    by (simp only: tap_items_append tap_items.simps)
  have len: "length ?is = n" using length_tap_items [OF e] Suc.prems by simp
  have idx: "4 + n * 2 < length body" "4 + n * 2 + 1 < length body" "n < length keys"
    using Suc.prems by simp_all
  then have "aset (?is @ drop n keys) n k = Some ((?is @ [k]) @ drop (Suc n) keys)" for k
    using len by (simp add: aset_def list_update_append Cons_nth_drop_Suc [symmetric])
  then show ?case
    unfolding upt_Suc_append [OF le0] for_each_append items
    using Suc.IH Suc.prems idx by (simp add: aget_def)
qed

lemma frames_word: "unat (ucast f0 OR push_bit 8 (ucast f1) :: u16) = le_val [f0, f1]" for f0 f1 :: u8
proof -
  have "(ucast f0 OR push_bit 8 (ucast f1) :: u16) = ucast f0 + push_bit 8 (ucast f1)"
    by (rule disjunctive_add [symmetric]) (auto simp: bit_simps dest: bit_imp_le_length)
  also have "unat \<dots> = unat f0 + 256 * unat f1"
    using u8_less [of f0] u8_less [of f1]
    by (simp add: unat_word_ariths unsigned_push_bit_eq push_bit_eq_mult take_bit_eq_mod)
  finally show ?thesis by simp
qed

lemma bin_set_guard:
  assumes "unat len \<le> length body"
  shows "bin_set_ok body len \<longleftrightarrow> \<not> len < 1 \<and> \<not> len < 1 + ucast (body ! 0) * 3"
    "\<not> len < 1 \<Longrightarrow> aget body 0 = Some (body ! 0)"
proof -
  have "unat (body ! 0) < 256" by (rule u8_less)
  then have u: "unat (1 + ucast (body ! 0) * 3 :: u32) = 1 + unat (body ! 0) * 3"
    by (simp add: unat_word_ariths)
  have l: "len < 1 \<longleftrightarrow> unat len < 1" by (simp only: word_less_nat_alt unat_1)
  show "bin_set_ok body len \<longleftrightarrow> \<not> len < 1 \<and> \<not> len < 1 + ucast (body ! 0) * 3"
    unfolding l by (auto simp: bin_set_ok_def word_less_nat_alt u)
  show "\<not> len < 1 \<Longrightarrow> aget body 0 = Some (body ! 0)"
    unfolding l using assms by (cases body) (auto simp: aget_def)
qed

lemma bin_tap_guard:
  assumes "unat len \<le> length body"
  shows "bin_tap_ok body len \<longleftrightarrow> \<not> len < 4 \<and> \<not> len < 4 + ucast (body ! 3) * 2 \<and>
    \<not> (body ! 3 = 0 \<or> 16 < body ! 3)"
    "\<not> len < 4 \<Longrightarrow> aget body 0 = Some (body ! 0) \<and> aget body 1 = Some (body ! 1) \<and>
      aget body 2 = Some (body ! 2) \<and> aget body 3 = Some (body ! 3)"
proof -
  have "unat (body ! 3) < 256" by (rule u8_less)
  then have u: "unat (4 + ucast (body ! 3) * 2 :: u32) = 4 + unat (body ! 3) * 2"
    by (simp add: unat_word_ariths)
  have z: "0 < unat (body ! 3) \<longleftrightarrow> body ! 3 \<noteq> 0" by (rule unat_gt_0)
  show "bin_tap_ok body len \<longleftrightarrow> \<not> len < 4 \<and> \<not> len < 4 + ucast (body ! 3) * 2 \<and>
    \<not> (body ! 3 = 0 \<or> 16 < body ! 3)"
    using z by (auto simp: bin_tap_ok_def word_less_nat_alt u Suc_le_eq)
  show "\<not> len < 4 \<Longrightarrow> aget body 0 = Some (body ! 0) \<and> aget body 1 = Some (body ! 1) \<and>
      aget body 2 = Some (body ! 2) \<and> aget body 3 = Some (body ! 3)"
    using assms by (auto simp: aget_def word_less_nat_alt)
qed

lemma binmon_results:
  assumes "unat len \<le> length body"
  shows "km_core_binmon_set body len st = Some (r, st') \<Longrightarrow> r = (if bin_set_ok body len then 0 else - 1)"
    "km_core_binmon_tap body len st = Some (r, st') \<Longrightarrow> r = (if bin_tap_ok body len then 0 else - 1)"
    "\<not> bin_set_ok body len \<Longrightarrow> km_core_binmon_set body len st = Some (- 1, st)"
    "\<not> bin_tap_ok body len \<Longrightarrow> km_core_binmon_tap body len st = Some (- 1, st)"
  using bin_tap_guard [OF assms] bin_set_guard [OF assms]
  by (auto simp: km_core_binmon_tap_def km_core_binmon_set_def Let_def split: if_splits bind_splits prod.splits)

section \<open>The keyboard interface\<close>

definition km_view ::
    "'h km_host_t \<Rightarrow> ('h \<Rightarrow> int \<Rightarrow> int \<Rightarrow> bool) \<Rightarrow> ('h \<Rightarrow> u64 option) \<Rightarrow> 'h \<Rightarrow> km_world" where
  \<comment> \<open>what of the host the contract speaks about\<close>
  "km_view host pressed alarm_at h = \<lparr>w_pressed = pressed h, w_alarm = alarm_at h,
     w_now = host_now host h, w_cpf = cycles_per_frame host h\<rparr>"

locale km_keyboard =
  fixes host :: "'h km_host_t" and wired :: "int \<Rightarrow> int \<Rightarrow> bool"
    and pressed :: "'h \<Rightarrow> int \<Rightarrow> int \<Rightarrow> bool" and alarm_at :: "'h \<Rightarrow> u64 option"
  assumes pressed_set: "pressed (set_keyarr_any host r c v h) =
      (\<lambda>r' c'. if wired r c \<and> r' = r \<and> c' = c then v \<noteq> 0 else pressed h r' c')"
    and pressed_clear: "pressed (clear_keymatrix host h) = (\<lambda>r c. r < 0 \<and> pressed h r c)"
    and pressed_alarm: "pressed (set_alarm host t h) = pressed h"
    and pressed_cancel: "pressed (cancel_alarm host h) = pressed h"
    and pressed_emit: "pressed (emit_text host s h) = pressed h"
    and alarm_set: "alarm_at (set_alarm host t h) = Some t"
    and alarm_cancel: "alarm_at (cancel_alarm host h) = None"
    and alarm_keep: "alarm_at (set_keyarr_any host r c v h) = alarm_at h"
      "alarm_at (clear_keymatrix host h) = alarm_at h" "alarm_at (emit_text host s h) = alarm_at h"
    and now_keep: "host_now host (set_keyarr_any host r c v h) = host_now host h"
      "host_now host (clear_keymatrix host h) = host_now host h"
      "host_now host (set_alarm host t h) = host_now host h"
      "host_now host (cancel_alarm host h) = host_now host h"
      "host_now host (emit_text host s h) = host_now host h"
    and cpf_keep: "cycles_per_frame host (set_keyarr_any host r c v h) = cycles_per_frame host h"
      "cycles_per_frame host (clear_keymatrix host h) = cycles_per_frame host h"
      "cycles_per_frame host (set_alarm host t h) = cycles_per_frame host h"
      "cycles_per_frame host (cancel_alarm host h) = cycles_per_frame host h"
      "cycles_per_frame host (emit_text host s h) = cycles_per_frame host h"
begin

abbreviation view :: "'h \<Rightarrow> km_world" where
  "view \<equiv> km_view host pressed alarm_at"

lemmas keyboard = pressed_set pressed_clear pressed_alarm pressed_cancel pressed_emit alarm_set
  alarm_cancel alarm_keep now_keep cpf_keep

lemma view_sel [simp]:
  "w_pressed (view h) = pressed h" "w_alarm (view h) = alarm_at h" "w_now (view h) = host_now host h"
  "w_cpf (view h) = cycles_per_frame host h"
  by (simp_all add: km_view_def)

lemma view_ops:
  "view (set_alarm host t h) = (view h)\<lparr>w_alarm := Some t\<rparr>"
  "view (cancel_alarm host h) = (view h)\<lparr>w_alarm := None\<rparr>"
  "view (emit_text host s h) = view h"
  "view (clear_keymatrix host h) = (view h)\<lparr>w_pressed := (\<lambda>r c. r < 0 \<and> pressed h r c)\<rparr>"
  "view (set_keyarr_any host r c v h) =
     sp_drive wired [\<lparr>row = r, col = c, kind = 0, key_name = []\<rparr>] (v \<noteq> 0) (view h)"
  by (auto simp: km_view_def keyboard sp_drive_def at_key_def fun_eq_iff)

lemma view_outs: "km_host km = host \<Longrightarrow> view (km_outs km ss h) = view h"
  by (induction ss arbitrary: h) (simp_all add: km_outs_def km_outf_def view_ops)

lemma view_outf: "km_host km = host \<Longrightarrow> view (km_outf km s h) = view h"
  by (simp add: km_outf_def view_ops)

lemma sp_drive_append: "sp_drive wired ks v (sp_drive wired js v w) = sp_drive wired (js @ ks) v w"
  by (auto simp: sp_drive_def intro!: arg_cong [of _ _ "\<lambda>p. w\<lparr>w_pressed := p\<rparr>"] ext)

lemma view_fold_set:
  "view (fold (\<lambda>k. set_keyarr_any host (row k) (col k) v) ks h) = sp_drive wired ks (v \<noteq> 0) (view h)"
proof (induction ks arbitrary: h)
  case Nil
  show ?case by (simp add: sp_drive_def)
next
  case (Cons k ks)
  have "sp_drive wired [\<lparr>row = row k, col = col k, kind = 0, key_name = []\<rparr>] v w = sp_drive wired [k] v w"
    for v w by (simp add: sp_drive_def at_key_def)
  with Cons show ?case by (simp add: view_ops sp_drive_append)
qed

lemma host_fold_set:
  "host_now host (fold (\<lambda>k. set_keyarr_any host (row k) (col k) v) ks h) = host_now host h"
  "cycles_per_frame host (fold (\<lambda>k. set_keyarr_any host (row k) (col k) v) ks h) = cycles_per_frame host h"
  by (induction ks arbitrary: h) (simp_all add: keyboard)

definition refines ::
    "('h km_core_t \<times> 'h) option \<Rightarrow> km_spec \<times> km_world \<Rightarrow> bool" where
  \<comment> \<open>no fault, a well-formed core, and the specified abstract state\<close>
  "refines r sw \<longleftrightarrow> (\<exists>km h. r = Some (km, h) \<and> km_wf host km \<and> (km_abs km, view h) = sw)"

lemma refines_Some [simp]:
  "refines (Some (km, h)) sw \<longleftrightarrow> km_wf host km \<and> km_abs km = fst sw \<and> view h = snd sw"
  by (cases sw) (simp add: refines_def)

lemma refines_None [simp]: "\<not> refines None sw"
  by (simp add: refines_def)

lemma refinesE:
  assumes "refines r sw"
  obtains km h where "r = Some (km, h)" "km_wf host km" "km_abs km = fst sw" "view h = snd sw"
  using assms by (cases r) auto

lemma release_active_refines:
  assumes "km_active km" "km_host km = host" "km_n_keys km \<le> 16" "length (km_keys km) = 16"
    "length (last_keys (km_last km)) = 16"
  shows "refines (km_release_now reason (km, h)) (sp_release_now wired reason (km_abs km, view h))"
  using assms
  by (simp add: km_release_now_def km_apply_bits_Some km_copy_keys_Some Let_def
      sp_release_now_def km_abs_def km_wf_def view_ops view_fold_set host_fold_set)

lemma release_now_refines:
  assumes "km_wf host km"
  shows "refines (km_release_now reason (km, h)) (sp_release_now wired reason (km_abs km, view h))"
proof (cases "km_active km")
  case False
  with assms show ?thesis
    by (simp add: km_release_now_def sp_release_now_def km_abs_def)
next
  case True
  then show ?thesis by (rule release_active_refines) (use assms in \<open>simp_all add: km_wf_def\<close>)
qed

lemma release_now_idle:
  "km_wf host km \<Longrightarrow> km_release_now reason (km, h) = Some (km', h') \<Longrightarrow> \<not> km_active km'"
  by (auto simp: km_release_now_def Let_def split: if_splits bind_splits)

lemma supersede_refines:
  assumes "km_wf host km"
  shows "refines (km_supersede_active (km, h)) (sp_release_now wired KM_RELEASE_MANUAL (km_abs km, view h))"
proof (cases "km_active km")
  case True
  with release_now_refines [OF assms, of KM_RELEASE_MANUAL h] show ?thesis by (simp add: km_supersede_active_def)
next
  case False
  with assms show ?thesis
    by (simp add: km_supersede_active_def sp_release_now_def km_abs_def)
qed

lemma superseded:
  assumes "km_wf host km"
  obtains km1 h1 where "km_supersede_active (km, h) = Some (km1, h1)" "km_wf host km1"
    "sp_release_now wired KM_RELEASE_MANUAL (km_abs km, view h) = (km_abs km1, view h1)"
    "km_host km1 = host" "length (km_keys km1) = 16"
proof -
  obtain km1 h1 where s: "km_supersede_active (km, h) = Some (km1, h1)" "km_wf host km1"
    "km_abs km1 = fst (sp_release_now wired KM_RELEASE_MANUAL (km_abs km, view h))"
    "view h1 = snd (sp_release_now wired KM_RELEASE_MANUAL (km_abs km, view h))"
    using supersede_refines [OF assms] by (rule refinesE)
  from s(3,4) have "sp_release_now wired KM_RELEASE_MANUAL (km_abs km, view h) = (km_abs km1, view h1)"
    by (metis prod.collapse)
  moreover have "km_host km1 = host" "length (km_keys km1) = 16" using s(2) by (simp_all add: km_wf_def)
  ultimately show ?thesis by (rule that [OF s(1,2)])
qed

lemma parse_args_sp_keys:
  assumes "pred_option c_string args" "km_parse_args args usage = r"
  shows "(case r of Inl _ \<Rightarrow> sp_keys args = None
    | Inr (ks, f) \<Rightarrow> sp_keys args = (if ks = [] then None else Some (ks, f)) \<and> length ks \<le> 16)"
proof (cases "no_args args \<or> 256 \<le> length (the args)")
  case True
  then have "sp_keys args = None" by (simp add: sp_keys_def)
  moreover have "\<exists>msg. r = Inl msg"
    using True assms(2) by (cases "no_args args") (auto simp: km_parse_args_def km_copy_args_def)
  ultimately show ?thesis by auto
next
  case False
  then have cs: "c_string (the args)" using assms(1) by (cases args) (auto simp: no_args_def)
  have "r = parse_key_list km_max_keys (the args)"
    using False assms(2) by (simp add: km_parse_args_def km_copy_args_def)
  then show ?thesis
    using False parse_key_list_words [OF cs, of km_max_keys] parse_key_list_ok(1) [OF _ cs, of km_max_keys]
    by (auto simp: sp_keys_def km_max_keys_def split: sum.split)
qed

lemma tap_refines:
  assumes wf: "km_wf host km" and args: "pred_option c_string args"
  shows "refines (km_core_tap args (km, h)) (sp_do wired (Tap args) (km_abs km, view h))"
proof (cases "km_parse_args args tap_usage")
  case (Inl msg)
  with parse_args_sp_keys [OF args this] wf show ?thesis
    by (simp add: km_core_tap_def sp_do_def view_outf km_wf_def)
next
  case (Inr p)
  obtain ks f where p: "p = (ks, f)" by (cases p)
  note sp = parse_args_sp_keys [OF args Inr, unfolded p, simplified]
  show ?thesis
  proof (cases "ks = []")
    case True
    with Inr p sp wf show ?thesis by (simp add: km_core_tap_def sp_do_def view_outf km_wf_def)
  next
    case False
    obtain km1 h1 where s: "km_supersede_active (km, h) = Some (km1, h1)" "km_wf host km1"
      "sp_release_now wired KM_RELEASE_MANUAL (km_abs km, view h) = (km_abs km1, view h1)"
      "km_host km1 = host" "length (km_keys km1) = 16"
      by (rule superseded [OF wf])
    show ?thesis
      using Inr p sp False s
      by (simp add: km_core_tap_def km_copy_keys_Some km_apply_bits_Some km_cpf_or_pal_def Let_def
          sp_do_def sp_tap_def sp_inject_def sp_arm_def view_outf view_ops view_fold_set host_fold_set
          keyboard)
        (simp add: km_wf_def km_abs_def sp_drive_def)
  qed
qed

lemma press_refines:
  assumes wf: "km_wf host km" and args: "pred_option c_string args"
  shows "refines (km_core_press args (km, h)) (sp_do wired (Press args) (km_abs km, view h))"
proof (cases "km_parse_args args press_usage")
  case (Inl msg)
  with parse_args_sp_keys [OF args this] wf show ?thesis
    by (simp add: km_core_press_def sp_do_def view_outf km_wf_def)
next
  case (Inr p)
  obtain ks f where p: "p = (ks, f)" by (cases p)
  note sp = parse_args_sp_keys [OF args Inr, unfolded p, simplified]
  define h0 where "h0 = (if 0 < f
    then km_outf km (out_line (''note: '' @ quoted ''for <frames>'' @
           '' has no effect on press; use '' @ quoted ''tap'' @ '' for that'')) h else h)"
  have v0: "view h0 = view h" using wf by (simp add: h0_def view_outf km_wf_def)
  show ?thesis
  proof (cases "ks = []")
    case True
    with Inr p sp wf v0 show ?thesis
      by (simp add: km_core_press_def sp_do_def view_outf km_wf_def h0_def [symmetric])
  next
    case False
    obtain km1 h1 where s: "km_supersede_active (km, h0) = Some (km1, h1)" "km_wf host km1"
      "sp_release_now wired KM_RELEASE_MANUAL (km_abs km, view h0) = (km_abs km1, view h1)"
      "km_host km1 = host" "length (km_keys km1) = 16"
      by (rule superseded [OF wf])
    show ?thesis
      using Inr p sp False s
      by (simp add: km_core_press_def km_copy_keys_Some km_apply_bits_Some Let_def v0 h0_def [symmetric]
          sp_do_def sp_inject_def view_outf view_ops view_fold_set host_fold_set keyboard)
        (simp add: km_wf_def km_abs_def)
  qed
qed

lemma release_keys_refines:
  assumes wf: "km_wf host km" and h1: "view h1 = sp_drive wired ks False (view h)"
  shows "refines (km_drop_released ks (km, h1)) (sp_release_keys wired ks (km_abs km, view h))"
proof (cases "km_active km")
  case False
  with wf h1 show ?thesis by (simp add: km_drop_released_def sp_release_keys_def km_abs_def)
next
  case True
  let ?ks = "take (km_n_keys km) (km_keys km)"
  let ?keep = "filter (\<lambda>k. \<not> list_ex (same_key k) ks) ?ks"
  let ?km = "km\<lparr>km_n_keys := length ?keep, km_keys := ?keep @ drop (length ?keep) (km_keys km)\<rparr>"
  have n: "km_n_keys km \<le> length (km_keys km)" "length (km_keys km) = 16" "km_host km = host"
    using wf by (simp_all add: km_wf_def)
  have keep: "length ?keep \<le> 16"
    by (rule order_trans [OF length_filter_le]) (use n in simp)
  have abs: "km_abs ?km = km_abs km\<lparr>sp_inj := map_option (\<lambda>i. i\<lparr>inj_keys := ?keep\<rparr>) (sp_inj (km_abs km))\<rparr>"
    using True by (simp add: km_abs_def)
  show ?thesis
  proof (cases "?keep = []")
    case False
    then have "km_wf host ?km" using wf True keep n by (simp add: km_wf_def)
    with False True n h1 abs keep show ?thesis
      by (simp add: km_drop_released_def km_surviving_Some km_copy_keys_Some Let_def sp_release_keys_def)
        (simp add: km_abs_def)
  next
    case k: True
    have r: "refines (km_release_now KM_RELEASE_MANUAL (?km, h1))
        (sp_release_now wired KM_RELEASE_MANUAL (km_abs ?km, view h1))"
      by (rule release_active_refines) (use True wf k in \<open>simp_all add: km_wf_def\<close>)
    have inj: "sp_inj (km_abs km) \<noteq> None" using True by (simp add: km_abs_def)
    have "sp_release_keys wired ks (km_abs km, view h) =
        sp_release_now wired KM_RELEASE_MANUAL (km_abs ?km, view h1)"
      using k True h1 unfolding abs by (simp add: sp_release_keys_def km_abs_def Let_def)
    with r True n k keep show ?thesis
      by (simp add: km_drop_released_def km_surviving_Some km_copy_keys_Some Let_def)
  qed
qed

lemma release_refines:
  assumes wf: "km_wf host km" and args: "pred_option c_string args"
  shows "refines (km_core_release args (km, h)) (sp_do wired (Release args) (km_abs km, view h))"
proof (cases "no_args args")
  case True
  obtain km1 h1 where r: "km_supersede_active (km, h) = Some (km1, h1)" "km_wf host km1"
    "sp_release_now wired KM_RELEASE_MANUAL (km_abs km, view h) = (km_abs km1, view h1)"
    "km_host km1 = host" "length (km_keys km1) = 16"
    by (rule superseded [OF wf])
  then have "(if km_active km then km_release_now KM_RELEASE_MANUAL (km, h) else Some (km, h)) = Some (km1, h1)"
    by (simp add: km_supersede_active_def)
  with True r show ?thesis
    by (simp add: km_core_release_def sp_do_def sp_release_all_def view_ops view_outf Let_def)
next
  case args': False
  show ?thesis
  proof (cases "km_parse_args args []")
    case (Inl msg)
    with parse_args_sp_keys [OF args this] wf args' show ?thesis
      by (simp add: km_core_release_def sp_do_def view_outf km_wf_def)
  next
    case (Inr p)
    obtain ks f where p: "p = (ks, f)" by (cases p)
    note sp = parse_args_sp_keys [OF args Inr, unfolded p, simplified]
    show ?thesis
    proof (cases "ks = []")
      case True
      with Inr p sp wf args' show ?thesis
        by (simp add: km_core_release_def sp_do_def view_outf km_wf_def)
    next
      case False
      define h1 where "h1 = fold (\<lambda>k. set_keyarr_any host (row k) (col k) 0) ks h"
      have h1: "view h1 = sp_drive wired ks False (view h)" by (simp add: h1_def view_fold_set)
      have host: "km_host km = host" using wf by (simp add: km_wf_def)
      obtain km2 h2 where r: "km_drop_released ks (km, h1) = Some (km2, h2)"
        "km_wf host km2" "km_abs km2 = fst (sp_release_keys wired ks (km_abs km, view h))"
        "view h2 = snd (sp_release_keys wired ks (km_abs km, view h))"
        using release_keys_refines [OF wf h1] by (rule refinesE)
      have "km_core_release args (km, h) = Some (km2, km_outf km2 (out_line (''keymatrix: released '' @
          show_nat (length ks) @ '' key'' @ plural (length ks))) h2)"
        using args' Inr p False host r(1)
        by (simp add: km_core_release_def km_apply_bits_Some h1_def [symmetric])
      with args' sp False r(2-) show ?thesis
        by (simp add: sp_do_def view_outf km_wf_def)
    qed
  qed
qed

lemma poke_refines:
  assumes wf: "km_wf host km"
  shows "refines (Some (km_core_poke args (km, h))) (sp_do wired (Poke args) (km_abs km, view h))"
proof -
  have host: "km_host km = host" using wf by (simp add: km_wf_def)
  show ?thesis
  proof (cases "no_args args \<or> 256 \<le> length (the args)")
    case True
    with wf host show ?thesis
      by (auto simp: km_core_poke_def sp_do_def view_outf km_copy_args_def)
  next
    case False
    then have "km_core_poke args (km, h) = (km, case poke_parse (the args) of
        None \<Rightarrow> km_outf km poke_usage h
      | Some (r, c, v) \<Rightarrow>
          if c < 0 \<or> c > 7 \<or> r < - 8 \<or> r > 15
          then km_outf km (out_line ''error: row must be -8..15, col must be 0..7'') h
          else km_outf km (out_line (''keymatrix: poked ('' @ show_int r @ '','' @ show_int c @
                 '') <- '' @ show_int v)) (set_keyarr_any (km_host km) r c v h))"
      by (simp add: km_core_poke_def km_copy_args_def)
    with False wf host show ?thesis
      by (auto simp: sp_do_def view_outf view_ops sp_set_items_def split: option.split)
  qed
qed

lemma read_refines:
  assumes wf: "km_wf host km"
  shows "refines
      (if \<not> km_active km then Some (km, h)
       else do {
         let km = km\<lparr>cia1_reads_total := cia1_reads_total km + 1\<rparr>;
         sampled \<leftarrow> km_line_sampled line (km_keys km) (km_n_keys km) m;
         Some (km_observe sampled (km, h))
       })
      (sp_read (line_hit line m) (km_abs km, view h))"
proof (cases "km_active km")
  case False
  with wf show ?thesis by (simp add: sp_read_def km_abs_def)
next
  case True
  have n: "km_n_keys km \<le> length (km_keys km)" "km_host km = host" using wf by (simp_all add: km_wf_def)
  show ?thesis
  proof (cases "list_ex (line_hit line m) (take (km_n_keys km) (km_keys km))")
    case hit: True
    show ?thesis
      using True n hit wf
      by (cases "km_mode km = KM_MODE_TAP_OBSERVED \<and> last_reason km = KM_RELEASE_NONE")
        (simp_all add: km_line_sampled_Some km_observe_def sp_read_def km_abs_def Let_def view_ops km_wf_def)
  next
    case False
    with True n wf show ?thesis
      by (simp add: km_line_sampled_Some km_observe_def sp_read_def km_abs_def Let_def km_wf_def)
  qed
qed

lemma alarm_refines:
  assumes wf: "km_wf host km"
  shows "refines (km_core_on_alarm (km, h)) (sp_do wired Alarm (km_abs km, view h))"
proof -
  have "sp_release_now wired (if last_reason km \<noteq> KM_RELEASE_NONE then last_reason km else KM_RELEASE_TIMEOUT)
      (km_abs km, view h) = sp_release_now wired KM_RELEASE_TIMEOUT (km_abs km, view h)"
    by (cases "km_active km") (simp_all add: sp_release_now_def km_abs_def)
  with release_now_refines [OF wf, of "if last_reason km \<noteq> KM_RELEASE_NONE then last_reason km else KM_RELEASE_TIMEOUT" h]
  show ?thesis by (simp only: km_core_on_alarm_def sp_do_def prod.case km_op.case)
qed

lemma show_names_refine:
  assumes wf: "km_wf host km"
  shows "refines (km_core_show (km, h)) (km_abs km, view h)"
    and "refines (Some (km_core_names (km, h))) (km_abs km, view h)"
proof -
  have host: "km_host km = host" using wf by (simp add: km_wf_def)
  obtain ss where "km_core_show (km, h) = Some (km, km_outs km ss h)"
    using km_core_show_outs [of km h] wf by (auto simp: km_wf_def)
  with wf host show "refines (km_core_show (km, h)) (km_abs km, view h)" by (simp add: view_outs)
  obtain ts where "km_core_names (km, h) = (km, km_outs km ts h)"
    using km_core_names_outs [of km h] by blast
  with wf host show "refines (Some (km_core_names (km, h))) (km_abs km, view h)" by (simp add: view_outs)
qed

lemma view_set_items:
  "view (fold (\<lambda>(r, c, v). set_keyarr_any host r c (if v then 1 else 0)) is h) = sp_set_items wired is (view h)"
  by (induction "is" arbitrary: h) (auto simp: sp_set_items_def view_ops)

lemma bin_set_refines:
  assumes wf: "km_wf host km" and len: "unat len \<le> length body"
  shows "refines (map_option snd (km_core_binmon_set body len (km, h)))
    (sp_do wired (Bin_Set body len) (km_abs km, view h))"
proof (cases "bin_set_ok body len")
  case True
  then have l: "1 + 3 * unat (body ! 0) \<le> length body" using len by (simp add: bin_set_ok_def)
  show ?thesis
    using True bin_set_guard [OF len] l wf bin_set_loop [OF l, of "set_keyarr_any host" h]
    by (simp add: km_core_binmon_set_def sp_do_def view_set_items km_wf_def)
next
  case False
  with bin_set_guard [OF len] wf show ?thesis by (auto simp: km_core_binmon_set_def sp_do_def)
qed

lemma bin_tap_refines:
  assumes wf: "km_wf host km" and len: "unat len \<le> length body"
  shows "refines (map_option snd (km_core_binmon_tap body len (km, h)))
    (sp_do wired (Bin_Tap body len) (km_abs km, view h))"
proof (cases "bin_tap_ok body len")
  case False
  with bin_tap_guard [OF len] wf show ?thesis
    by (auto simp: km_core_binmon_tap_def sp_do_def Let_def)
next
  case True
  let ?n = "unat (body ! 3)"
  let ?ks = "tap_items (take (2 * ?n) (drop 4 body))"
  have g: "\<not> len < 4" "\<not> len < 4 + ucast (body ! 3) * 2" "body ! 3 \<noteq> 0" "\<not> 16 < body ! 3"
    "aget body 0 = Some (body ! 0)" "aget body 1 = Some (body ! 1)"
    "aget body 2 = Some (body ! 2)" "aget body 3 = Some (body ! 3)"
    using True bin_tap_guard [OF len] by auto
  have n: "0 < ?n" "?n \<le> 16" "4 + 2 * ?n \<le> length body" using True len by (auto simp: bin_tap_ok_def)
  have lks: "length ?ks = ?n" using length_tap_items [of "take (2 * ?n) (drop 4 body)"] n by simp
  obtain km1 h1 where s: "km_supersede_active (km, h) = Some (km1, h1)" "km_wf host km1"
    "sp_release_now wired KM_RELEASE_MANUAL (km_abs km, view h) = (km_abs km1, view h1)"
    "km_host km1 = host" "length (km_keys km1) = 16"
    by (rule superseded [OF wf])
  have f: "frames_or_default (ucast (body ! Suc 0) OR push_bit 8 (ucast (body ! 2))) = bin_frames body"
    using frames_word [of "body ! 1" "body ! 2"]
    by (simp add: frames_or_default_def bin_frames_def Let_def word_less_nat_alt uint_nat del: le_val.simps)
  have loop: "for_each (\<lambda>i keys. do {
      r \<leftarrow> aget body (4 + i * 2);
      c \<leftarrow> aget body (4 + i * 2 + 1);
      aset keys i (binmon_key r c)
    }) [0..<?n] (km_keys km1) = Some (?ks @ drop ?n (km_keys km1))"
    by (rule bin_tap_loop) (use n s(5) in simp_all)
  show ?thesis
    using True g n lks s loop
    by (simp add: km_core_binmon_tap_def km_apply_bits_Some km_cpf_or_pal_def f
        sp_do_def sp_tap_def sp_inject_def sp_arm_def view_ops view_fold_set host_fold_set keyboard Let_def)
      (simp add: km_wf_def km_abs_def sp_drive_def)
qed

lemma do_refines:
  assumes "km_wf host km" "op_ok op"
  shows "refines (km_do op (km, h)) (sp_do wired op (km_abs km, view h))"
  using assms show_names_refine [OF assms(1)] alarm_refines [OF assms(1)]
    read_refines [OF assms(1), of h]
  by (cases op)
    (simp_all add: km_do_def op_ok_def tap_refines press_refines release_refines poke_refines
      bin_set_refines bin_tap_refines sp_do_def [of wired Show] sp_do_def [of wired Names]
      sp_do_def [of wired "Pa_Read _"] sp_do_def [of wired "Pb_Read _"]
      km_core_cia1_pa_read_def km_core_cia1_pb_read_def)

lemma run_refines:
  assumes "km_wf host km" "list_all op_ok ops"
  shows "refines (for_each km_do ops (km, h)) (fold (sp_do wired) ops (km_abs km, view h))"
  using assms
proof (induction ops arbitrary: km h)
  case Nil
  then show ?case by simp
next
  case (Cons op ops)
  obtain km1 h1 where s: "km_do op (km, h) = Some (km1, h1)" "km_wf host km1"
    "km_abs km1 = fst (sp_do wired op (km_abs km, view h))" "view h1 = snd (sp_do wired op (km_abs km, view h))"
    using do_refines [of km op h] Cons.prems by (auto elim: refinesE)
  then have "sp_do wired op (km_abs km, view h) = (km_abs km1, view h1)" by (metis prod.collapse)
  with Cons.IH [OF s(2), of h1] Cons.prems s(1) show ?case by simp
qed

end

end
