(* ===== verification/Keymatrix_Mock.thy ===== *)
theory Keymatrix_Mock
  imports Keymatrix_Spec
begin

unbundle bit_operations_syntax

text \<open>
  The keyboard the test suite drives the core with (\<open>libs/keymatrix/tests/test_keymatrix.c\<close>), as an
  instance of the keyboard interface, the interleavings of monitor commands, CIA reads, clock
  ticks and alarms as a step relation on it, and the properties of the reachable states. The two
  arrays of the mock are functions of the index, which the code guards.
\<close>

section \<open>The mock keyboard\<close>

record km_mock_t =
  mk_keyarr :: "int \<Rightarrow> int"
  mk_custom :: "int \<Rightarrow> int"
  mk_clock :: u64
  mk_cpf :: int
  mk_alarm_clk :: u64
  mk_alarm_set :: bool
  mk_clear_count :: nat
  mk_last_set :: "int \<times> int \<times> int"
  mk_out :: string

definition on_matrix :: "int \<Rightarrow> int \<Rightarrow> bool" where
  "on_matrix r c \<longleftrightarrow> 0 \<le> r \<and> r < 8 \<and> 0 \<le> c \<and> c < 8"

definition custom_id :: "int \<Rightarrow> int \<Rightarrow> int" where
  "custom_id r c =
     (if r = km_row_restore_1 \<and> c = km_col_restore_1 then 1
      else if r = km_row_restore_2 \<and> c = km_col_restore_2 then 2
      else if r = km_row_capslock \<and> c = km_col_capslock then 3
      else if r = km_row_4080column \<and> c = km_col_4080column then 4 else 0)"

definition km_h_set :: "int \<Rightarrow> int \<Rightarrow> int \<Rightarrow> km_mock_t \<Rightarrow> km_mock_t" where
  "km_h_set r c v m =
     (let m = m\<lparr>mk_last_set := (r, c, v)\<rparr>
      in if on_matrix r c then
           m\<lparr>mk_keyarr := (mk_keyarr m)(r := if v \<noteq> 0 then mk_keyarr m r OR push_bit (nat c) 1
                                            else mk_keyarr m r AND NOT (push_bit (nat c) 1))\<rparr>
         else
           let id = custom_id r c
           in if id \<noteq> 0 then m\<lparr>mk_custom := (mk_custom m)(id := if v \<noteq> 0 then 1 else 0)\<rparr> else m)"

definition km_h_clear :: "km_mock_t \<Rightarrow> km_mock_t" where
  "km_h_clear m = m\<lparr>mk_keyarr := (\<lambda>_. 0), mk_clear_count := mk_clear_count m + 1\<rparr>"

definition km_h_emit :: "string \<Rightarrow> km_mock_t \<Rightarrow> km_mock_t" where
  "km_h_emit s m =
     (if length (mk_out m) + length s < 32768 then m\<lparr>mk_out := mk_out m @ s\<rparr> else m)"

definition km_mock_host :: "km_mock_t km_host_t" where
  "km_mock_host = \<lparr>set_keyarr_any = km_h_set, get_keyarr = (\<lambda>r m. mk_keyarr m r),
     custom_key_get = (\<lambda>id m. mk_custom m id), clear_keymatrix = km_h_clear,
     host_now = mk_clock, cycles_per_frame = mk_cpf,
     set_alarm = (\<lambda>clk m. m\<lparr>mk_alarm_clk := clk, mk_alarm_set := True\<rparr>),
     cancel_alarm = (\<lambda>m. m\<lparr>mk_alarm_set := False\<rparr>), emit_text = km_h_emit\<rparr>"

definition km_mock_setup :: km_mock_t where
  "km_mock_setup = \<lparr>mk_keyarr = (\<lambda>_. 0), mk_custom = (\<lambda>_. 0), mk_clock = 1000, mk_cpf = 19656,
     mk_alarm_clk = 0, mk_alarm_set = False, mk_clear_count = 0, mk_last_set = (0, 0, 0), mk_out = []\<rparr>"

section \<open>The mock is a keyboard\<close>

definition mock_wired :: "int \<Rightarrow> int \<Rightarrow> bool" where
  "mock_wired r c \<longleftrightarrow> on_matrix r c \<or> custom_id r c \<noteq> 0"

definition mock_pressed :: "km_mock_t \<Rightarrow> int \<Rightarrow> int \<Rightarrow> bool" where
  "mock_pressed m r c =
     (if on_matrix r c then bit (mk_keyarr m r) (nat c)
      else custom_id r c \<noteq> 0 \<and> mk_custom m (custom_id r c) \<noteq> 0)"

definition mock_alarm :: "km_mock_t \<Rightarrow> u64 option" where
  "mock_alarm m = (if mk_alarm_set m then Some (mk_alarm_clk m) else None)"

lemma custom_id_inject: "custom_id r c \<noteq> 0 \<Longrightarrow> custom_id r c = custom_id r' c' \<Longrightarrow> r' = r \<and> c' = c"
  by (auto simp: custom_id_def km_sentinels split: if_splits)

lemma custom_not_matrix: "custom_id r c \<noteq> 0 \<Longrightarrow> r < 0"
  by (auto simp: custom_id_def km_sentinels split: if_splits)

lemma mock_pressed_set:
  "mock_pressed (km_h_set r c v m) r' c' =
     (if mock_wired r c \<and> r' = r \<and> c' = c then v \<noteq> 0 else mock_pressed m r' c')"
proof (cases "on_matrix r c")
  case True
  then show ?thesis
    by (auto simp: km_h_set_def mock_pressed_def mock_wired_def on_matrix_def Let_def
        bit_or_iff bit_and_iff bit_not_iff bit_exp_iff eq_nat_nat_iff)
next
  case False
  then show ?thesis
    using custom_id_inject [of r c r' c'] custom_id_inject [of r' c' r c]
    by (auto simp: km_h_set_def mock_pressed_def mock_wired_def Let_def)
qed

lemma mock_pressed_clear: "mock_pressed (km_h_clear m) r c = (r < 0 \<and> mock_pressed m r c)"
  using custom_not_matrix [of r c]
  by (auto simp: km_h_clear_def mock_pressed_def on_matrix_def)

lemma km_h_fields [simp]:
  "mk_clock (km_h_set r c v m) = mk_clock m" "mk_cpf (km_h_set r c v m) = mk_cpf m"
  "mock_alarm (km_h_set r c v m) = mock_alarm m" "mk_clock (km_h_clear m) = mk_clock m"
  "mk_cpf (km_h_clear m) = mk_cpf m" "mock_alarm (km_h_clear m) = mock_alarm m"
  "mk_clock (km_h_emit s m) = mk_clock m" "mk_cpf (km_h_emit s m) = mk_cpf m"
  "mock_alarm (km_h_emit s m) = mock_alarm m" "mock_pressed (km_h_emit s m) = mock_pressed m"
  by (simp_all add: km_h_set_def km_h_clear_def km_h_emit_def mock_alarm_def mock_pressed_def Let_def fun_eq_iff)

lemma mock_alarm_fields [simp]:
  "mock_pressed (m\<lparr>mk_alarm_clk := t\<rparr>) = mock_pressed m"
  "mock_pressed (m\<lparr>mk_alarm_set := b\<rparr>) = mock_pressed m"
  "mock_alarm (m\<lparr>mk_alarm_clk := t, mk_alarm_set := True\<rparr>) = Some t"
  "mock_alarm (m\<lparr>mk_alarm_set := False\<rparr>) = None"
  by (simp_all add: mock_pressed_def mock_alarm_def fun_eq_iff)

interpretation mock: km_keyboard km_mock_host mock_wired mock_pressed mock_alarm
  by unfold_locales
    (simp_all add: km_mock_host_def mock_pressed_set mock_pressed_clear fun_eq_iff)

section \<open>Interleavings\<close>

text \<open>
  Any caller may run any operation, time passes, and the host calls back when the release alarm
  it holds is due.
\<close>

type_synonym km_state = "km_mock_t km_core_t \<times> km_mock_t"

inductive km_step :: "km_state \<Rightarrow> km_state \<Rightarrow> bool" where
  call: "op_ok op \<Longrightarrow> op \<noteq> Alarm \<Longrightarrow> km_do op st = Some st' \<Longrightarrow> km_step st st'"
| tick: "km_step (km, m) (km, m\<lparr>mk_clock := mk_clock m + n\<rparr>)"
| due: "mk_alarm_set m \<Longrightarrow> mk_alarm_clk m \<le> mk_clock m \<Longrightarrow> km_core_on_alarm (km, m) = Some st' \<Longrightarrow>
    km_step (km, m) st'"

inductive_cases km_stepE: "km_step (km, m) st'"

abbreviation km_steps :: "km_state \<Rightarrow> km_state \<Rightarrow> bool" where
  "km_steps \<equiv> km_step\<^sup>*\<^sup>*"

definition km_start :: km_state where
  "km_start = (km_core_init km_mock_host, km_mock_setup)"

abbreviation km_reachable :: "km_state \<Rightarrow> bool" where
  "km_reachable \<equiv> km_steps km_start"

abbreviation mock_view :: "km_mock_t \<Rightarrow> km_world" where
  "mock_view \<equiv> km_view km_mock_host mock_pressed mock_alarm"

definition km_good :: "km_state \<Rightarrow> bool" where
  "km_good = (\<lambda>(km, m). km_wf km_mock_host km \<and> sp_inv (km_abs km, mock_view m))"

lemma mock_do:
  assumes "km_wf km_mock_host km" "op_ok op"
  shows "\<exists>km' m'. km_do op (km, m) = Some (km', m') \<and> km_wf km_mock_host km' \<and>
    sp_do mock_wired op (km_abs km, mock_view m) = (km_abs km', mock_view m')"
proof -
  obtain km' m' where "km_do op (km, m) = Some (km', m')" "km_wf km_mock_host km'"
    "km_abs km' = fst (sp_do mock_wired op (km_abs km, mock_view m))"
    "mock_view m' = snd (sp_do mock_wired op (km_abs km, mock_view m))"
    using mock.do_refines [OF assms] by (rule mock.refinesE)
  then show ?thesis by (metis prod.collapse)
qed

lemma good_do:
  assumes "km_good (km, m)" "op_ok op" "km_do op (km, m) = Some st'"
  shows "km_good st'"
proof -
  obtain km' m' where d: "km_do op (km, m) = Some (km', m')" "km_wf km_mock_host km'"
    "sp_do mock_wired op (km_abs km, mock_view m) = (km_abs km', mock_view m')"
    using mock_do [OF _ assms(2), of km m] assms(1) by (auto simp: km_good_def)
  moreover have "sp_inv (sp_do mock_wired op (km_abs km, mock_view m))"
    using assms(1,2) by (intro sp_do_inv) (simp_all add: km_good_def)
  ultimately show ?thesis using assms(3) by (simp add: km_good_def)
qed

lemma good_step: "km_step st st' \<Longrightarrow> km_good st \<Longrightarrow> km_good st'"
proof (induction rule: km_step.induct)
  case (call op st st')
  then show ?case by (cases st) (auto intro: good_do)
next
  case (tick km m n)
  then show ?case
    by (auto simp: km_good_def sp_inv_def km_view_def mock_alarm_def split: option.splits if_splits)
next
  case (due m km st')
  then show ?case by (auto intro: good_do [of km m Alarm] simp: op_ok_def km_do_def)
qed

lemma good_start: "km_good km_start"
proof -
  have "sp_inv (km_abs (km_core_init km_mock_host), mock_view km_mock_setup)"
    by (simp add: sp_inv_def km_abs_def km_core_init_def km_view_def mock_alarm_def km_mock_setup_def)
  then show ?thesis by (simp add: km_good_def km_start_def km_wf_init)
qed

lemma reachable_good: "km_reachable st \<Longrightarrow> km_good st"
  by (induction rule: rtranclp_induct) (auto intro: good_start good_step)

text \<open>What the invariant says of the fields of the code.\<close>

lemma good_fields:
  assumes "km_good (km, m)"
  shows "mk_alarm_set m \<longleftrightarrow> km_active km \<and> km_mode km \<noteq> KM_MODE_PRESS_STICKY"
    and "km_active km \<longleftrightarrow> km_mode km \<noteq> KM_MODE_IDLE"
    and "km_n_keys km \<le> 16" and "0 < km_n_keys km \<longleftrightarrow> km_active km"
    and "last_reason km \<noteq> KM_RELEASE_NONE \<Longrightarrow>
      last_reason km = KM_RELEASE_OBSERVED \<and> km_mode km = KM_MODE_TAP_OBSERVED"
    and "mk_alarm_set m \<Longrightarrow> last_reason km = KM_RELEASE_NONE \<Longrightarrow> mk_alarm_clk m = timeout_clk km"
  using assms
  by (auto simp: km_good_def km_wf_def sp_inv_def km_abs_def km_view_def mock_alarm_def inj_ok_def
      split: if_splits)

section \<open>Properties\<close>

text \<open>C11: Whatever monitor commands, binary-monitor bodies, CIA reads and alarms are run in whatever
  order, no operation accesses an array outside its bounds, and the core's state, the keys that are
  down and the release alarm are at every point those of the contract.\<close>

theorem km_refines_contract:
  assumes "list_all op_ok ops"
  shows "\<exists>km m. for_each km_do ops km_start = Some (km, m) \<and>
    (km_abs km, mock_view m) = fold (sp_do mock_wired) ops (km_abs (fst km_start), mock_view (snd km_start))"
  using mock.run_refines [OF km_wf_init assms, of km_mock_setup]
  by (auto simp: mock.refines_def km_start_def)

lemma km_refines_contract_witness:
  "\<exists>km m. for_each km_do [Tap (Some ''a''), Pa_Read 0xfd, Alarm] km_start = Some (km, m) \<and>
    (km_abs km, mock_view m) = fold (sp_do mock_wired) [Tap (Some ''a''), Pa_Read 0xfd, Alarm]
      (km_abs (fst km_start), mock_view (snd km_start))"
  by (rule km_refines_contract) (simp add: op_ok_def c_string_def char_eval)

text \<open>C6: In every reachable state the release alarm is armed exactly while a tap is active, an
  active injection has 1 to 16 keys and an idle core has none, only an observed tap has a reason
  recorded, an unobserved tap's alarm is its timeout, and every operation can be run.\<close>

theorem km_reachable_invariant:
  assumes "km_reachable (km, m)"
  shows "(mk_alarm_set m \<longleftrightarrow> km_mode km = KM_MODE_TAP_OBSERVED \<or> km_mode km = KM_MODE_TAP_FIXED) \<and>
    (km_active km \<longleftrightarrow> km_mode km \<noteq> KM_MODE_IDLE) \<and> (0 < km_n_keys km \<longleftrightarrow> km_active km) \<and> km_n_keys km \<le> 16 \<and>
    (last_reason km \<noteq> KM_RELEASE_NONE \<longrightarrow>
       last_reason km = KM_RELEASE_OBSERVED \<and> km_mode km = KM_MODE_TAP_OBSERVED) \<and>
    (mk_alarm_set m \<and> last_reason km = KM_RELEASE_NONE \<longrightarrow> mk_alarm_clk m = timeout_clk km) \<and>
    (\<forall>op. op_ok op \<longrightarrow> km_do op (km, m) \<noteq> None)"
proof -
  have g: "km_good (km, m)" by (rule reachable_good [OF assms])
  have "km_do op (km, m) \<noteq> None" if "op_ok op" for op
    using g mock_do [OF _ that, of km m] by (auto simp: km_good_def)
  moreover have "mk_alarm_set m \<longleftrightarrow> km_mode km = KM_MODE_TAP_OBSERVED \<or> km_mode km = KM_MODE_TAP_FIXED"
    using good_fields(1,2) [OF g] by (cases "km_mode km") auto
  ultimately show ?thesis using good_fields [OF g] by blast
qed

lemma km_reachable_invariant_witness:
  "km_reachable km_start \<and> \<not> mk_alarm_set (snd km_start) \<and> \<not> km_active (fst km_start)"
  using km_reachable_invariant [of "fst km_start" "snd km_start"]
  by (simp add: km_start_def km_core_init_def)

lemma mock_host_sel [simp]:
  "host_now km_mock_host = mk_clock" "cycles_per_frame km_mock_host = mk_cpf"
  by (simp_all add: km_mock_host_def)

lemma mock_view_sel [simp]:
  "w_pressed (mock_view m) = mock_pressed m" "w_alarm (mock_view m) = mock_alarm m"
  "w_now (mock_view m) = mk_clock m" "w_cpf (mock_view m) = mk_cpf m"
  by (simp_all add: km_view_def km_mock_host_def)

text \<open>The state after tapping the key A, for the examples.\<close>

definition key_A :: km_key_t where
  "key_A = \<lparr>row = 1, col = 2, kind = 0, key_name = ''A''\<rparr>"

lemma sp_keys_a: "sp_keys (Some ''a'') = Some ([key_A], - 1)"
proof -
  have "parse_key_token ''a'' = Some key_A"
    unfolding parse_key_token_def key_A_def
    by (simp add: find_key_hit [of "''A''" 1 2 0] c64_keys_def char_eval)
  then show ?thesis
    by (simp add: sp_keys_def no_args_def line_words_def blank_def km_max_keys_def char_eval)
qed

lemma tapped_a:
  obtains km m where "km_do (Tap (Some ''a'')) km_start = Some (km, m)" "km_reachable (km, m)"
    "km_active km" "km_mode km = KM_MODE_TAP_OBSERVED" "take (km_n_keys km) (km_keys km) = [key_A]"
    "last_reason km = KM_RELEASE_NONE" "mock_alarm m = Some (1000 + 60 * 19656)" "mk_clock m = 1000"
    "mk_cpf m = 19656" "timeout_clk km = 1000 + 60 * 19656" "press_clk km = 1000"
    "mock_pressed m = (\<lambda>r c. r = 1 \<and> c = 2)"
proof -
  have ok: "op_ok (Tap (Some ''a''))" by (simp add: op_ok_def c_string_def char_eval)
  obtain km m where d: "km_do (Tap (Some ''a'')) km_start = Some (km, m)"
    "sp_do mock_wired (Tap (Some ''a'')) (km_abs (km_core_init km_mock_host), mock_view km_mock_setup) =
       (km_abs km, mock_view m)"
    using mock_do [OF km_wf_init ok, of km_mock_setup] unfolding km_start_def by blast
  have step: "km_step km_start (km, m)" by (rule km_step.call [OF ok _ d(1)]) simp
  have start: "km_abs (km_core_init km_mock_host) = \<lparr>sp_inj = None, sp_report = None, sp_timeout = 0\<rparr>"
    "mock_view km_mock_setup = \<lparr>w_pressed = (\<lambda>_ _. False), w_alarm = None, w_now = 1000, w_cpf = 19656\<rparr>"
    by (simp_all add: km_abs_def km_core_init_def km_view_def km_mock_host_def km_mock_setup_def
        mock_pressed_def mock_alarm_def fun_eq_iff)
  have w: "mock_wired 1 c \<and> c = 2 \<longleftrightarrow> c = 2" for c
    by (auto simp: mock_wired_def on_matrix_def)
  have e: "km_abs km = fst (sp_do mock_wired (Tap (Some ''a'')) (km_abs (km_core_init km_mock_host), mock_view km_mock_setup))"
    "mock_view m = snd (sp_do mock_wired (Tap (Some ''a'')) (km_abs (km_core_init km_mock_host), mock_view km_mock_setup))"
    by (simp_all add: d(2))
  have key: "row key_A = 1" "col key_A = 2" by (simp_all add: key_A_def)
  have abs: "km_abs km = \<lparr>sp_inj = Some \<lparr>inj_keys = [key_A], inj_mode = KM_MODE_TAP_OBSERVED, inj_total = 0,
      inj_sampling = 0, inj_reason = KM_RELEASE_NONE, inj_press = 1000\<rparr>, sp_report = None,
      sp_timeout = 1000 + 60 * 19656\<rparr>"
    and view: "mock_view m = \<lparr>w_pressed = (\<lambda>r c. r = 1 \<and> c = 2), w_alarm = Some (1000 + 60 * 19656),
      w_now = 1000, w_cpf = 19656\<rparr>"
    unfolding e
    by (simp_all add: start sp_do_def sp_keys_a sp_tap_def sp_inject_def sp_release_now_def sp_arm_def
        sp_drive_def at_key_def [abs_def] w key cong del: if_weak_cong)
  show ?thesis
  proof (rule that [OF d(1)])
    show "km_reachable (km, m)" using step by (rule r_into_rtranclp)
  qed (use abs view in \<open>auto simp: km_abs_def km_view_def km_mock_host_def split: if_splits\<close>)
qed

lemma alarm_effect:
  assumes "km_reachable (km, m)" "mk_alarm_set m"
  shows "\<exists>km' m'. km_core_on_alarm (km, m) = Some (km', m') \<and> \<not> km_active km' \<and> \<not> mk_alarm_set m' \<and>
    (\<forall>r c. mock_pressed m' r c \<longleftrightarrow>
       mock_pressed m r c \<and> \<not> list_ex (at_key r c) (take (km_n_keys km) (km_keys km))) \<and>
    (let l = km_last km'
     in last_valid l \<and> take (last_n_keys l) (last_keys l) = take (km_n_keys km) (km_keys km) \<and>
        last_release l = (if last_reason km = KM_RELEASE_OBSERVED then KM_RELEASE_OBSERVED else KM_RELEASE_TIMEOUT) \<and>
        last_frames_held l = frames_held (mk_cpf m) (mk_clock m) (press_clk km))"
proof -
  have g: "km_good (km, m)" by (rule reachable_good [OF assms(1)])
  then have wf: "km_wf km_mock_host km" by (simp add: km_good_def)
  have act: "km_active km" and reason: "last_reason km \<noteq> KM_RELEASE_NONE \<Longrightarrow> last_reason km = KM_RELEASE_OBSERVED"
    using good_fields [OF g] assms(2) by auto
  obtain km' m' where d: "km_core_on_alarm (km, m) = Some (km', m')"
    "sp_release_now mock_wired KM_RELEASE_TIMEOUT (km_abs km, mock_view m) = (km_abs km', mock_view m')"
    using mock_do [OF wf, of Alarm m] by (auto simp: op_ok_def km_do_def sp_do_def)
  have wired: "mock_pressed m r c \<Longrightarrow> mock_wired r c" for r c
    by (auto simp: mock_pressed_def mock_wired_def split: if_splits)
  have e: "km_abs km' = fst (sp_release_now mock_wired KM_RELEASE_TIMEOUT (km_abs km, mock_view m))"
    "mock_view m' = snd (sp_release_now mock_wired KM_RELEASE_TIMEOUT (km_abs km, mock_view m))"
    by (simp_all add: d(2))
  have inj: "sp_inj (km_abs km) = Some \<lparr>inj_keys = take (km_n_keys km) (km_keys km), inj_mode = km_mode km,
      inj_total = cia1_reads_total km, inj_sampling = cia1_reads_sampling km, inj_reason = last_reason km,
      inj_press = press_clk km\<rparr>"
    using act by (simp add: km_abs_def)
  have view: "mock_view m' = (sp_drive mock_wired (take (km_n_keys km) (km_keys km)) False (mock_view m))\<lparr>w_alarm := None\<rparr>"
    and abs: "sp_inj (km_abs km') = None" "sp_report (km_abs km') = Some
      \<lparr>rep_keys = take (km_n_keys km) (km_keys km), rep_mode = km_mode km, rep_total = cia1_reads_total km,
       rep_sampling = cia1_reads_sampling km,
       rep_reason = (if last_reason km \<noteq> KM_RELEASE_NONE then last_reason km else KM_RELEASE_TIMEOUT),
       rep_frames = frames_held (mk_cpf m) (mk_clock m) (press_clk km)\<rparr>"
    unfolding e by (simp_all add: sp_release_now_def inj cong del: if_weak_cong)
  from view have "mock_alarm m' = None" and pressed: "mock_pressed m' =
      (\<lambda>r c. if mock_wired r c \<and> list_ex (at_key r c) (take (km_n_keys km) (km_keys km)) then False else mock_pressed m r c)"
    by (simp_all add: km_view_def sp_drive_def cong del: if_weak_cong)
  with abs reason wired show ?thesis
    by (intro exI [of _ km'] exI [of _ m'])
      (auto simp: d(1) km_abs_def mock_alarm_def Let_def split: if_splits)
qed

text \<open>When the release alarm of a tap fires, at whatever reachable moment, the injection ends:
  all its keys are up and no other key has moved, the alarm is off, and the report says which keys,
  how many frames they were held, and \<open>observed\<close> if a scan saw them, else \<open>timeout\<close>.\<close>

theorem km_alarm_releases:
  assumes "km_reachable (km, m)" "mk_alarm_set m"
  shows "\<exists>km' m'. km_core_on_alarm (km, m) = Some (km', m') \<and> \<not> km_active km' \<and> \<not> mk_alarm_set m' \<and>
    (\<forall>r c. mock_pressed m' r c \<longleftrightarrow>
       mock_pressed m r c \<and> \<not> list_ex (at_key r c) (take (km_n_keys km) (km_keys km))) \<and>
    (let l = km_last km'
     in last_valid l \<and> take (last_n_keys l) (last_keys l) = take (km_n_keys km) (km_keys km) \<and>
        last_release l = (if last_reason km = KM_RELEASE_OBSERVED then KM_RELEASE_OBSERVED else KM_RELEASE_TIMEOUT) \<and>
        last_frames_held l = frames_held (mk_cpf m) (mk_clock m) (press_clk km))"
  by (rule alarm_effect [OF assms])

lemma km_alarm_releases_witness:
  "\<exists>km m km' m'. km_reachable (km, m) \<and> mock_pressed m 1 2 \<and> km_core_on_alarm (km, m) = Some (km', m') \<and>
     \<not> mock_pressed m' 1 2 \<and> last_release (km_last km') = KM_RELEASE_TIMEOUT"
proof (rule tapped_a)
  fix km m
  assume a: "km_reachable (km, m)" "take (km_n_keys km) (km_keys km) = [key_A]"
    "last_reason km = KM_RELEASE_NONE" "mock_alarm m = Some (1000 + 60 * 19656)"
    "mock_pressed m = (\<lambda>r c. r = 1 \<and> c = 2)"
  from a(4) have "mk_alarm_set m" by (auto simp: mock_alarm_def split: if_splits)
  from km_alarm_releases [OF a(1) this] obtain km' m' where
    "km_core_on_alarm (km, m) = Some (km', m')" "\<not> mock_pressed m' 1 2"
    "last_release (km_last km') = KM_RELEASE_TIMEOUT"
    using a(2,3) by (auto simp: Let_def at_key_def key_A_def)
  moreover from a(5) have "mock_pressed m 1 2" by simp
  ultimately show ?thesis using a(1) by blast
qed

text \<open>C14: A tap never stays stuck. In every reachable state with a tap active the release alarm is armed,
  for its timeout while it is unobserved; once the clock has run on to the armed time, the callback of the
  alarm, due then, leaves the core idle, the alarm off and none of the tapped keys down.\<close>

theorem km_tap_ends:
  assumes "km_reachable (km, m)" "km_mode km = KM_MODE_TAP_OBSERVED \<or> km_mode km = KM_MODE_TAP_FIXED"
  shows "let n = (if mk_alarm_clk m \<le> mk_clock m then 0 else mk_alarm_clk m - mk_clock m);
             m1 = m\<lparr>mk_clock := mk_clock m + n\<rparr>
    in mk_alarm_set m \<and> (last_reason km = KM_RELEASE_NONE \<longrightarrow> mk_alarm_clk m = timeout_clk km) \<and>
      mk_alarm_clk m1 \<le> mk_clock m1 \<and>
      (\<exists>km' m'. km_core_on_alarm (km, m1) = Some (km', m') \<and> \<not> km_active km' \<and> \<not> mk_alarm_set m' \<and>
        (\<forall>k \<in> set (take (km_n_keys km) (km_keys km)). \<not> mock_pressed m' (row k) (col k)))"
proof -
  let ?n = "if mk_alarm_clk m \<le> mk_clock m then 0 else mk_alarm_clk m - mk_clock m"
  let ?m = "m\<lparr>mk_clock := mk_clock m + ?n\<rparr>"
  note g = good_fields [OF reachable_good [OF assms(1)]]
  have set: "mk_alarm_set m" using g(1,2) assms(2) by auto
  have "km_step (km, m) (km, ?m)" by (rule km_step.tick)
  with assms(1) have reach: "km_reachable (km, ?m)" by (rule rtranclp.rtrancl_into_rtrancl)
  from alarm_effect [OF this] set obtain km' m' where a: "km_core_on_alarm (km, ?m) = Some (km', m')"
    "\<not> km_active km'" "\<not> mk_alarm_set m'"
    "\<forall>r c. mock_pressed m' r c \<longleftrightarrow>
       mock_pressed ?m r c \<and> \<not> list_ex (at_key r c) (take (km_n_keys km) (km_keys km))"
    by auto
  have "\<not> mock_pressed m' (row k) (col k)" if "k \<in> set (take (km_n_keys km) (km_keys km))" for k
    using a(4) that by (auto simp: list_ex_iff at_key_def)
  moreover have "mk_alarm_clk ?m \<le> mk_clock ?m" by simp
  ultimately show ?thesis using a(1-3) set g(6) [OF set] unfolding Let_def by blast
qed

lemma km_tap_ends_witness:
  "\<exists>km m km' m'. km_reachable (km, m) \<and> mock_pressed m 1 2 \<and> mk_clock m = 1000 \<and> mk_alarm_clk m = 1000 + 60 * 19656 \<and>
    km_core_on_alarm (km, m\<lparr>mk_clock := 1000 + 60 * 19656\<rparr>) = Some (km', m') \<and> \<not> mock_pressed m' 1 2"
proof (rule tapped_a)
  fix km m
  assume a: "km_reachable (km, m)" "km_mode km = KM_MODE_TAP_OBSERVED" "take (km_n_keys km) (km_keys km) = [key_A]"
    "mock_pressed m = (\<lambda>r c. r = 1 \<and> c = 2)" "mk_clock m = 1000" "timeout_clk km = 1000 + 60 * 19656"
    "last_reason km = KM_RELEASE_NONE"
  have e: "mk_alarm_clk m = 1000 + 60 * 19656" using km_tap_ends [OF a(1)] a(2,6,7) by (simp add: Let_def)
  with km_tap_ends [OF a(1)] a(2,5) obtain km' m' where
    "km_core_on_alarm (km, m\<lparr>mk_clock := 1000 + 60 * 19656\<rparr>) = Some (km', m')"
    "\<forall>k \<in> set (take (km_n_keys km) (km_keys km)). \<not> mock_pressed m' (row k) (col k)"
    by (auto simp: Let_def)
  moreover from this(2) a(3) have "\<not> mock_pressed m' 1 2" by (simp add: key_A_def)
  moreover from a(4) have "mock_pressed m 1 2" by simp
  ultimately show ?thesis using a(1,5) e by blast
qed

lemma do_view:
  assumes "km_good (km, m)" "op_ok op"
  shows "\<exists>km' m'. km_do op (km, m) = Some (km', m') \<and> km_good (km', m') \<and>
    km_abs km' = fst (sp_do mock_wired op (km_abs km, mock_view m)) \<and>
    mock_view m' = snd (sp_do mock_wired op (km_abs km, mock_view m))"
proof -
  obtain km' m' where d: "km_do op (km, m) = Some (km', m')"
    "sp_do mock_wired op (km_abs km, mock_view m) = (km_abs km', mock_view m')"
    using mock_do [OF _ assms(2), of km m] assms(1) by (auto simp: km_good_def)
  moreover have "km_good (km', m')" by (rule good_do [OF assms d(1)])
  ultimately show ?thesis by simp
qed

lemma pressed_wired: "mock_pressed m r c \<Longrightarrow> mock_wired r c"
  by (auto simp: mock_pressed_def mock_wired_def split: if_splits)

abbreviation injected :: "'h km_core_t \<Rightarrow> km_key_t list" where
  "injected km \<equiv> take (km_n_keys km) (km_keys km)"

lemma superseded_view:
  assumes "km_good (km, m)"
  shows "snd (sp_release_now mock_wired rs (km_abs km, mock_view m)) =
      \<lparr>w_pressed = (\<lambda>r c. mock_pressed m r c \<and> \<not> list_ex (at_key r c) (injected km)), w_alarm = None,
       w_now = mk_clock m, w_cpf = mk_cpf m\<rparr>" (is ?W)
    and "km_active km \<Longrightarrow>
      sp_report (fst (sp_release_now mock_wired rs (km_abs km, mock_view m))) = Some
        \<lparr>rep_keys = injected km, rep_mode = km_mode km, rep_total = cia1_reads_total km,
         rep_sampling = cia1_reads_sampling km,
         rep_reason = (if last_reason km = KM_RELEASE_OBSERVED then KM_RELEASE_OBSERVED else rs),
         rep_frames = frames_held (mk_cpf m) (mk_clock m) (press_clk km)\<rparr>"
proof -
  note g = good_fields [OF assms]
  have view: "mock_view m = \<lparr>w_pressed = mock_pressed m, w_alarm = mock_alarm m, w_now = mk_clock m,
      w_cpf = mk_cpf m\<rparr>"
    by (simp add: km_view_def)
  show ?W
  proof (cases "km_active km")
    case True
    with pressed_wired show ?thesis
      by (auto simp: sp_release_now_def km_abs_def view sp_drive_def fun_eq_iff)
  next
    case False
    then have "mock_alarm m = None" "km_n_keys km = 0" using g by (auto simp: mock_alarm_def)
    with False show ?thesis by (simp add: sp_release_now_def km_abs_def view)
  qed
  show "km_active km \<Longrightarrow>
      sp_report (fst (sp_release_now mock_wired rs (km_abs km, mock_view m))) = Some
        \<lparr>rep_keys = injected km, rep_mode = km_mode km, rep_total = cia1_reads_total km,
         rep_sampling = cia1_reads_sampling km,
         rep_reason = (if last_reason km = KM_RELEASE_OBSERVED then KM_RELEASE_OBSERVED else rs),
         rep_frames = frames_held (mk_cpf m) (mk_clock m) (press_clk km)\<rparr>"
    using g(5) by (auto simp: sp_release_now_def km_abs_def)
qed

text \<open>C19: A tap of a well-formed argument line, from any reachable state, ends the injection that was
  active (its keys up, reported as \<open>manual\<close> unless a scan had seen it), puts exactly the parsed keys
  down, leaves every other key alone, and arms the alarm the given number of frames, by default 60,
  after the present clock.\<close>

theorem km_tap_effect:
  assumes "km_reachable (km, m)" "c_string args" "sp_keys (Some args) = Some (ks, f)"
  shows "\<exists>km' m'. km_core_tap (Some args) (km, m) = Some (km', m') \<and>
    injected km' = ks \<and> km_mode km' = (if 0 < f then KM_MODE_TAP_FIXED else KM_MODE_TAP_OBSERVED) \<and>
    mock_alarm m' = Some (mk_clock m + of_int (if 0 < f then f else 60) *
      of_int (if mk_cpf m \<le> 0 then 19656 else mk_cpf m)) \<and>
    (\<forall>r c. mock_pressed m' r c \<longleftrightarrow> mock_wired r c \<and> list_ex (at_key r c) ks \<or>
      mock_pressed m r c \<and> \<not> list_ex (at_key r c) (injected km)) \<and>
    (km_active km \<longrightarrow> last_release (km_last km') =
      (if last_reason km = KM_RELEASE_OBSERVED then KM_RELEASE_OBSERVED else KM_RELEASE_MANUAL))"
proof -
  have g: "km_good (km, m)" by (rule reachable_good [OF assms(1)])
  let ?mode = "if 0 < f then KM_MODE_TAP_FIXED else KM_MODE_TAP_OBSERVED"
  let ?frames = "if 0 < f then f else 60"
  obtain km' m' where d: "km_core_tap (Some args) (km, m) = Some (km', m')"
    "km_abs km' = fst (sp_do mock_wired (Tap (Some args)) (km_abs km, mock_view m))"
    "mock_view m' = snd (sp_do mock_wired (Tap (Some args)) (km_abs km, mock_view m))"
    using do_view [OF g, of "Tap (Some args)"] assms(2) by (auto simp: op_ok_def km_do_def)
  obtain s1 w1 where r: "sp_release_now mock_wired KM_RELEASE_MANUAL (km_abs km, mock_view m) = (s1, w1)" by force
  note w1 = superseded_view [OF g, of KM_RELEASE_MANUAL, unfolded r, simplified]
  have tap: "sp_do mock_wired (Tap (Some args)) (km_abs km, mock_view m) =
      sp_tap mock_wired ks ?mode ?frames (km_abs km, mock_view m)"
    by (simp add: sp_do_def assms(3))
  have inj: "sp_inj (km_abs km') = Some \<lparr>inj_keys = ks, inj_mode = ?mode, inj_total = 0, inj_sampling = 0,
      inj_reason = KM_RELEASE_NONE, inj_press = mk_clock m\<rparr>"
    and rep: "sp_report (km_abs km') = sp_report s1"
    unfolding d(2) tap by (simp_all add: sp_tap_def sp_inject_def sp_arm_def r w1 Let_def)
  have alarm: "w_alarm (mock_view m') = Some (mk_clock m + of_int ?frames *
      of_int (if mk_cpf m \<le> 0 then 19656 else mk_cpf m))"
    and pressed: "w_pressed (mock_view m') = (\<lambda>r c. if mock_wired r c \<and> list_ex (at_key r c) ks then True
        else mock_pressed m r c \<and> \<not> list_ex (at_key r c) (injected km))"
    unfolding d(3) tap by (simp_all add: sp_tap_def sp_inject_def sp_arm_def r w1 Let_def sp_drive_def)
  from inj have fields: "injected km' = ks" "km_mode km' = ?mode"
    by (auto simp: km_abs_def split: if_splits)
  have "last_release (km_last km') = (if last_reason km = KM_RELEASE_OBSERVED then KM_RELEASE_OBSERVED else KM_RELEASE_MANUAL)"
    if "km_active km"
    using rep w1(2) [OF that] by (auto simp: km_abs_def Let_def split: if_splits)
  with d(1) fields alarm pressed show ?thesis
    by (intro exI [of _ km'] exI [of _ m']) (simp only: mock_view_sel, auto)
qed

lemma km_tap_effect_witness:
  "\<exists>km m. km_core_tap (Some ''a'') km_start = Some (km, m) \<and> injected km = [key_A] \<and>
     mock_alarm m = Some (1000 + 60 * 19656) \<and> mock_pressed m 1 2 \<and> \<not> mock_pressed m 0 0"
proof -
  have "km_reachable (fst km_start, snd km_start)" "c_string ''a''" by (simp_all add: c_string_def char_eval)
  note tap = km_tap_effect [OF this sp_keys_a]
  have start: "mk_clock (snd km_start) = 1000" "mk_cpf (snd km_start) = 19656"
    "\<not> mock_pressed (snd km_start) r c" for r c
    by (simp_all add: km_start_def km_mock_setup_def mock_pressed_def)
  obtain km m where "km_core_tap (Some ''a'') km_start = Some (km, m)" "injected km = [key_A]"
    "mock_alarm m = Some (1000 + 60 * 19656)"
    "\<And>r c. mock_pressed m r c \<longleftrightarrow> mock_wired r c \<and> list_ex (at_key r c) [key_A]"
    using tap by (auto simp: start)
  moreover have "mock_wired 1 2" by (simp add: mock_wired_def on_matrix_def)
  ultimately show ?thesis by (auto simp: at_key_def key_A_def)
qed

text \<open>C21: While a tap waits to be seen, a port A scan that drives the row of an injected matrix key
  low moves the release alarm to the next cycle and records \<open>observed\<close>; any other scan leaves alarm
  and reason alone. No scan moves a key, and each is counted.\<close>

theorem km_scan_observes:
  assumes "km_reachable (km, m)" "km_mode km = KM_MODE_TAP_OBSERVED" "last_reason km = KM_RELEASE_NONE"
  shows "\<exists>km' m'. km_core_cia1_pa_read sm (km, m) = Some (km', m') \<and>
    (if list_ex (\<lambda>k. kind k = 0 \<and> row k \<in> {0..7} \<and> \<not> bit sm (nat (row k))) (injected km)
     then mock_alarm m' = Some (mk_clock m + 1) \<and> last_reason km' = KM_RELEASE_OBSERVED
     else mock_alarm m' = mock_alarm m \<and> last_reason km' = KM_RELEASE_NONE) \<and>
    mock_pressed m' = mock_pressed m \<and> injected km' = injected km \<and>
    cia1_reads_total km' = cia1_reads_total km + 1"
proof -
  have g: "km_good (km, m)" by (rule reachable_good [OF assms(1)])
  then have act: "km_active km" "km_host km = km_mock_host" "km_n_keys km \<le> length (km_keys km)"
    using assms(2) good_fields(2) [OF g] by (simp_all add: km_good_def km_wf_def)
  have hit: "line_hit row sm = (\<lambda>k. kind k = 0 \<and> row k \<in> {0..7} \<and> \<not> bit sm (nat (row k)))"
    by (auto simp: line_hit_def fun_eq_iff)
  have alarm: "set_alarm km_mock_host t m = m\<lparr>mk_alarm_clk := t, mk_alarm_set := True\<rparr>" for t
    by (simp add: km_mock_host_def)
  show ?thesis
  proof (cases "list_ex (line_hit row sm) (injected km)")
    case True
    then show ?thesis unfolding hit [symmetric]
      using act assms(2,3)
      by (simp add: km_core_cia1_pa_read_def km_line_sampled_Some km_observe_def Let_def alarm mock_alarm_def)
  next
    case False
    then show ?thesis unfolding hit [symmetric]
      using act assms(2,3)
      by (simp add: km_core_cia1_pa_read_def km_line_sampled_Some km_observe_def Let_def)
  qed
qed

lemma km_scan_observes_witness:
  "\<exists>km m km' m'. km_reachable (km, m) \<and> km_core_cia1_pa_read 0xfd (km, m) = Some (km', m') \<and>
     mock_alarm m' = Some (mk_clock m + 1) \<and> last_reason km' = KM_RELEASE_OBSERVED"
proof (rule tapped_a)
  fix km m
  assume a: "km_reachable (km, m)" "km_mode km = KM_MODE_TAP_OBSERVED" "last_reason km = KM_RELEASE_NONE"
    "injected km = [key_A]"
  have "\<not> bit (0xfd :: u8) 1" by (simp add: bit_iff_odd)
  with km_scan_observes [OF a(1-3), of "0xfd"] a(4) obtain km' m' where
    "km_core_cia1_pa_read 0xfd (km, m) = Some (km', m')" "mock_alarm m' = Some (mk_clock m + 1)"
    "last_reason km' = KM_RELEASE_OBSERVED"
    by (auto simp: key_A_def split: if_splits)
  with a(1) show ?thesis by blast
qed

text \<open>Releasing all keys, from any reachable state, leaves every position of the matrix up, the core
  idle and the alarm off.\<close>

theorem km_release_all:
  assumes "km_reachable (km, m)"
  shows "\<exists>km' m'. km_core_release None (km, m) = Some (km', m') \<and> \<not> km_active km' \<and> mock_alarm m' = None \<and>
    (\<forall>r c. mock_pressed m' r c \<longrightarrow> r < 0)"
proof -
  have g: "km_good (km, m)" by (rule reachable_good [OF assms])
  obtain km' m' where d: "km_core_release None (km, m) = Some (km', m')" "km_good (km', m')"
    "km_abs km' = fst (sp_release_all mock_wired (km_abs km, mock_view m))"
    "mock_view m' = snd (sp_release_all mock_wired (km_abs km, mock_view m))"
    using do_view [OF g, of "Release None"] by (auto simp: op_ok_def km_do_def sp_do_def no_args_def)
  obtain s1 w1 where r: "sp_release_now mock_wired KM_RELEASE_MANUAL (km_abs km, mock_view m) = (s1, w1)" by force
  have "sp_inj s1 = None" using release_now_inv [OF _ r] g by (simp add: km_good_def)
  moreover have "km_abs km' = s1" by (simp add: d(3) sp_release_all_def r)
  ultimately have "\<not> km_active km'" by (auto simp: km_abs_def)
  moreover have "w_alarm (mock_view m') = None \<and> w_pressed (mock_view m') =
      (\<lambda>r c. r < 0 \<and> mock_pressed m r c \<and> \<not> list_ex (at_key r c) (injected km))"
    unfolding d(4) using superseded_view(1) [OF g, of KM_RELEASE_MANUAL] by (simp add: sp_release_all_def r)
  ultimately show ?thesis using d(1) by auto
qed

lemma km_release_all_witness:
  "\<exists>km m km' m'. km_reachable (km, m) \<and> mock_pressed m 1 2 \<and> km_core_release None (km, m) = Some (km', m') \<and>
     \<not> mock_pressed m' 1 2"
proof (rule tapped_a)
  fix km m
  assume a: "km_reachable (km, m)" "mock_pressed m = (\<lambda>r c. r = 1 \<and> c = 2)"
  from a(2) have "mock_pressed m 1 2" by simp
  with km_release_all [OF a(1)] a(1) show ?thesis by fastforce
qed

text \<open>C31: A malformed binary-monitor body, too short for its count or with a tap count of 0 or more than
  16, is refused with -1 before any key moves or any injection ends; a well-formed one returns 0.\<close>

theorem km_binmon_checked:
  assumes "unat len \<le> length body" "km_reachable (km, m)"
  shows "(if bin_tap_ok body len then \<exists>st. km_core_binmon_tap body len (km, m) = Some (0, st)
      else km_core_binmon_tap body len (km, m) = Some (- 1, km, m)) \<and>
    (if bin_set_ok body len then \<exists>st. km_core_binmon_set body len (km, m) = Some (0, st)
      else km_core_binmon_set body len (km, m) = Some (- 1, km, m))"
proof -
  have g: "km_good (km, m)" by (rule reachable_good [OF assms(2)])
  then have "\<exists>st. map_option snd (km_core_binmon_tap body len (km, m)) = Some st"
    "\<exists>st. map_option snd (km_core_binmon_set body len (km, m)) = Some st"
    using do_view [OF g, of "Bin_Tap body len"] do_view [OF g, of "Bin_Set body len"] assms(1)
    by (auto simp: op_ok_def km_do_def)
  then obtain i st j tt where r: "km_core_binmon_tap body len (km, m) = Some (i, st)"
    "km_core_binmon_set body len (km, m) = Some (j, tt)" by auto
  note res = binmon_results [OF assms(1)]
  show ?thesis using r res(1) [OF r(2)] res(2) [OF r(1)] res(3,4) [of "(km, m)"] by simp
qed

lemma km_binmon_checked_witness:
  "km_core_binmon_tap [0, 0, 0, 17] 4 km_start = Some (- 1, km_start) \<and>
   (\<exists>st. km_core_binmon_tap [0, 0, 0, 1, 7, 7] 6 km_start = Some (0, st))"
  using km_binmon_checked [of 4 "[0, 0, 0, 17]" "fst km_start" "snd km_start"]
    km_binmon_checked [of 6 "[0, 0, 0, 1, 7, 7]" "fst km_start" "snd km_start"]
  by (simp add: bin_tap_ok_def)

section \<open>The status response\<close>

lemma le_val_put [simp]: "le_val (put_le32 v) = unat v" "le_val (put_le16 w) = unat w"
  unfolding put_le32_def put_le16_def by (rule le_val_fields)+

lemma length_put [simp]: "length (put_le32 v) = 4" "length (put_le16 w) = 2"
  by (simp_all add: put_le32_def put_le16_def)

lemma length_get_response: "length (km_get_response km h) = 24"
  by (simp add: km_get_response_def Let_def)

lemma matrix_byte: "c < 8 \<Longrightarrow> bit (of_int (x AND 255) :: u8) c \<longleftrightarrow> bit x c" for x :: int
proof -
  assume "c < 8"
  have "(255 :: int) = mask 8" by (simp add: mask_eq_exp_minus_1)
  with \<open>c < 8\<close> show ?thesis unfolding \<open>(255 :: int) = mask 8\<close> by (simp add: bit_word_of_int_iff bit_and_iff bit_mask_iff)
qed

lemma custom_bits:
  "bit (km_custom_bits km h) 0 \<longleftrightarrow> custom_key_get (km_host km) 1 h \<noteq> 0"
  "bit (km_custom_bits km h) (Suc 0) \<longleftrightarrow> custom_key_get (km_host km) 2 h \<noteq> 0"
  "bit (km_custom_bits km h) 2 \<longleftrightarrow> custom_key_get (km_host km) 3 h \<noteq> 0"
  "bit (km_custom_bits km h) 3 \<longleftrightarrow> custom_key_get (km_host km) 4 h \<noteq> 0"
  by (simp_all add: km_custom_bits_def Let_def bit_or_iff bit_iff_odd [of "numeral _ :: u8"])

lemma get_response_parts:
  fixes km :: "'h km_core_t"
  assumes "km_active km"
  shows "i < 8 \<Longrightarrow> km_get_response km h ! i = of_int (get_keyarr (km_host km) (int i) h AND 0xff)"
    "km_get_response km h ! 8 = km_custom_bits km h"
    "take 4 (drop 12 (km_get_response km h)) = put_le32 (cia1_reads_total km)"
    "take 4 (drop 16 (km_get_response km h)) = put_le32 (cia1_reads_sampling km)"
    "km_get_response km h ! 20 = reason_code (last_reason km)"
    "km_get_response km h ! 21 = of_nat (km_n_keys km)"
    "drop 22 (km_get_response km h) = put_le16 (km_frames_left km h)"
  using assms by (simp_all add: km_get_response_def nth_append Let_def del: upt_Suc)

text \<open>The frames left until the timeout.\<close>

lemma unat_frames_left:
  assumes "km_host km = km_mock_host" "km_active km" "0 < mk_cpf m" "mk_cpf m < 2 ^ 63"
  shows "unat (km_frames_left km m) = min 65535 ((unat (timeout_clk km) - unat (mk_clock m)) div nat (mk_cpf m))"
proof (cases "mk_clock m < timeout_clk km")
  case True
  define f where "f = (timeout_clk km - mk_clock m) div of_int (mk_cpf m)"
  have "(of_int (mk_cpf m) :: u64) = of_nat (nat (mk_cpf m))" using assms(3) by simp
  moreover have "nat (mk_cpf m) < 2 ^ 64" using assms(4) by simp
  ultimately have "unat (of_int (mk_cpf m) :: u64) = nat (mk_cpf m)"
    by (simp add: unat_of_nat take_bit_nat_eq_self del: of_nat_nat)
  moreover have "unat (timeout_clk km - mk_clock m) = unat (timeout_clk km) - unat (mk_clock m)"
    using True by (simp add: unat_sub)
  ultimately have f: "unat f = (unat (timeout_clk km) - unat (mk_clock m)) div nat (mk_cpf m)"
    by (simp add: f_def unat_div)
  have e: "km_frames_left km m = (if 65535 < f then 65535 else ucast f)"
    using assms(1-3) True by (simp add: km_frames_left_def f_def Let_def)
  have "unat (ucast f :: u16) = unat f" if "unat f \<le> 65535"
    using that by (simp add: unsigned_ucast_eq take_bit_nat_eq_self)
  then show ?thesis unfolding f [symmetric] e by (auto simp: word_less_nat_alt min_def)
next
  case False
  then show ?thesis using assms(1) by (simp add: km_frames_left_def word_less_nat_alt)
qed

text \<open>C32: The status response of an active injection, decoded: bytes 0 to 7 are the matrix rows, byte 8
  the special keys, then the read counters, the release reason and the number of keys, all little-endian
  in their documented places, and last the whole frames until an active tap's timeout, at most 65535, and
  0 for a sticky press; 24 bytes are written and nothing more. A sticky press made while an earlier tap's
  timeout is still ahead is left out: it is answered with the tap's frames.\<close>

theorem km_get_layout:
  assumes "km_reachable (km, m)" "km_active km" "24 \<le> unat n" "unat n \<le> length buf"
    and "0 < mk_cpf m" "mk_cpf m < 2 ^ 63" "km_mode km = KM_MODE_PRESS_STICKY \<Longrightarrow> timeout_clk km \<le> mk_clock m"
  shows "\<exists>r. km_core_binmon_get (Some buf) (Some n) (km, m) = Some (0, Some (r @ drop 24 buf), Some 24) \<and>
    length r = 24 \<and>
    (\<forall>i<8. \<forall>c<8. bit (r ! i) c \<longleftrightarrow> mock_pressed m (int i) (int c)) \<and>
    (bit (r ! 8) 0 \<longleftrightarrow> mock_pressed m km_row_restore_1 km_col_restore_1) \<and>
    (bit (r ! 8) 1 \<longleftrightarrow> mock_pressed m km_row_restore_2 km_col_restore_2) \<and>
    (bit (r ! 8) 2 \<longleftrightarrow> mock_pressed m km_row_capslock km_col_capslock) \<and>
    (bit (r ! 8) 3 \<longleftrightarrow> mock_pressed m km_row_4080column km_col_4080column) \<and>
    le_val (take 4 (drop 12 r)) = unat (cia1_reads_total km) \<and>
    le_val (take 4 (drop 16 r)) = unat (cia1_reads_sampling km) \<and>
    r ! 20 = reason_code (last_reason km) \<and> unat (r ! 21) = km_n_keys km \<and>
    le_val (drop 22 r) = (if km_mode km = KM_MODE_TAP_OBSERVED \<or> km_mode km = KM_MODE_TAP_FIXED
      then min 65535 ((unat (timeout_clk km) - unat (mk_clock m)) div nat (mk_cpf m)) else 0)"
proof -
  let ?r = "km_get_response km m"
  have g: "km_good (km, m)" by (rule reachable_good [OF assms(1)])
  then have host: "km_host km = km_mock_host" by (simp add: km_good_def km_wf_def)
  have get: "get_keyarr km_mock_host i m = mk_keyarr m i" "custom_key_get km_mock_host i m = mk_custom m i" for i
    by (simp_all add: km_mock_host_def)
  have "\<not> n < 24" using assms(3) by (simp add: word_less_nat_alt)
  then have run: "km_core_binmon_get (Some buf) (Some n) (km, m) = Some (0, Some (?r @ drop 24 buf), Some 24)"
    using assms(3,4) by (simp add: km_core_binmon_get_def aput_def length_get_response)
  have rows: "\<forall>i<8. \<forall>c<8. bit (?r ! i) c \<longleftrightarrow> mock_pressed m (int i) (int c)"
    using get_response_parts(1) [OF assms(2), of _ m] matrix_byte
    by (simp add: host get mock_pressed_def on_matrix_def)
  have keys: "mock_pressed m km_row_restore_1 km_col_restore_1 \<longleftrightarrow> mk_custom m 1 \<noteq> 0"
    "mock_pressed m km_row_restore_2 km_col_restore_2 \<longleftrightarrow> mk_custom m 2 \<noteq> 0"
    "mock_pressed m km_row_capslock km_col_capslock \<longleftrightarrow> mk_custom m 3 \<noteq> 0"
    "mock_pressed m km_row_4080column km_col_4080column \<longleftrightarrow> mk_custom m 4 \<noteq> 0"
    by (simp_all add: mock_pressed_def on_matrix_def custom_id_def km_sentinels)
  have n: "unat (of_nat (km_n_keys km) :: u8) = km_n_keys km"
    using good_fields(3) [OF g] by (simp add: unat_of_nat)
  have frames: "unat (km_frames_left km m) = (if km_mode km = KM_MODE_TAP_OBSERVED \<or> km_mode km = KM_MODE_TAP_FIXED
      then min 65535 ((unat (timeout_clk km) - unat (mk_clock m)) div nat (mk_cpf m)) else 0)"
    using unat_frames_left [OF host assms(2,5,6)] assms(2,7) good_fields(2) [OF g]
    by (cases "km_mode km") (auto simp: word_le_nat_alt)
  note parts = get_response_parts(2-7) [OF assms(2), of m]
  show ?thesis
    using run rows
    by (intro exI [of _ ?r]) (simp add: parts custom_bits keys host get n frames length_get_response)
qed

lemma km_get_layout_witness:
  "\<exists>km m r. km_reachable (km, m) \<and>
     km_core_binmon_get (Some (replicate 30 7)) (Some 30) (km, m) = Some (0, Some (r @ replicate 6 7), Some 24) \<and>
     bit (r ! 1) 2 \<and> \<not> bit (r ! 0) 0 \<and> le_val (drop 22 r) = 60"
proof (rule tapped_a)
  fix km m
  assume a: "km_reachable (km, m)" "km_active km" "km_mode km = KM_MODE_TAP_OBSERVED"
    "mock_pressed m = (\<lambda>r c. r = 1 \<and> c = 2)" "mk_clock m = 1000" "mk_cpf m = 19656" "timeout_clk km = 1000 + 60 * 19656"
  from km_get_layout [OF a(1,2), of 30 "replicate 30 7"] a(3,5-7) obtain r where
    r: "km_core_binmon_get (Some (replicate 30 7)) (Some 30) (km, m) = Some (0, Some (r @ replicate 6 7), Some 24)"
    "\<forall>i<8. \<forall>c<8. bit (r ! i) c \<longleftrightarrow> mock_pressed m (int i) (int c)" "le_val (drop 22 r) = 60"
    by auto
  have "bit (r ! 1) 2" "\<not> bit (r ! 0) 0" using r(2) [rule_format, of 1 2] r(2) [rule_format, of 0 0]
    by (simp_all add: a(4))
  with r(1,3) a(1) show ?thesis by blast
qed

text \<open>A sticky press reports frames until a timeout it does not have: pressing a key while a tap is
  active leaves the tap's timeout in place, no alarm is armed, and the status still counts 60 frames.\<close>

theorem km_press_stale_timeout:
  "\<exists>km m. km_reachable (km, m) \<and> km_mode km = KM_MODE_PRESS_STICKY \<and> mock_alarm m = None \<and>
     km_frames_left km m = 60"
proof (rule tapped_a)
  fix km m
  assume a: "km_reachable (km, m)" "mk_clock m = 1000" "mk_cpf m = 19656" "timeout_clk km = 1000 + 60 * 19656"
  have g: "km_good (km, m)" by (rule reachable_good [OF a(1)])
  have ok: "op_ok (Press (Some ''a''))" by (simp add: op_ok_def c_string_def char_eval)
  obtain km' m' where d: "km_do (Press (Some ''a'')) (km, m) = Some (km', m')" "km_good (km', m')"
    "km_abs km' = fst (sp_do mock_wired (Press (Some ''a'')) (km_abs km, mock_view m))"
    "mock_view m' = snd (sp_do mock_wired (Press (Some ''a'')) (km_abs km, mock_view m))"
    using do_view [OF g ok] by blast
  obtain s1 w1 where r: "sp_release_now mock_wired KM_RELEASE_MANUAL (km_abs km, mock_view m) = (s1, w1)" by force
  have t: "sp_timeout s1 = sp_timeout (km_abs km)"
    using r by (auto simp: sp_release_now_def split: option.splits)
  have inj: "sp_timeout (km_abs km') = timeout_clk km" "\<exists>i. sp_inj (km_abs km') = Some i \<and> inj_mode i = KM_MODE_PRESS_STICKY"
    unfolding d(3) by (simp_all add: sp_do_def sp_keys_a sp_inject_def r t) (simp add: km_abs_def)
  have view: "w_alarm (mock_view m') = None" "w_now (mock_view m') = 1000" "w_cpf (mock_view m') = 19656"
    unfolding d(4) using superseded_view(1) [OF g, of KM_RELEASE_MANUAL] a(2,3)
    by (simp_all add: sp_do_def sp_keys_a sp_inject_def r)
  have fields: "km_active km'" "km_mode km' = KM_MODE_PRESS_STICKY" "timeout_clk km' = 1000 + 60 * 19656"
    using inj a(4) by (auto simp: km_abs_def split: if_splits)
  moreover have "km_host km' = km_mock_host" using d(2) by (simp add: km_good_def km_wf_def)
  ultimately have "km_frames_left km' m' = 60" using view by (simp add: km_frames_left_def Let_def)
  moreover have "km_step (km, m) (km', m')" by (rule km_step.call [OF ok _ d(1)]) simp
  with a(1) have "km_reachable (km', m')" by (rule rtranclp.rtrancl_into_rtrancl)
  ultimately show ?thesis using fields(2) view(1) by auto
qed

end
