(* ===== verification/Keymatrix_Adapter.thy ===== *)
theory Keymatrix_Adapter
  imports Keymatrix_Mock
begin

unbundle bit_operations_syntax

text \<open>
  The VICE adapter \<open>libs/keymatrix/vice/mon_keymatrix.c\<close>: the core's host operations over the
  emulator's keyboard, clock and alarms, the alarm created on first use, and the core initialised on
  first use. The emulator is not part of the repository: its functions are the record
  \<open>vice_keyboard\<close>, a parameter of every definition, and \<open>vice_keyboard_laws\<close> is their documented
  behaviour. The device state of the adapter is the static alarm pointer and the emulator.
\<close>

record ('v, 'a) vice_keyboard =
  keyboard_set_keyarr_any :: "int \<Rightarrow> int \<Rightarrow> int \<Rightarrow> 'v \<Rightarrow> 'v"
  keyarr :: "'v \<Rightarrow> int \<Rightarrow> int"
  keyboard_custom_key_get :: "int \<Rightarrow> 'v \<Rightarrow> int"
  keyboard_clear_keymatrix :: "'v \<Rightarrow> 'v"
  maincpu_clk :: "'v \<Rightarrow> u64"
  machine_get_cycles_per_frame :: "'v \<Rightarrow> int"
  alarm_new :: "string \<Rightarrow> 'v \<Rightarrow> 'a \<times> 'v"
  alarm_set :: "'a \<Rightarrow> u64 \<Rightarrow> 'v \<Rightarrow> 'v"
  alarm_unset :: "'a \<Rightarrow> 'v \<Rightarrow> 'v"
  mon_out :: "string \<Rightarrow> 'v \<Rightarrow> 'v"

text \<open>The build checks that the core's special keys are VICE's.\<close>

abbreviation (input) MON_KEYMATRIX_BINMON_GET_RESPONSE_SIZE :: "'a::numeral" where
  "MON_KEYMATRIX_BINMON_GET_RESPONSE_SIZE \<equiv> 24"

record kbd_keys =
  KBD_ROW_RESTORE_1 :: int
  KBD_COL_RESTORE_1 :: int
  KBD_ROW_RESTORE_2 :: int
  KBD_COL_RESTORE_2 :: int
  KBD_ROW_4080COLUMN :: int
  KBD_COL_4080COLUMN :: int
  KBD_ROW_CAPSLOCK :: int
  KBD_COL_CAPSLOCK :: int
  KBD_CUSTOM_RESTORE1 :: int
  KBD_CUSTOM_RESTORE2 :: int
  KBD_CUSTOM_CAPS :: int
  KBD_CUSTOM_4080 :: int

definition km_static_checks :: "kbd_keys \<Rightarrow> bool" where
  "km_static_checks K \<longleftrightarrow>
     km_row_restore_1 = KBD_ROW_RESTORE_1 K \<and>
     km_col_restore_1 = KBD_COL_RESTORE_1 K \<and>
     km_row_restore_2 = KBD_ROW_RESTORE_2 K \<and>
     km_col_restore_2 = KBD_COL_RESTORE_2 K \<and>
     km_row_4080column = KBD_ROW_4080COLUMN K \<and>
     km_col_4080column = KBD_COL_4080COLUMN K \<and>
     km_row_capslock = KBD_ROW_CAPSLOCK K \<and>
     km_col_capslock = KBD_COL_CAPSLOCK K \<and>
     KM_CUSTOM_RESTORE1 = KBD_CUSTOM_RESTORE1 K \<and>
     KM_CUSTOM_RESTORE2 = KBD_CUSTOM_RESTORE2 K \<and>
     KM_CUSTOM_CAPS = KBD_CUSTOM_CAPS K \<and>
     KM_CUSTOM_4080 = KBD_CUSTOM_4080 K \<and>
     MON_KEYMATRIX_BINMON_GET_RESPONSE_SIZE = (KM_BINMON_GET_RESPONSE_SIZE :: nat)"

text \<open>In a build that passes, a special key of the table is a RESTORE, CAPSLOCK or 40/80 key of VICE.\<close>

lemma special_keys_agree:
  assumes "km_static_checks K" "(n, r, c, 1) \<in> set c64_keys"
  shows "(r, c) = (KBD_ROW_RESTORE_1 K, KBD_COL_RESTORE_1 K) \<or> (r, c) = (KBD_ROW_CAPSLOCK K, KBD_COL_CAPSLOCK K) \<or>
    (r, c) = (KBD_ROW_4080COLUMN K, KBD_COL_4080COLUMN K)"
  using assms by (auto simp: km_static_checks_def c64_keys_def)

record ('v, 'a) kmx_dev =
  kmx_alarm :: "'a option"
  vice :: 'v

section \<open>The host operations\<close>

definition h_set_keyarr_any :: "('v, 'a) vice_keyboard \<Rightarrow> int \<Rightarrow> int \<Rightarrow> int \<Rightarrow> ('v, 'a) kmx_dev \<Rightarrow> ('v, 'a) kmx_dev" where
  "h_set_keyarr_any V r c v d = d\<lparr>vice := keyboard_set_keyarr_any V r c v (vice d)\<rparr>"

definition h_get_keyarr :: "('v, 'a) vice_keyboard \<Rightarrow> int \<Rightarrow> ('v, 'a) kmx_dev \<Rightarrow> int" where
  "h_get_keyarr V r d = keyarr V (vice d) r AND 0xff"

definition h_custom_key_get :: "('v, 'a) vice_keyboard \<Rightarrow> int \<Rightarrow> ('v, 'a) kmx_dev \<Rightarrow> int" where
  "h_custom_key_get V k d = keyboard_custom_key_get V k (vice d)"

definition h_clear_keymatrix :: "('v, 'a) vice_keyboard \<Rightarrow> ('v, 'a) kmx_dev \<Rightarrow> ('v, 'a) kmx_dev" where
  "h_clear_keymatrix V d = d\<lparr>vice := keyboard_clear_keymatrix V (vice d)\<rparr>"

definition h_now :: "('v, 'a) vice_keyboard \<Rightarrow> ('v, 'a) kmx_dev \<Rightarrow> u64" where
  "h_now V d = maincpu_clk V (vice d)"

definition h_cycles_per_frame :: "('v, 'a) vice_keyboard \<Rightarrow> ('v, 'a) kmx_dev \<Rightarrow> int" where
  "h_cycles_per_frame V d = machine_get_cycles_per_frame V (vice d)"

definition h_set_alarm :: "('v, 'a) vice_keyboard \<Rightarrow> u64 \<Rightarrow> ('v, 'a) kmx_dev \<Rightarrow> ('v, 'a) kmx_dev" where
  "h_set_alarm V clk d =
     (let (a, v) = (case kmx_alarm d of None \<Rightarrow> alarm_new V ''MonitorKeymatrix'' (vice d)
                                      | Some a \<Rightarrow> (a, vice d))
      in d\<lparr>kmx_alarm := Some a, vice := alarm_set V a clk v\<rparr>)"

definition h_cancel_alarm :: "('v, 'a) vice_keyboard \<Rightarrow> ('v, 'a) kmx_dev \<Rightarrow> ('v, 'a) kmx_dev" where
  "h_cancel_alarm V d =
     (case kmx_alarm d of None \<Rightarrow> d | Some a \<Rightarrow> d\<lparr>vice := alarm_unset V a (vice d)\<rparr>)"

definition h_emit :: "('v, 'a) vice_keyboard \<Rightarrow> string \<Rightarrow> ('v, 'a) kmx_dev \<Rightarrow> ('v, 'a) kmx_dev" where
  "h_emit V s d = d\<lparr>vice := mon_out V s (vice d)\<rparr>"

definition kmx_host :: "('v, 'a) vice_keyboard \<Rightarrow> ('v, 'a) kmx_dev km_host_t" where
  "kmx_host V =
     \<lparr>set_keyarr_any = h_set_keyarr_any V, get_keyarr = h_get_keyarr V, custom_key_get = h_custom_key_get V,
      clear_keymatrix = h_clear_keymatrix V, host_now = h_now V, cycles_per_frame = h_cycles_per_frame V,
      set_alarm = h_set_alarm V, cancel_alarm = h_cancel_alarm V, emit_text = h_emit V\<rparr>"

section \<open>The public API\<close>

record ('v, 'a) kmx_statics =
  kmx :: "('v, 'a) kmx_dev km_core_t"
  kmx_inited :: bool

type_synonym ('v, 'a) kmx_state = "('v, 'a) kmx_statics \<times> ('v, 'a) kmx_dev"

definition kmx_ensure :: "('v, 'a) vice_keyboard \<Rightarrow> ('v, 'a) kmx_statics \<Rightarrow> ('v, 'a) kmx_statics" where
  "kmx_ensure V s = (if \<not> kmx_inited s then s\<lparr>kmx := km_core_init (kmx_host V), kmx_inited := True\<rparr> else s)"

definition on_core :: "(('v, 'a) kmx_dev km_core_t \<times> ('v, 'a) kmx_dev \<Rightarrow>
      (('v, 'a) kmx_dev km_core_t \<times> ('v, 'a) kmx_dev) option) \<Rightarrow> ('v, 'a) kmx_state \<Rightarrow> ('v, 'a) kmx_state option" where
  \<comment> \<open>\<open>f (&kmx)\<close>\<close>
  "on_core f = (\<lambda>(s, d). do { (km, d) \<leftarrow> f (kmx s, d); Some (s\<lparr>kmx := km\<rparr>, d) })"

definition ensured where
  "ensured V f = (\<lambda>(s, d). on_core f (kmx_ensure V s, d))"

definition mon_keymatrix_tap where "mon_keymatrix_tap V args = ensured V (km_core_tap args)"
definition mon_keymatrix_press where "mon_keymatrix_press V args = ensured V (km_core_press args)"
definition mon_keymatrix_release where "mon_keymatrix_release V args = ensured V (km_core_release args)"
definition mon_keymatrix_poke where "mon_keymatrix_poke V args = ensured V (\<lambda>st. Some (km_core_poke args st))"
definition mon_keymatrix_show where "mon_keymatrix_show V = ensured V km_core_show"
definition mon_keymatrix_names where "mon_keymatrix_names V = ensured V (\<lambda>st. Some (km_core_names st))"

definition kmx_alarm_callback :: "('v, 'a) kmx_state \<Rightarrow> ('v, 'a) kmx_state option" where
  "kmx_alarm_callback = on_core km_core_on_alarm"

definition mon_keymatrix_cia1_pa_read :: "u8 \<Rightarrow> ('v, 'a) kmx_state \<Rightarrow> ('v, 'a) kmx_state option" where
  "mon_keymatrix_cia1_pa_read m = (\<lambda>(s, d).
     if \<not> kmx_inited s then Some (s, d) else on_core (km_core_cia1_pa_read m) (s, d))"

definition mon_keymatrix_cia1_pb_read :: "u8 \<Rightarrow> ('v, 'a) kmx_state \<Rightarrow> ('v, 'a) kmx_state option" where
  "mon_keymatrix_cia1_pb_read m = (\<lambda>(s, d).
     if \<not> kmx_inited s then Some (s, d) else on_core (km_core_cia1_pb_read m) (s, d))"

definition mon_keymatrix_binmon_set ::
    "('v, 'a) vice_keyboard \<Rightarrow> u8 list \<Rightarrow> u32 \<Rightarrow> ('v, 'a) kmx_state \<Rightarrow> (int \<times> ('v, 'a) kmx_state) option" where
  "mon_keymatrix_binmon_set V body len = (\<lambda>(s, d). do {
     let s = kmx_ensure V s;
     (r, km, d) \<leftarrow> km_core_binmon_set body len (kmx s, d);
     Some (r, s\<lparr>kmx := km\<rparr>, d)
   })"

definition mon_keymatrix_binmon_tap ::
    "('v, 'a) vice_keyboard \<Rightarrow> u8 list \<Rightarrow> u32 \<Rightarrow> ('v, 'a) kmx_state \<Rightarrow> (int \<times> ('v, 'a) kmx_state) option" where
  "mon_keymatrix_binmon_tap V body len = (\<lambda>(s, d). do {
     let s = kmx_ensure V s;
     (r, km, d) \<leftarrow> km_core_binmon_tap body len (kmx s, d);
     Some (r, s\<lparr>kmx := km\<rparr>, d)
   })"

definition mon_keymatrix_binmon_get ::
    "('v, 'a) vice_keyboard \<Rightarrow> u8 list option \<Rightarrow> u32 option \<Rightarrow> ('v, 'a) kmx_state \<Rightarrow>
       ((int \<times> u8 list option \<times> u32 option) \<times> ('v, 'a) kmx_state) option" where
  "mon_keymatrix_binmon_get V out out_length = (\<lambda>(s, d). do {
     let s = kmx_ensure V s;
     r \<leftarrow> km_core_binmon_get out out_length (kmx s, d);
     Some (r, s, d)
   })"

text \<open>One call into the adapter.\<close>

definition mon_do :: "('v, 'a) vice_keyboard \<Rightarrow> km_op \<Rightarrow> ('v, 'a) kmx_state \<Rightarrow> ('v, 'a) kmx_state option" where
  "mon_do V op st = (case op of
     Tap args \<Rightarrow> mon_keymatrix_tap V args st | Press args \<Rightarrow> mon_keymatrix_press V args st
   | Release args \<Rightarrow> mon_keymatrix_release V args st | Poke args \<Rightarrow> mon_keymatrix_poke V args st
   | Show \<Rightarrow> mon_keymatrix_show V st | Names \<Rightarrow> mon_keymatrix_names V st
   | Pa_Read m \<Rightarrow> mon_keymatrix_cia1_pa_read m st | Pb_Read m \<Rightarrow> mon_keymatrix_cia1_pb_read m st
   | Alarm \<Rightarrow> kmx_alarm_callback st
   | Bin_Set body len \<Rightarrow> map_option snd (mon_keymatrix_binmon_set V body len st)
   | Bin_Tap body len \<Rightarrow> map_option snd (mon_keymatrix_binmon_tap V body len st))"

section \<open>The emulator's keyboard\<close>

text \<open>
  What the core needs of the emulator: a key set is the key that is down, where one is wired; clearing
  releases the matrix but not the keys outside it; an alarm set is armed for its clock and an alarm
  unset is not; and nothing the adapter calls moves the clock.
\<close>

definition vice_keyboard_laws ::
    "('v, 'a) vice_keyboard \<Rightarrow> (int \<Rightarrow> int \<Rightarrow> bool) \<Rightarrow> ('v \<Rightarrow> int \<Rightarrow> int \<Rightarrow> bool) \<Rightarrow> ('v \<Rightarrow> 'a \<Rightarrow> u64 option) \<Rightarrow> bool" where
  "vice_keyboard_laws V wired pressed armed \<longleftrightarrow>
     (\<forall>r c x v. pressed (keyboard_set_keyarr_any V r c x v) =
        (\<lambda>r' c'. if wired r c \<and> r' = r \<and> c' = c then x \<noteq> 0 else pressed v r' c')) \<and>
     (\<forall>v. pressed (keyboard_clear_keymatrix V v) = (\<lambda>r c. r < 0 \<and> pressed v r c)) \<and>
     (\<forall>a t v. armed (alarm_set V a t v) a = Some t \<and> armed (alarm_unset V a v) a = None) \<and>
     (\<forall>r c x v. armed (keyboard_set_keyarr_any V r c x v) = armed v) \<and>
     (\<forall>v. armed (keyboard_clear_keymatrix V v) = armed v) \<and> (\<forall>s v. armed (mon_out V s v) = armed v) \<and>
     (\<forall>n a t s v. pressed (snd (alarm_new V n v)) = pressed v \<and> pressed (alarm_set V a t v) = pressed v \<and>
        pressed (alarm_unset V a v) = pressed v \<and> pressed (mon_out V s v) = pressed v) \<and>
     (\<forall>f \<in> {maincpu_clk V}. \<forall>r c x n a t s v. f (keyboard_set_keyarr_any V r c x v) = f v \<and>
        f (keyboard_clear_keymatrix V v) = f v \<and> f (snd (alarm_new V n v)) = f v \<and>
        f (alarm_set V a t v) = f v \<and> f (alarm_unset V a v) = f v \<and> f (mon_out V s v) = f v) \<and>
     (\<forall>f \<in> {machine_get_cycles_per_frame V}. \<forall>r c x n a t s v. f (keyboard_set_keyarr_any V r c x v) = f v \<and>
        f (keyboard_clear_keymatrix V v) = f v \<and> f (snd (alarm_new V n v)) = f v \<and>
        f (alarm_set V a t v) = f v \<and> f (alarm_unset V a v) = f v \<and> f (mon_out V s v) = f v)"

text \<open>The keyboard of the emulator as it is read.\<close>

definition matrix_laws :: "('v, 'a) vice_keyboard \<Rightarrow> ('v \<Rightarrow> int \<Rightarrow> int \<Rightarrow> bool) \<Rightarrow> bool" where
  "matrix_laws V pressed \<longleftrightarrow>
     (\<forall>v. \<forall>r\<in>{0..7}. \<forall>c<8. bit (keyarr V v r) c = pressed v r (int c)) \<and>
     (\<forall>v. (keyboard_custom_key_get V KM_CUSTOM_RESTORE1 v \<noteq> 0) = pressed v km_row_restore_1 km_col_restore_1) \<and>
     (\<forall>v. (keyboard_custom_key_get V KM_CUSTOM_RESTORE2 v \<noteq> 0) = pressed v km_row_restore_2 km_col_restore_2) \<and>
     (\<forall>v. (keyboard_custom_key_get V KM_CUSTOM_CAPS v \<noteq> 0) = pressed v km_row_capslock km_col_capslock) \<and>
     (\<forall>v. (keyboard_custom_key_get V KM_CUSTOM_4080 v \<noteq> 0) = pressed v km_row_4080column km_col_4080column)"

definition dev_alarm :: "('v \<Rightarrow> 'a \<Rightarrow> u64 option) \<Rightarrow> ('v, 'a) kmx_dev \<Rightarrow> u64 option" where
  "dev_alarm armed d = (case kmx_alarm d of None \<Rightarrow> None | Some a \<Rightarrow> armed (vice d) a)"

text \<open>The adapter's host operations are a keyboard when the emulator's functions are.\<close>

lemma kmx_host_keyboard:
  assumes "vice_keyboard_laws V wired pressed armed"
  shows "km_keyboard (kmx_host V) wired (\<lambda>d. pressed (vice d)) (dev_alarm armed)"
  using assms
  by unfold_locales
    (auto simp: vice_keyboard_laws_def kmx_host_def h_set_keyarr_any_def h_clear_keymatrix_def h_set_alarm_def
      h_cancel_alarm_def h_emit_def h_now_def h_cycles_per_frame_def dev_alarm_def case_prod_unfold Let_def
      split: option.splits)

section \<open>The adapter refines the contract\<close>

text \<open>Calls that initialise the core on first use, and sequences in which the emulator runs the alarm
  callback only after one of them.\<close>

fun initialises :: "km_op \<Rightarrow> bool" where
  "initialises (Pa_Read m) = False"
| "initialises (Pb_Read m) = False"
| "initialises Alarm = False"
| "initialises op = True"

fun alarms_after :: "bool \<Rightarrow> km_op list \<Rightarrow> bool" where
  "alarms_after b [] = True"
| "alarms_after b (op # ops) = ((op = Alarm \<longrightarrow> b) \<and> alarms_after (b \<or> initialises op) ops)"

definition kmx_view ::
    "('v, 'a) vice_keyboard \<Rightarrow> ('v \<Rightarrow> int \<Rightarrow> int \<Rightarrow> bool) \<Rightarrow> ('v \<Rightarrow> 'a \<Rightarrow> u64 option) \<Rightarrow> ('v, 'a) kmx_dev \<Rightarrow> km_world" where
  "kmx_view V pressed armed = km_view (kmx_host V) (\<lambda>d. pressed (vice d)) (dev_alarm armed)"

definition kmx_abs :: "('v, 'a) vice_keyboard \<Rightarrow> ('v, 'a) kmx_statics \<Rightarrow> km_spec" where
  "kmx_abs V s = km_abs (kmx (kmx_ensure V s))"

definition kmx_wf :: "('v, 'a) vice_keyboard \<Rightarrow> ('v, 'a) kmx_statics \<Rightarrow> bool" where
  "kmx_wf V s \<longleftrightarrow> km_wf (kmx_host V) (kmx (kmx_ensure V s))"

lemmas mon_defs = mon_do_def mon_keymatrix_tap_def mon_keymatrix_press_def mon_keymatrix_release_def
  mon_keymatrix_poke_def mon_keymatrix_show_def mon_keymatrix_names_def kmx_alarm_callback_def
  mon_keymatrix_cia1_pa_read_def mon_keymatrix_cia1_pb_read_def mon_keymatrix_binmon_set_def
  mon_keymatrix_binmon_tap_def ensured_def on_core_def

lemma ensure_simps [simp]:
  "kmx_inited (kmx_ensure V s)" "kmx_ensure V (kmx_ensure V s) = kmx_ensure V s"
  "kmx_inited s \<Longrightarrow> kmx_ensure V s = s" "kmx_ensure V (kmx_ensure V s\<lparr>kmx := km\<rparr>) = kmx_ensure V s\<lparr>kmx := km\<rparr>"
  by (simp_all add: kmx_ensure_def)

lemma map_result: "map_option snd (x \<bind> (\<lambda>(r, km, d). Some (r, g km, d))) = map_option (\<lambda>(km, d). (g km, d)) (map_option snd x)"
  by (cases x) auto

lemma mon_do_core:
  assumes "initialises op \<or> kmx_inited s"
  shows "mon_do V op (s, d) =
    map_option (\<lambda>(km, d). (kmx_ensure V s\<lparr>kmx := km\<rparr>, d)) (km_do op (kmx (kmx_ensure V s), d))"
  using assms
  by (cases op) (auto simp: mon_defs km_do_def Let_def map_result split: bind_splits prod.splits)

lemma mon_do_idle:
  assumes "\<not> initialises op" "\<not> kmx_inited s" "op \<noteq> Alarm"
  shows "mon_do V op (s, d) = Some (s, d)" "sp_do wired op (kmx_abs V s, w) = (kmx_abs V s, w)"
  using assms
  by (cases op; simp add: mon_defs sp_do_def sp_read_def kmx_abs_def kmx_ensure_def km_abs_def km_core_init_def)+

lemma mon_do_step:
  assumes laws: "vice_keyboard_laws V wired pressed armed" and wf: "kmx_wf V s" and ok: "op_ok op"
    and alarm: "op = Alarm \<longrightarrow> kmx_inited s"
  shows "\<exists>s' d'. mon_do V op (s, d) = Some (s', d') \<and> kmx_wf V s' \<and> kmx_inited s' = (kmx_inited s \<or> initialises op) \<and>
    sp_do wired op (kmx_abs V s, kmx_view V pressed armed d) = (kmx_abs V s', kmx_view V pressed armed d')"
proof (cases "initialises op \<or> kmx_inited s")
  case True
  note kb = kmx_host_keyboard [OF laws]
  from km_keyboard.refinesE [OF kb km_keyboard.do_refines [OF kb _ ok]] wf
  obtain km d' where "km_do op (kmx (kmx_ensure V s), d) = Some (km, d')" "km_wf (kmx_host V) km"
    "km_abs km = fst (sp_do wired op (kmx_abs V s, kmx_view V pressed armed d))"
    "kmx_view V pressed armed d' = snd (sp_do wired op (kmx_abs V s, kmx_view V pressed armed d))"
    unfolding kmx_wf_def kmx_abs_def kmx_view_def by metis
  with True show ?thesis
    by (auto simp: mon_do_core kmx_wf_def kmx_abs_def)
next
  case False
  with alarm mon_do_idle [where V = V and op = op and s = s] wf show ?thesis by auto
qed

lemma mon_run:
  assumes laws: "vice_keyboard_laws V wired pressed armed"
  shows "kmx_wf V s \<Longrightarrow> list_all op_ok ops \<Longrightarrow> alarms_after (kmx_inited s) ops \<Longrightarrow>
    \<exists>s' d'. for_each (mon_do V) ops (s, d) = Some (s', d') \<and>
      fold (sp_do wired) ops (kmx_abs V s, kmx_view V pressed armed d) = (kmx_abs V s', kmx_view V pressed armed d')"
proof (induction ops arbitrary: s d)
  case Nil
  then show ?case by simp
next
  case (Cons op ops)
  then obtain s1 d1 where "mon_do V op (s, d) = Some (s1, d1)" "kmx_wf V s1"
    "kmx_inited s1 = (kmx_inited s \<or> initialises op)"
    "sp_do wired op (kmx_abs V s, kmx_view V pressed armed d) = (kmx_abs V s1, kmx_view V pressed armed d1)"
    using mon_do_step [OF laws Cons.prems(1), of op d] by auto
  with Cons.IH [of s1 d1] Cons.prems show ?case by auto
qed

section \<open>Properties\<close>

text \<open>C1: From the start of the emulator, whatever monitor commands, binary-monitor bodies, CIA reads and
  alarms reach the adapter, on any emulator whose keyboard, clock and alarms behave as documented: no
  call faults, the core is initialised by the first command and the alarm created by the first tap, CIA
  reads before that change nothing, and keys, alarm and injection are those of the keyboard contract.\<close>

theorem mon_keymatrix_contract:
  assumes "vice_keyboard_laws V wired pressed armed" "\<not> kmx_inited s"
    and "list_all op_ok ops" "alarms_after False ops"
  shows "\<exists>s' d'. for_each (mon_do V) ops (s, d) = Some (s', d') \<and>
    (kmx_abs V s', kmx_view V pressed armed d') =
      fold (sp_do wired) ops
        (\<lparr>sp_inj = None, sp_report = None, sp_timeout = 0\<rparr>, kmx_view V pressed armed d)"
proof -
  have "kmx_wf V s" using assms(2) by (simp add: kmx_wf_def kmx_ensure_def km_wf_init)
  moreover have "kmx_abs V s = \<lparr>sp_inj = None, sp_report = None, sp_timeout = 0\<rparr>"
    using assms(2) by (simp add: kmx_abs_def kmx_ensure_def km_abs_def km_core_init_def)
  ultimately show ?thesis using mon_run [OF assms(1), of s ops d] assms by auto
qed

text \<open>An emulator with the keyboard of the test suite and one alarm.\<close>

definition vice_mock :: "(km_mock_t, unit) vice_keyboard" where
  "vice_mock =
     \<lparr>keyboard_set_keyarr_any = km_h_set, keyarr = mk_keyarr, keyboard_custom_key_get = (\<lambda>k m. mk_custom m k),
      keyboard_clear_keymatrix = km_h_clear, maincpu_clk = mk_clock, machine_get_cycles_per_frame = mk_cpf,
      alarm_new = (\<lambda>_ m. ((), m)), alarm_set = (\<lambda>_ t m. m\<lparr>mk_alarm_clk := t, mk_alarm_set := True\<rparr>),
      alarm_unset = (\<lambda>_ m. m\<lparr>mk_alarm_set := False\<rparr>), mon_out = km_h_emit\<rparr>"

lemma vice_mock_laws: "vice_keyboard_laws vice_mock mock_wired mock_pressed (\<lambda>m _. mock_alarm m)"
  by (simp add: vice_keyboard_laws_def vice_mock_def mock_pressed_set mock_pressed_clear fun_eq_iff)

lemma mon_keymatrix_contract_witness:
  "\<exists>s' d'. for_each (mon_do vice_mock) [Pa_Read 0xfd, Tap (Some ''a''), Pa_Read 0xfd, Alarm]
      (\<lparr>kmx = km_core_init (kmx_host vice_mock), kmx_inited = False\<rparr>, \<lparr>kmx_alarm = None, vice = km_mock_setup\<rparr>) =
      Some (s', d') \<and>
    (kmx_abs vice_mock s', kmx_view vice_mock mock_pressed (\<lambda>m _. mock_alarm m) d') =
      fold (sp_do mock_wired) [Pa_Read 0xfd, Tap (Some ''a''), Pa_Read 0xfd, Alarm]
        (\<lparr>sp_inj = None, sp_report = None, sp_timeout = 0\<rparr>,
         kmx_view vice_mock mock_pressed (\<lambda>m _. mock_alarm m) \<lparr>kmx_alarm = None, vice = km_mock_setup\<rparr>)"
  by (rule mon_keymatrix_contract [OF vice_mock_laws]) (simp_all add: op_ok_def c_string_def char_eval)

end
