(* ===== verification/Screen.thy ===== *)
theory Screen
  imports Prelude
begin

unbundle bit_operations_syntax

text \<open>
  The screen state packer of \<open>libs/screen/src/screen_core.c\<close>: the inputs snapshot, the derived
  addresses, and \<open>screen_pack\<close>, which fills a caller's buffer whose accesses can fault. The three
  memory readers are functions of the address.
\<close>

section \<open>Inputs\<close>

record screen_inputs_t =
  d011 :: u8
  d016 :: u8
  d018 :: u8
  d020 :: u8
  d021 :: u8
  d022 :: u8
  d023 :: u8
  d024 :: u8
  vbank_phi1 :: u16
  vbank_phi2 :: u16
  chargen_mask_phi1 :: u16
  chargen_value_phi1 :: u16
  read_ram :: "u16 \<Rightarrow> u8"
  read_colorram :: "u16 \<Rightarrow> u8"
  read_chargen :: "u16 \<Rightarrow> u8"

definition screen_header_bytes :: nat where "screen_header_bytes = 24"
definition screen_text_cols :: nat where "screen_text_cols = 40"
definition screen_text_rows :: nat where "screen_text_rows = 25"
definition screen_text_cells :: nat where "screen_text_cells = screen_text_cols * screen_text_rows"
definition screen_charset_bytes :: nat where "screen_charset_bytes = 2048"
definition screen_response_size :: nat where
  "screen_response_size = screen_header_bytes + screen_text_cells * 2 + screen_charset_bytes"

lemmas screen_sizes = screen_header_bytes_def screen_text_cols_def screen_text_rows_def
  screen_text_cells_def screen_charset_bytes_def screen_response_size_def

definition charset_rom_upper_gfx :: u8 where "charset_rom_upper_gfx = 0"
definition charset_rom_upper_lower :: u8 where "charset_rom_upper_lower = 1"
definition charset_ram :: u8 where "charset_ram = 2"

lemmas charset_kinds = charset_rom_upper_gfx_def charset_rom_upper_lower_def charset_ram_def

section \<open>Derived state\<close>

definition put_le16 :: "u16 \<Rightarrow> u8 list" where
  "put_le16 v = [ucast v, ucast (drop_bit 8 v)]"

definition put_le32 :: "u32 \<Rightarrow> u8 list" where
  "put_le32 v = [ucast v, ucast (drop_bit 8 v), ucast (drop_bit 16 v), ucast (drop_bit 24 v)]"

definition derive_vic_mode :: "screen_inputs_t \<Rightarrow> u8" where
  "derive_vic_mode inp = drop_bit 4 ((d011 inp AND 0x60) OR (d016 inp AND 0x10))"

definition derive_vic_bank :: "screen_inputs_t \<Rightarrow> u8" where
  "derive_vic_bank inp = ucast (drop_bit 14 (vbank_phi2 inp) AND 0x03)"

definition screen_addr :: "screen_inputs_t \<Rightarrow> u16" where
  "screen_addr inp = vbank_phi2 inp + push_bit 6 (ucast (d018 inp AND 0xf0))"

definition charset_vic_addr :: "screen_inputs_t \<Rightarrow> u16" where
  "charset_vic_addr inp = push_bit 10 (ucast (d018 inp AND 0x0e)) + vbank_phi1 inp"

definition bitmap_addr :: "screen_inputs_t \<Rightarrow> u16" where
  "bitmap_addr inp = vbank_phi1 inp + push_bit 10 (ucast (d018 inp AND 0x08))"

definition charset_in_chargen_window :: "screen_inputs_t \<Rightarrow> bool" where
  "charset_in_chargen_window inp \<longleftrightarrow>
     charset_vic_addr inp AND chargen_mask_phi1 inp = chargen_value_phi1 inp"

definition charset_kind :: "screen_inputs_t \<Rightarrow> u8" where
  "charset_kind inp =
     (if charset_in_chargen_window inp then
        if charset_vic_addr inp AND 0x0800 = 0 then charset_rom_upper_gfx else charset_rom_upper_lower
      else charset_ram)"

section \<open>The packer\<close>

definition fill :: "nat \<Rightarrow> nat \<Rightarrow> (nat \<Rightarrow> u8) \<Rightarrow> u8 list \<Rightarrow> u8 list option" where
  \<comment> \<open>\<open>for (i = 0; i < n; i++) dst[i] = f (i)\<close>, with \<open>dst\<close> the buffer from \<open>off\<close> on\<close>
  "fill off n f = for_each (\<lambda>i buf. aset buf (off + i) (f i)) [0..<n]"

definition header_bytes :: "screen_inputs_t \<Rightarrow> (nat \<times> u8) list" where
  \<comment> \<open>the single-byte stores into the header\<close>
  "header_bytes inp =
     [(0, derive_vic_mode inp), (1, of_nat screen_text_rows), (2, of_nat screen_text_cols),
      (3, charset_kind inp), (4, derive_vic_bank inp), (5, d020 inp AND 0x0f), (6, d021 inp AND 0x0f),
      (7, d022 inp AND 0x0f), (8, d023 inp AND 0x0f), (9, d024 inp AND 0x0f), (10, d011 inp),
      (11, d016 inp), (12, d018 inp)]"

definition pack_header :: "screen_inputs_t \<Rightarrow> u8 list \<Rightarrow> u8 list option" where
  "pack_header inp buf = do {
     buf \<leftarrow> aput buf 0 (replicate screen_header_bytes 0);
     buf \<leftarrow> for_each (\<lambda>(i, v) buf. aset buf i v) (header_bytes inp) buf;
     buf \<leftarrow> aput buf 14 (put_le16 (screen_addr inp));
     buf \<leftarrow> aput buf 16 (put_le16 (charset_vic_addr inp));
     buf \<leftarrow> aput buf 18 (put_le16 (if derive_vic_mode inp AND 0x02 \<noteq> 0 then bitmap_addr inp else 0));
     aput buf 20 (put_le32 (of_nat (screen_text_cells + screen_text_cells + screen_charset_bytes)))
   }"

definition charset_byte :: "screen_inputs_t \<Rightarrow> nat \<Rightarrow> u8" where
  "charset_byte inp i =
     (if charset_in_chargen_window inp
      then read_chargen inp ((charset_vic_addr inp AND 0x0800) + of_nat i)
      else read_ram inp (charset_vic_addr inp + of_nat i))"

definition screen_pack ::
    "screen_inputs_t option \<Rightarrow> u8 list option \<Rightarrow> u32 \<Rightarrow> u32 option \<Rightarrow>
       (int \<times> u8 list option \<times> u32 option) option" where
  "screen_pack inp buf buflen out_len =
     (case (inp, buf, out_len) of
        (Some inp, Some b, Some _) \<Rightarrow>
          if buflen < of_nat screen_response_size then Some (- 1, buf, out_len)
          else do {
            b \<leftarrow> pack_header inp b;
            let screen_dst = screen_header_bytes;
            let color_dst = screen_dst + screen_text_cells;
            let charset_dst = color_dst + screen_text_cells;
            b \<leftarrow> fill screen_dst screen_text_cells (\<lambda>i. read_ram inp (screen_addr inp + of_nat i)) b;
            b \<leftarrow> fill color_dst screen_text_cells (\<lambda>i. read_colorram inp (0xd800 + of_nat i) AND 0x0f) b;
            b \<leftarrow> fill charset_dst screen_charset_bytes (charset_byte inp) b;
            Some (0, Some b, Some (of_nat screen_response_size))
          }
      | _ \<Rightarrow> Some (- 1, buf, out_len))"

section \<open>The layout\<close>

lemma fill_Some:
  "off + n \<le> length buf \<Longrightarrow> fill off n f buf = Some (take off buf @ map f [0..<n] @ drop (off + n) buf)"
  by (simp add: fill_def for_each_store)

definition header :: "screen_inputs_t \<Rightarrow> u8 list" where
  "header inp = map snd (header_bytes inp) @ [0] @ put_le16 (screen_addr inp) @
     put_le16 (charset_vic_addr inp) @
     put_le16 (if derive_vic_mode inp AND 0x02 \<noteq> 0 then bitmap_addr inp else 0) @ put_le32 4048"

definition screen_bytes :: "screen_inputs_t \<Rightarrow> u8 list" where
  "screen_bytes inp = map (\<lambda>i. read_ram inp (screen_addr inp + of_nat i)) [0..<1000]"

definition color_bytes :: "screen_inputs_t \<Rightarrow> u8 list" where
  "color_bytes inp = map (\<lambda>i. read_colorram inp (0xd800 + of_nat i) AND 0x0f) [0..<1000]"

definition charset_bytes :: "screen_inputs_t \<Rightarrow> u8 list" where
  "charset_bytes inp = map (charset_byte inp) [0..<2048]"

definition screen_response :: "screen_inputs_t \<Rightarrow> u8 list" where
  "screen_response inp = header inp @ screen_bytes inp @ color_bytes inp @ charset_bytes inp"

lemma length_header [simp]: "length (header inp) = 24"
  by (simp add: header_def header_bytes_def put_le16_def put_le32_def)

lemma length_payload [simp]:
  "length (screen_bytes inp) = 1000" "length (color_bytes inp) = 1000" "length (charset_bytes inp) = 2048"
  by (simp_all add: screen_bytes_def color_bytes_def charset_bytes_def)

lemma pack_header_Some:
  assumes "24 \<le> length buf"
  shows "pack_header inp buf = Some (header inp @ drop 24 buf)"
proof -
  have z: "replicate 24 (0 :: u8) = [0,0,0,0,0,0,0,0,0,0,0,0,0,0,0,0,0,0,0,0,0,0,0,0]"
    by (simp add: numeral_eq_Suc)
  show ?thesis using assms
    by (simp add: pack_header_def screen_sizes z aput_def header_bytes_def aset_def put_le16_def
        put_le32_def header_def numeral_eq_Suc)
qed

lemma screen_pack_Some:
  assumes "4072 \<le> unat buflen" "unat buflen \<le> length buf"
  shows "screen_pack (Some inp) (Some buf) buflen (Some l) =
    Some (0, Some (screen_response inp @ drop 4072 buf), Some 4072)"
proof -
  have "\<not> buflen < 4072" using assms(1) by (simp add: word_less_nat_alt)
  moreover have "pack_header inp buf = Some (header inp @ drop 24 buf)"
    by (rule pack_header_Some) (use assms in simp)
  ultimately show ?thesis using assms
    by (simp add: screen_pack_def screen_sizes fill_Some Let_def screen_response_def screen_bytes_def [symmetric]
        color_bytes_def [symmetric] charset_bytes_def [symmetric])
qed

section \<open>Decoding a response\<close>

definition le_at :: "nat \<Rightarrow> nat \<Rightarrow> u8 list \<Rightarrow> nat" where
  "le_at off n bs = le_val (take n (drop off bs))"

lemma screen_le_val_put: "le_val (put_le16 v) = unat v" "le_val (put_le32 w) = unat w"
  unfolding put_le32_def put_le16_def by (rule le_val_fields)+

lemma u8_field: "unat (d AND push_bit a (mask n)) = 2 ^ a * (unat d div 2 ^ a mod 2 ^ n)" for d :: u8
proof -
  let ?x = "push_bit a (take_bit n (drop_bit a (unat d)))"
  have "d AND push_bit a (mask n) = push_bit a (take_bit n (drop_bit a d))"
    by (rule bit_eqI) (auto simp: bit_simps)
  then have "unat (d AND push_bit a (mask n)) = take_bit 8 ?x"
    by (simp only: unsigned_push_bit_eq unsigned_take_bit_eq unat_drop_bit_eq) simp
  moreover have "?x \<le> unat d"
  proof -
    have "?x = 2 ^ a * (unat d div 2 ^ a mod 2 ^ n)"
      by (simp add: push_bit_eq_mult take_bit_eq_mod drop_bit_eq_div)
    also have "\<dots> \<le> 2 ^ a * (unat d div 2 ^ a)" by (rule mult_le_mono2) (rule mod_less_eq_dividend)
    also have "\<dots> \<le> unat d" by simp
    finally show ?thesis .
  qed
  ultimately show ?thesis
    using u8_less [of d] by (simp add: push_bit_eq_mult take_bit_eq_mod drop_bit_eq_div)
qed

lemma unat_shifted:
  "2 ^ k * unat b < 65536 \<Longrightarrow> unat (push_bit k (ucast b) :: u16) = 2 ^ k * unat b" for b :: u8
  by (simp only: unsigned_push_bit_eq) (simp add: push_bit_eq_mult take_bit_eq_mod mult.commute)

text \<open>The addresses as the VIC-II documentation states them, in decimal arithmetic.\<close>

lemma unat_addresses:
  "unat (screen_addr inp) = (unat (vbank_phi2 inp) + 1024 * (unat (d018 inp) div 16)) mod 65536"
  "unat (charset_vic_addr inp) = (unat (vbank_phi1 inp) + 2048 * (unat (d018 inp) div 2 mod 8)) mod 65536"
  "unat (bitmap_addr inp) = (unat (vbank_phi1 inp) + 8192 * (unat (d018 inp) div 8 mod 2)) mod 65536"
proof -
  let ?d = "d018 inp"
  have m: "(0xf0 :: u8) = push_bit 4 (mask 4)" "(0x0e :: u8) = push_bit 1 (mask 3)"
    "(0x08 :: u8) = push_bit 3 (mask 1)"
    by (simp_all add: mask_eq_exp_minus_1)
  have lt: "unat ?d div 16 mod 16 < 16" "unat ?d div 2 mod 8 < 8" "unat ?d div 8 mod 2 < 2" by simp_all
  have u: "unat (?d AND 0xf0) = 16 * (unat ?d div 16 mod 16)" "unat (?d AND 0x0e) = 2 * (unat ?d div 2 mod 8)"
    "unat (?d AND 0x08) = 8 * (unat ?d div 8 mod 2)"
    unfolding m u8_field by simp_all
  have "unat ?d div 16 < 16" using u8_less [of ?d] by (simp add: less_mult_imp_div_less)
  then have d16: "unat ?d div 16 mod 16 = unat ?d div 16" by simp
  have b: "a < 16 \<Longrightarrow> 2 ^ 6 * (16 * a) < 65536" "a < 8 \<Longrightarrow> 2 ^ 10 * (2 * a) < 65536"
    "a < 2 \<Longrightarrow> 2 ^ 10 * (8 * a) < 65536" for a :: nat by simp_all
  have s: "unat (push_bit 6 (ucast (?d AND 0xf0)) :: u16) = 2 ^ 6 * unat (?d AND 0xf0)"
    "unat (push_bit 10 (ucast (?d AND 0x0e)) :: u16) = 2 ^ 10 * unat (?d AND 0x0e)"
    "unat (push_bit 10 (ucast (?d AND 0x08)) :: u16) = 2 ^ 10 * unat (?d AND 0x08)"
    using b(1) [OF lt(1)] b(2) [OF lt(2)] b(3) [OF lt(3)] by (simp_all only: unat_shifted u)
  have add: "unat (v + w) = (unat v + unat w) mod 65536" for v w :: u16
    by (simp add: unat_word_ariths)
  have mult: "2 ^ 6 * (16 * a) = 1024 * a" "2 ^ 10 * (2 * a) = 2048 * a" "2 ^ 10 * (8 * a) = 8192 * a"
    for a :: nat by simp_all
  show "unat (screen_addr inp) = (unat (vbank_phi2 inp) + 1024 * (unat ?d div 16)) mod 65536"
    "unat (charset_vic_addr inp) = (unat (vbank_phi1 inp) + 2048 * (unat ?d div 2 mod 8)) mod 65536"
    "unat (bitmap_addr inp) = (unat (vbank_phi1 inp) + 8192 * (unat ?d div 8 mod 2)) mod 65536"
    by (simp_all only: screen_addr_def charset_vic_addr_def bitmap_addr_def add s u d16 mult
        add.commute [of "2048 * _"])
qed

lemma response_parts:
  "i < 24 \<Longrightarrow> screen_response inp ! i = header inp ! i"
  "i < 1000 \<Longrightarrow> screen_response inp ! (24 + i) = screen_bytes inp ! i"
  "i < 1000 \<Longrightarrow> screen_response inp ! (1024 + i) = color_bytes inp ! i"
  "i < 2048 \<Longrightarrow> screen_response inp ! (2024 + i) = charset_bytes inp ! i"
  "off + n \<le> 24 \<Longrightarrow> le_at off n (screen_response inp) = le_at off n (header inp)"
  by (simp_all add: screen_response_def nth_append le_at_def)

lemma header_parts:
  "header inp ! 0 = derive_vic_mode inp" "header inp ! 1 = 25" "header inp ! 2 = 40"
  "header inp ! 3 = charset_kind inp" "header inp ! 4 = derive_vic_bank inp"
  "header inp ! 13 = 0"
  "le_at 14 2 (header inp) = unat (screen_addr inp)" "le_at 16 2 (header inp) = unat (charset_vic_addr inp)"
  "le_at 18 2 (header inp) = (if derive_vic_mode inp AND 0x02 \<noteq> 0 then unat (bitmap_addr inp) else 0)"
  "le_at 20 4 (header inp) = 4048"
  by (simp_all add: header_def header_bytes_def screen_sizes le_at_def put_le16_def put_le32_def
      flip: screen_le_val_put)

section \<open>Properties\<close>

text \<open>C26: For a buffer of at least 4072 bytes the packer writes exactly the first 4072 of it: the header
  with the mode, 25 rows, 40 columns, the bank and the addresses the VIC-II registers select (modulo
  64 KiB), then the 1000 screen cells from the screen address on and the 1000 colour nibbles.\<close>

theorem screen_pack_layout:
  assumes "4072 \<le> unat buflen" "unat buflen \<le> length buf"
  shows "\<exists>r. screen_pack (Some inp) (Some buf) buflen (Some l) = Some (0, Some (r @ drop 4072 buf), Some 4072) \<and>
    length r = 4072 \<and> r ! 0 = derive_vic_mode inp \<and> r ! 1 = 25 \<and> r ! 2 = 40 \<and>
    unat (r ! 4) = unat (vbank_phi2 inp) div 16384 \<and>
    le_at 14 2 r = (unat (vbank_phi2 inp) + 1024 * (unat (d018 inp) div 16)) mod 65536 \<and>
    le_at 16 2 r = (unat (vbank_phi1 inp) + 2048 * (unat (d018 inp) div 2 mod 8)) mod 65536 \<and>
    le_at 18 2 r = (if derive_vic_mode inp AND 0x02 = 0 then 0
      else (unat (vbank_phi1 inp) + 8192 * (unat (d018 inp) div 8 mod 2)) mod 65536) \<and>
    le_at 20 4 r = 4048 \<and>
    (\<forall>i<1000. r ! (24 + i) = read_ram inp (of_nat (le_at 14 2 r + i)) \<and>
      r ! (1024 + i) = read_colorram inp (of_nat (0xd800 + i)) AND 0x0f)"
proof -
  let ?r = "screen_response inp"
  have "length ?r = 4072" by (simp add: screen_response_def)
  moreover have bank: "unat (derive_vic_bank inp) = unat (vbank_phi2 inp) div 16384"
  proof -
    have "unat (vbank_phi2 inp) < 65536" using unsigned_less [of "vbank_phi2 inp"] by simp
    then have lt: "unat (vbank_phi2 inp) div 2 ^ 14 < 4" by (simp add: less_mult_imp_div_less)
    have "unat (drop_bit 14 (vbank_phi2 inp)) = unat (vbank_phi2 inp) div 2 ^ 14"
      by (simp only: unat_drop_bit_eq) (simp add: drop_bit_eq_div)
    moreover have "(0x03 :: u16) = mask 2" by (simp add: mask_eq_exp_minus_1)
    ultimately have "unat (drop_bit 14 (vbank_phi2 inp) AND 0x03) = unat (vbank_phi2 inp) div 2 ^ 14"
      using lt by (simp only: take_bit_eq_mask [symmetric] unsigned_take_bit_eq) (simp add: take_bit_eq_mod)
    then show ?thesis using lt
      by (simp add: derive_vic_bank_def unsigned_ucast_eq take_bit_eq_mod)
  qed
  moreover have "le_at 14 2 ?r = unat (screen_addr inp)" by (simp add: response_parts header_parts)
  then have "read_ram inp (of_nat (le_at 14 2 ?r + i)) = read_ram inp (screen_addr inp + of_nat i)" for i
    by simp
  ultimately show ?thesis
    by (intro exI [of _ ?r])
      (simp add: screen_pack_Some [OF assms] response_parts header_parts header_parts(2) [simplified]
        unat_addresses screen_bytes_def color_bytes_def response_parts(1) [of 0] response_parts(1) [of 4])
qed

text \<open>C37: In the modes that show characters (the bitmap bit of the control register clear) the character
  set returned is the one the VIC-II fetches: when the address is in the chargen window, the 2 KiB half of
  the ROM that byte 3 names, else the RAM at the charset address, which byte 3 says. The bitmap modes,
  where the same bytes are returned and the README promises the bitmap, are left out.\<close>

theorem screen_charset_source:
  assumes "4072 \<le> unat buflen" "unat buflen \<le> length buf" "\<not> bit (d011 inp) 5"
  shows "\<exists>r. screen_pack (Some inp) (Some buf) buflen (Some l) = Some (0, Some (r @ drop 4072 buf), Some 4072) \<and>
    (if charset_vic_addr inp AND chargen_mask_phi1 inp = chargen_value_phi1 inp
     then unat (r ! 3) < 2 \<and> (\<forall>i<2048. r ! (2024 + i) = read_chargen inp (of_nat (2048 * unat (r ! 3) + i)))
     else r ! 3 = 2 \<and> (\<forall>i<2048. r ! (2024 + i) = read_ram inp (of_nat (le_at 16 2 r + i))))"
proof -
  let ?r = "screen_response inp"
  have kind: "?r ! 3 = charset_kind inp" by (simp add: response_parts header_parts)
  have addr: "le_at 16 2 ?r = unat (charset_vic_addr inp)" by (simp add: response_parts header_parts)
  have bit: "charset_vic_addr inp AND 0x0800 = 0 \<or> charset_vic_addr inp AND 0x0800 = 0x0800"
  proof -
    have m: "(0x0800 :: u16) = push_bit 11 1" by simp
    have "charset_vic_addr inp AND push_bit 11 1 = (if bit (charset_vic_addr inp) 11 then push_bit 11 1 else 0)"
      by (rule bit_eqI) (auto simp: bit_simps simp del: push_bit_of_1)
    then show ?thesis unfolding m by auto
  qed
  show ?thesis
    using bit
    by (intro exI [of _ ?r])
      (auto simp: screen_pack_Some [OF assms(1,2)] kind charset_kind_def charset_kinds charset_bytes_def
        charset_byte_def charset_in_chargen_window_def response_parts(4) addr)
qed

text \<open>The default snapshot of the test suite, over given memories.\<close>

definition default_inputs :: "(u16 \<Rightarrow> u8) \<Rightarrow> (u16 \<Rightarrow> u8) \<Rightarrow> (u16 \<Rightarrow> u8) \<Rightarrow> screen_inputs_t" where
  "default_inputs ram color rom =
     \<lparr>d011 = 0x1b, d016 = 0x08, d018 = 0x14, d020 = 0x0e, d021 = 0x06, d022 = 0x01, d023 = 0x02,
      d024 = 0x03, vbank_phi1 = 0, vbank_phi2 = 0, chargen_mask_phi1 = 0x7000,
      chargen_value_phi1 = 0x1000, read_ram = ram, read_colorram = color, read_chargen = rom\<rparr>"

lemma whole_buffer: "4072 \<le> unat (4072 :: u32)" "unat (4072 :: u32) \<le> length (replicate 4072 0)"
  by simp_all

lemma screen_pack_layout_witness:
  "\<exists>r. screen_pack (Some (default_inputs (\<lambda>_. 1) (\<lambda>_. 14) (\<lambda>_. 0))) (Some (replicate 4072 0)) 4072 (Some 0) =
      Some (0, Some r, Some 4072) \<and> r ! 1 = 25 \<and> le_at 14 2 r = 0x400 \<and> le_at 16 2 r = 0x1000 \<and>
    r ! 24 = 1"
proof -
  obtain r where r: "screen_pack (Some (default_inputs (\<lambda>_. 1) (\<lambda>_. 14) (\<lambda>_. 0))) (Some (replicate 4072 0)) 4072 (Some 0) =
      Some (0, Some (r @ drop 4072 (replicate 4072 0)), Some 4072)" "r ! 1 = 25"
    "le_at 14 2 r = (unat (vbank_phi2 (default_inputs (\<lambda>_. 1) (\<lambda>_. 14) (\<lambda>_. 0))) +
        1024 * (unat (d018 (default_inputs (\<lambda>_. 1) (\<lambda>_. 14) (\<lambda>_. 0))) div 16)) mod 65536"
    "le_at 16 2 r = (unat (vbank_phi1 (default_inputs (\<lambda>_. 1) (\<lambda>_. 14) (\<lambda>_. 0))) +
        2048 * (unat (d018 (default_inputs (\<lambda>_. 1) (\<lambda>_. 14) (\<lambda>_. 0))) div 2 mod 8)) mod 65536"
    "\<forall>i<1000. r ! (24 + i) = read_ram (default_inputs (\<lambda>_. 1) (\<lambda>_. 14) (\<lambda>_. 0)) (of_nat (le_at 14 2 r + i))"
    using screen_pack_layout [OF whole_buffer, of "default_inputs (\<lambda>_. 1) (\<lambda>_. 14) (\<lambda>_. 0)" 0] by blast
  from r(3,4) have addr: "le_at 14 2 r = 0x400" "le_at 16 2 r = 0x1000" by (simp_all add: default_inputs_def)
  from r(5) [rule_format, of 0] have "r ! 24 = 1" by (simp add: addr default_inputs_def)
  with r(1,2) addr show ?thesis by auto
qed

lemma screen_charset_source_witness:
  "\<exists>r. screen_pack (Some (default_inputs (\<lambda>_. 1) (\<lambda>_. 14) (\<lambda>_. 0))) (Some (replicate 4072 0)) 4072 (Some 0) =
      Some (0, Some r, Some 4072) \<and> unat (r ! 3) < 2 \<and> r ! 2024 = 0"
proof -
  let ?in = "default_inputs (\<lambda>_. 1) (\<lambda>_. 14) (\<lambda>_. 0)"
  have w: "charset_vic_addr ?in AND chargen_mask_phi1 ?in = chargen_value_phi1 ?in"
    by (simp add: charset_vic_addr_def default_inputs_def)
  have m: "\<not> bit (d011 ?in) 5" by (simp add: default_inputs_def bit_iff_odd)
  obtain r where "screen_pack (Some ?in) (Some (replicate 4072 0)) 4072 (Some 0) =
      Some (0, Some (r @ drop 4072 (replicate 4072 0)), Some 4072)" "unat (r ! 3) < 2"
    "\<forall>i<2048. r ! (2024 + i) = read_chargen ?in (of_nat (2048 * unat (r ! 3) + i))"
    using screen_charset_source [OF whole_buffer m, of 0] unfolding if_P [OF w] by blast
  moreover from this(3) [rule_format, of 0] have "r ! 2024 = 0"
    by (simp add: default_inputs_def)
  ultimately show ?thesis by auto
qed

text \<open>A missing argument or a buffer smaller than a response is refused with -1 before anything is
  written.\<close>

theorem screen_pack_errors:
  assumes "inp = None \<or> buf = None \<or> out_len = None \<or> unat buflen < 4072"
  shows "screen_pack inp buf buflen out_len = Some (- 1, buf, out_len)"
  using assms by (auto simp: screen_pack_def screen_sizes word_less_nat_alt split: option.split)

lemma screen_pack_errors_witness:
  "screen_pack (Some (default_inputs (\<lambda>_. 1) (\<lambda>_. 14) (\<lambda>_. 0))) (Some (replicate 10 0)) 10 (Some 10) =
     Some (- 1, Some (replicate 10 0), Some 10)"
  by (rule screen_pack_errors) simp

text \<open>In bitmap mode the charset part of the response is read at the charset address, not at the
  bitmap address the header reports.\<close>

theorem screen_bitmap_payload:
  "\<exists>r. screen_pack (Some (default_inputs ram color rom\<lparr>d011 := 0x3b, d018 := 0x1e\<rparr>))
      (Some (replicate 4072 0)) 4072 (Some 0) = Some (0, Some r, Some 4072) \<and>
    r ! 0 = 2 \<and> le_at 18 2 r = 0x2000 \<and> le_at 16 2 r = 0x3800 \<and> r ! 2024 = ram 0x3800"
proof -
  let ?in = "default_inputs ram color rom\<lparr>d011 := 0x3b, d018 := 0x1e\<rparr>"
  have a: "charset_vic_addr ?in = 0x3800" "bitmap_addr ?in = 0x2000" "derive_vic_mode ?in = 2"
    by (simp_all add: charset_vic_addr_def bitmap_addr_def derive_vic_mode_def default_inputs_def)
  have ram: "read_ram ?in = ram" by (simp add: default_inputs_def)
  have "\<not> charset_in_chargen_window ?in"
    by (simp add: charset_in_chargen_window_def a) (simp add: default_inputs_def)
  then have "screen_response ?in ! 2024 = ram 0x3800"
    using response_parts(4) [of 0 ?in] by (simp add: charset_bytes_def charset_byte_def a ram)
  then show ?thesis
    by (intro exI [of _ "screen_response ?in"])
      (simp add: screen_pack_Some response_parts header_parts a)
qed

end
