(* ===== verification/Screen_Render.thy ===== *)
theory Screen_Render
  imports Screen Clib
begin

unbundle bit_operations_syntax

text \<open>
  The text renderer of \<open>libs/screen/src/screen_core.c\<close>: the screen-code map, the state header and
  \<open>screen_render\<close>, over an emit callback on a host state. The response is untrusted bytes; a read
  outside it is a fault. \<open>int\<close> rows, columns and indices are \<open>nat\<close>, which they are never below.
\<close>

section \<open>The renderer\<close>

definition screen_screencode_to_ascii :: "u8 \<Rightarrow> char" where
  "screen_screencode_to_ascii c =
     (let sc = c AND 0x7f
      in if sc = 0 then CHR ''@''
         else if sc \<le> 0x1a then chr (65 + unat sc - 1)
         else if sc = 0x1b then CHR ''[''
         else if sc = 0x1c then CHR 0x5C
         else if sc = 0x1d then CHR '']''
         else if sc = 0x1e then CHR ''^''
         else if sc = 0x1f then CHR ''_''
         else if 0x20 \<le> sc \<and> sc \<le> 0x3f then chr (unat sc)
         else CHR ''.'')"

definition vic_mode_name :: "u8 \<Rightarrow> string" where
  "vic_mode_name m =
     (if m = 0 then ''normal-text'' else if m = 1 then ''multicolor-text''
      else if m = 2 then ''hires-bitmap'' else if m = 3 then ''multicolor-bitmap''
      else if m = 4 then ''extended-text'' else if m = 5 then ''illegal-text''
      else if m = 6 then ''illegal-bitmap-1'' else if m = 7 then ''illegal-bitmap-2'' else ''?'')"

definition charset_kind_name :: "u8 \<Rightarrow> string" where
  "charset_kind_name k =
     (if k = charset_rom_upper_gfx then ''ROM upper/graphics''
      else if k = charset_rom_upper_lower then ''ROM upper/lowercase''
      else if k = charset_ram then ''custom (RAM)'' else ''?'')"

type_synonym 'h emit = "string \<Rightarrow> 'h \<Rightarrow> 'h"

definition e_outf :: "'h emit \<Rightarrow> string \<Rightarrow> 'h \<Rightarrow> 'h" where
  "e_outf emit s = emit (vsnprintf 256 s)"

definition nl :: "string \<Rightarrow> string" where
  "nl s = s @ [CHR 0x0A]"

definition get_le16 :: "u8 list \<Rightarrow> nat \<Rightarrow> u16 option" where
  "get_le16 hdr i = do {
     a \<leftarrow> aget hdr i;
     b \<leftarrow> aget hdr (i + 1);
     Some (ucast a OR push_bit 8 (ucast b))
   }"

definition get_le32 :: "u8 list \<Rightarrow> nat \<Rightarrow> u32 option" where
  "get_le32 hdr i = do {
     a \<leftarrow> aget hdr i;
     b \<leftarrow> aget hdr (i + 1);
     c \<leftarrow> aget hdr (i + 2);
     d \<leftarrow> aget hdr (i + 3);
     Some (ucast a OR push_bit 8 (ucast b) OR push_bit 16 (ucast c) OR push_bit 24 (ucast d))
   }"

definition dec :: "u8 list \<Rightarrow> nat \<Rightarrow> string option" where
  \<comment> \<open>a header byte printed with \<open>%u\<close>\<close>
  "dec hdr i = do { b \<leftarrow> aget hdr i; Some (show_nat (unat b)) }"

definition hex2 :: "u8 list \<Rightarrow> nat \<Rightarrow> string option" where
  "hex2 hdr i = do { b \<leftarrow> aget hdr i; Some (show_hex 2 (unat b)) }"

definition show_state_header :: "'h emit \<Rightarrow> u8 list \<Rightarrow> 'h \<Rightarrow> 'h option" where
  "show_state_header emit hdr h = do {
     screen \<leftarrow> get_le16 hdr 14;
     charset \<leftarrow> get_le16 hdr 16;
     bitmap \<leftarrow> get_le16 hdr 18;
     payload_len \<leftarrow> get_le32 hdr 20;
     mode \<leftarrow> aget hdr 0;
     kind \<leftarrow> aget hdr 3;
     rows \<leftarrow> dec hdr 1;
     cols \<leftarrow> dec hdr 2;
     bank \<leftarrow> dec hdr 4;
     let h = e_outf emit (nl (''screen: vic_mode='' @ vic_mode_name mode @ '' rows='' @ rows @ '' cols='' @ cols @
           '' vic_bank='' @ bank)) h;
     let h = e_outf emit (nl (''        screen=$'' @ show_hex 4 (unat screen) @ '' charset=$'' @ show_hex 4 (unat charset) @
           '' bitmap=$'' @ show_hex 4 (unat bitmap))) h;
     let h = e_outf emit (nl (''        charset_kind='' @ charset_kind_name kind @ ''   payload_bytes='' @
           show_nat (unat payload_len))) h;
     r11 \<leftarrow> hex2 hdr 10;
     r16 \<leftarrow> hex2 hdr 11;
     r18 \<leftarrow> hex2 hdr 12;
     let h = e_outf emit (nl (''        D011=$'' @ r11 @ '' D016=$'' @ r16 @ '' D018=$'' @ r18)) h;
     border \<leftarrow> dec hdr 5;
     b0 \<leftarrow> dec hdr 6;
     b1 \<leftarrow> dec hdr 7;
     b2 \<leftarrow> dec hdr 8;
     b3 \<leftarrow> dec hdr 9;
     Some (e_outf emit (nl (''        border='' @ border @ '' bg0='' @ b0 @ '' bg1='' @ b1 @ '' bg2='' @ b2 @
           '' bg3='' @ b3)) h)
   }"

definition render_raw :: "'h emit \<Rightarrow> u8 list \<Rightarrow> nat \<Rightarrow> 'h \<Rightarrow> 'h option" where
  "render_raw emit buf n h = do {
     let h = e_outf emit (CHR 0x0A # nl (''screen RAM hex (first '' @ show_nat n @ '' bytes):'')) h;
     h \<leftarrow> for_each (\<lambda>r h. do {
         let h = (if r mod 16 = 0 then e_outf emit (CHR 0x0A # ''  +'' @ show_hex 3 r @ '':'') h else h);
         b \<leftarrow> aget buf (screen_header_bytes + r);
         Some (e_outf emit ('' '' @ show_hex 2 (unat b)) h)
       }) [0..<n] h;
     Some (e_outf emit (nl []) h)
   }"

definition render_rule :: "'h emit \<Rightarrow> nat \<Rightarrow> 'h \<Rightarrow> 'h" where
  "render_rule emit cols h = e_outf emit (nl ''+'') (fold (\<lambda>c. e_outf emit ''-'') [0..<cols] h)"

definition render_row :: "'h emit \<Rightarrow> u8 list \<Rightarrow> nat \<Rightarrow> nat \<Rightarrow> 'h \<Rightarrow> 'h option" where
  "render_row emit buf cols r h = do {
     let h = e_outf emit (''  r'' @ pad_left 2 CHR ''0'' (show_nat r) @ '':  |'') h;
     h \<leftarrow> for_each (\<lambda>c h. do {
         b \<leftarrow> aget buf (screen_header_bytes + (r * cols + c));
         Some (e_outf emit [screen_screencode_to_ascii b] h)
       }) [0..<cols] h;
     Some (e_outf emit (nl ''|'') h)
   }"

definition render_grid :: "'h emit \<Rightarrow> u8 list \<Rightarrow> nat \<Rightarrow> nat \<Rightarrow> 'h \<Rightarrow> 'h option" where
  "render_grid emit buf rows cols h = do {
     let h = render_rule emit cols (e_outf emit (CHR 0x0A # ''        +'') h);
     h \<leftarrow> for_each (render_row emit buf cols) [0..<rows] h;
     let h = render_rule emit cols (e_outf emit ''        +'' h);
     Some (e_outf emit (nl (''(approximate ASCII; '' @ [CHR 0x27, CHR ''.'', CHR 0x27] @ '' = unmappable. Use '' @
           [CHR 0x27] @ ''screen raw'' @ [CHR 0x27] @ '' for hex.)'')) h)
   }"

definition screen_render :: "u8 list option \<Rightarrow> u32 \<Rightarrow> int \<Rightarrow> 'h emit \<Rightarrow> 'h \<Rightarrow> 'h option" where
  "screen_render buf len raw emit h =
     (if buf = None \<or> len < of_nat screen_header_bytes
      then Some (e_outf emit (nl (''screen: response too short ('' @ show_nat (unat len) @ '' bytes)'')) h)
      else do {
        let buf = the buf;
        h \<leftarrow> show_state_header emit buf h;
        rb \<leftarrow> aget buf 1;
        cb \<leftarrow> aget buf 2;
        let rows = unat rb;
        let cols = unat cb;
        if rows = 0 \<or> cols = 0 \<or> len < of_nat (screen_header_bytes + rows * cols)
        then Some (e_outf emit (nl (''screen: header reports rows='' @ show_nat rows @ '' cols='' @ show_nat cols @
               '' which doesn'' @ [CHR 0x27] @ ''t fit in '' @ show_nat (unat len) @ ''-byte response'')) h)
        else if raw \<noteq> 0 then render_raw emit buf (rows * cols) h
        else render_grid emit buf rows cols h
      })"

section \<open>The chunks emitted\<close>

text \<open>
  The renderer as a list of chunks: what it emits does not depend on the host, only on the response.
\<close>

definition header_chunks :: "u8 list \<Rightarrow> string list" where
  "header_chunks buf =
     (let d = \<lambda>i. show_nat (unat (buf ! i)); x = \<lambda>i. show_hex 2 (unat (buf ! i));
          a = \<lambda>i. show_hex 4 (unat (the (get_le16 buf i)))
      in map nl
        [''screen: vic_mode='' @ vic_mode_name (buf ! 0) @ '' rows='' @ d 1 @ '' cols='' @ d 2 @ '' vic_bank='' @ d 4,
         ''        screen=$'' @ a 14 @ '' charset=$'' @ a 16 @ '' bitmap=$'' @ a 18,
         ''        charset_kind='' @ charset_kind_name (buf ! 3) @ ''   payload_bytes='' @
           show_nat (unat (the (get_le32 buf 20))),
         ''        D011=$'' @ x 10 @ '' D016=$'' @ x 11 @ '' D018=$'' @ x 12,
         ''        border='' @ d 5 @ '' bg0='' @ d 6 @ '' bg1='' @ d 7 @ '' bg2='' @ d 8 @ '' bg3='' @ d 9])"

definition cell_char :: "u8 list \<Rightarrow> nat \<Rightarrow> char" where
  "cell_char buf i = screen_screencode_to_ascii (buf ! (24 + i))"

definition rule_chunks :: "nat \<Rightarrow> string list" where
  "rule_chunks cols = replicate cols ''-'' @ [nl ''+'']"

definition row_chunks :: "u8 list \<Rightarrow> nat \<Rightarrow> nat \<Rightarrow> string list" where
  "row_chunks buf cols r =
     [''  r'' @ pad_left 2 CHR ''0'' (show_nat r) @ '':  |''] @
     map (\<lambda>c. [cell_char buf (r * cols + c)]) [0..<cols] @ [nl ''|'']"

definition legend :: string where
  "legend = nl (''(approximate ASCII; '' @ [CHR 0x27, CHR ''.'', CHR 0x27] @ '' = unmappable. Use '' @
     [CHR 0x27] @ ''screen raw'' @ [CHR 0x27] @ '' for hex.)'')"

definition grid_chunks :: "u8 list \<Rightarrow> nat \<Rightarrow> nat \<Rightarrow> string list" where
  "grid_chunks buf rows cols =
     [CHR 0x0A # ''        +''] @ rule_chunks cols @ concat (map (row_chunks buf cols) [0..<rows]) @
     [''        +''] @ rule_chunks cols @ [legend]"

definition raw_chunks :: "u8 list \<Rightarrow> nat \<Rightarrow> string list" where
  "raw_chunks buf n =
     [CHR 0x0A # nl (''screen RAM hex (first '' @ show_nat n @ '' bytes):'')] @
     concat (map (\<lambda>r. (if r mod 16 = 0 then [CHR 0x0A # ''  +'' @ show_hex 3 r @ '':''] else []) @
       ['' '' @ show_hex 2 (unat (buf ! (24 + r)))]) [0..<n]) @ [nl []]"

abbreviation emit_all :: "'h emit \<Rightarrow> string list \<Rightarrow> 'h \<Rightarrow> 'h" where
  "emit_all emit ss \<equiv> fold (e_outf emit) ss"

lemma fold_emit_map: "fold (\<lambda>c. e_outf emit (g c)) xs h = emit_all emit (map g xs) h"
  by (simp add: fold_map comp_def)

lemma fold_emit_concat: "fold (\<lambda>c. emit_all emit (g c)) xs h = emit_all emit (concat (map g xs)) h"
  by (induction xs arbitrary: h) simp_all

lemma header_emits:
  assumes "24 \<le> length buf"
  shows "show_state_header emit buf h = Some (emit_all emit (header_chunks buf) h)"
proof -
  have "i < 24 \<Longrightarrow> aget buf i = Some (buf ! i)" for i using assms by (simp add: aget_def)
  then show ?thesis
    by (simp add: show_state_header_def header_chunks_def get_le16_def get_le32_def dec_def hex2_def Let_def)
qed

lemma raw_emits:
  assumes "24 + n \<le> length buf"
  shows "render_raw emit buf n h = Some (emit_all emit (raw_chunks buf n) h)"
proof -
  let ?f = "\<lambda>r h. aget buf (screen_header_bytes + r) \<bind>
      (\<lambda>b. Some (e_outf emit ('' '' @ show_hex 2 (unat b))
         (if r mod 16 = 0 then e_outf emit (CHR 0x0A # ''  +'' @ show_hex 3 r @ '':'') h else h)))"
  let ?g = "\<lambda>r. (if r mod 16 = 0 then [CHR 0x0A # ''  +'' @ show_hex 3 r @ '':''] else []) @
       ['' '' @ show_hex 2 (unat (buf ! (24 + r)))]"
  have loop: "for_each ?f [0..<n] s = Some (emit_all emit (concat (map ?g [0..<n])) s)" for s
    unfolding fold_emit_concat [symmetric]
    by (rule for_each_pure) (use assms in \<open>simp add: aget_def screen_header_bytes_def\<close>)
  show ?thesis unfolding render_raw_def raw_chunks_def Let_def by (simp only: loop) simp
qed

lemma cell_in_range: "r < rows \<Longrightarrow> c < cols \<Longrightarrow> r * cols + c < rows * cols" for r rows c cols :: nat
proof -
  assume "r < rows" "c < cols"
  then have "r * cols + c < Suc r * cols" by simp
  also have "\<dots> \<le> rows * cols" using \<open>r < rows\<close> by (intro mult_le_mono1) simp
  finally show ?thesis .
qed

lemma row_emits:
  assumes "24 + rows * cols \<le> length buf" "r < rows"
  shows "render_row emit buf cols r h = Some (emit_all emit (row_chunks buf cols r) h)"
proof -
  let ?f = "\<lambda>c h. aget buf (screen_header_bytes + (r * cols + c)) \<bind>
      (\<lambda>b. Some (e_outf emit [screen_screencode_to_ascii b] h))"
  let ?g = "\<lambda>c. [cell_char buf (r * cols + c)]"
  have loop: "for_each ?f [0..<cols] s = Some (emit_all emit (map ?g [0..<cols]) s)" for s
    unfolding fold_emit_map [symmetric]
  proof (rule for_each_pure)
    fix c t
    assume "c \<in> set [0..<cols]"
    then have "r * cols + c < rows * cols" by (intro cell_in_range [OF assms(2)]) simp
    with assms(1) have "24 + (r * cols + c) < length buf" by linarith
    then show "?f c t = Some (e_outf emit (?g c) t)"
      by (simp add: aget_def screen_header_bytes_def cell_char_def)
  qed
  show ?thesis unfolding render_row_def row_chunks_def Let_def by (simp only: loop) simp
qed

lemma rule_emits: "render_rule emit cols h = emit_all emit (rule_chunks cols) h"
  by (simp add: render_rule_def rule_chunks_def fold_emit_map map_replicate_const)

lemma grid_emits:
  assumes "24 + rows * cols \<le> length buf"
  shows "render_grid emit buf rows cols h = Some (emit_all emit (grid_chunks buf rows cols) h)"
proof -
  have loop: "for_each (render_row emit buf cols) [0..<rows] s =
      Some (emit_all emit (concat (map (row_chunks buf cols) [0..<rows])) s)" for s
    unfolding fold_emit_concat [symmetric] by (rule for_each_pure) (simp add: row_emits [OF assms])
  show ?thesis
    unfolding render_grid_def grid_chunks_def Let_def legend_def [symmetric] by (simp only: loop) (simp add: rule_emits)
qed

lemma unat_cells: "unat (of_nat (24 + unat a * unat b) :: u32) = 24 + unat a * unat b" for a b :: u8
proof -
  have "unat a * unat b \<le> 255 * 255" using u8_less [of a] u8_less [of b] by (intro mult_le_mono) simp_all
  then show ?thesis by (simp only: unat_of_nat) simp
qed

section \<open>Properties\<close>

definition misfit :: "u8 list \<Rightarrow> u32 \<Rightarrow> string" where
  "misfit buf len =
     nl (''screen: header reports rows='' @ show_nat (unat (buf ! 1)) @ '' cols='' @ show_nat (unat (buf ! 2)) @
       '' which doesn'' @ [CHR 0x27] @ ''t fit in '' @ show_nat (unat len) @ ''-byte response'')"

lemma screen_render_all:
  assumes "24 \<le> unat len" "unat len \<le> length buf"
  shows "screen_render (Some buf) len raw emit h =
    (let n = unat (buf ! 1) * unat (buf ! 2)
     in Some (emit_all emit (header_chunks buf @
          (if n = 0 \<or> unat len < 24 + n then [misfit buf len]
           else if raw \<noteq> 0 then raw_chunks buf n
           else grid_chunks buf (unat (buf ! 1)) (unat (buf ! 2)))) h))"
proof -
  let ?n = "unat (buf ! 1) * unat (buf ! 2)"
  have long: "\<not> len < 24" using assms(1) by (simp add: word_less_nat_alt)
  have fits: "len < of_nat (24 + ?n) \<longleftrightarrow> unat len < 24 + ?n"
    by (simp only: word_less_nat_alt unat_cells)
  have get: "aget buf 1 = Some (buf ! 1)" "aget buf 2 = Some (buf ! 2)" using assms by (simp_all add: aget_def)
  have head: "show_state_header emit buf h = Some (emit_all emit (header_chunks buf) h)"
    by (rule header_emits) (use assms in simp)
  show ?thesis
  proof (cases "?n = 0 \<or> unat len < 24 + ?n")
    case True
    then have "unat (buf ! 1) = 0 \<or> unat (buf ! 2) = 0 \<or> len < of_nat (24 + ?n)" by (simp only: fits) auto
    with True show ?thesis
      by (simp only: screen_render_def screen_header_bytes_def Let_def head get bind.bind_lunit if_True option.sel
          misfit_def [symmetric]) (use long in \<open>simp add: misfit_def [symmetric]\<close>)
  next
    case False
    then have no: "\<not> (unat (buf ! 1) = 0 \<or> unat (buf ! 2) = 0 \<or> len < of_nat (24 + ?n))"
      by (simp only: fits) auto
    from False assms(2) have "24 + ?n \<le> length buf" by linarith
    then have "render_raw emit buf ?n t = Some (emit_all emit (raw_chunks buf ?n) t)"
      "render_grid emit buf (unat (buf ! 1)) (unat (buf ! 2)) t =
        Some (emit_all emit (grid_chunks buf (unat (buf ! 1)) (unat (buf ! 2))) t)" for t
      by (rule raw_emits, rule grid_emits)
    with False no show ?thesis
      by (simp only: screen_render_def screen_header_bytes_def Let_def head get bind.bind_lunit if_False option.sel
          fold_append o_apply)
        (use long in simp)
  qed
qed

text \<open>What is printed depends only on the bytes a response is said to hold.\<close>

lemma nth_take_eq: "take k b = take k buf \<Longrightarrow> i < k \<Longrightarrow> b ! i = buf ! i"
  by (metis nth_take)

lemma header_chunks_cong:
  assumes "take n b = take n buf" "24 \<le> n" "n \<le> length b" "n \<le> length buf"
  shows "header_chunks b = header_chunks buf"
proof -
  have "b ! i = buf ! i" if "i < 24" for i by (rule nth_take_eq [OF assms(1)]) (use that assms(2) in simp)
  moreover from this have "aget b i = aget buf i" if "i < 24" for i using that assms by (simp add: aget_def)
  ultimately show ?thesis by (simp add: header_chunks_def get_le16_def get_le32_def Let_def del: One_nat_def)
qed

lemma raw_chunks_cong:
  assumes "take k b = take k buf" "24 + n \<le> k"
  shows "raw_chunks b n = raw_chunks buf n"
proof -
  have "b ! (24 + r) = buf ! (24 + r)" if "r < n" for r
    by (rule nth_take_eq [OF assms(1)]) (use that assms(2) in simp)
  then show ?thesis by (auto simp: raw_chunks_def intro!: arg_cong [where f = concat])
qed

lemma grid_chunks_cong:
  assumes "take k b = take k buf" "24 + rows * cols \<le> k"
  shows "grid_chunks b rows cols = grid_chunks buf rows cols"
proof -
  have "row_chunks b cols r = row_chunks buf cols r" if "r < rows" for r
  proof -
    have "cell_char b (r * cols + c) = cell_char buf (r * cols + c)" if "c < cols" for c
      unfolding cell_char_def
      by (rule arg_cong [OF nth_take_eq [OF assms(1)]])
        (use cell_in_range [OF \<open>r < rows\<close> that] assms(2) in linarith)
    then show ?thesis by (simp add: row_chunks_def)
  qed
  then show ?thesis by (auto simp: grid_chunks_def intro!: arg_cong [where f = concat])
qed

definition too_short :: "u32 \<Rightarrow> string" where
  "too_short len = nl (''screen: response too short ('' @ show_nat (unat len) @ '' bytes)'')"

definition body_chunks :: "u8 list \<Rightarrow> u32 \<Rightarrow> int \<Rightarrow> string list" where
  \<comment> \<open>what follows the state header\<close>
  "body_chunks buf len raw =
     (let n = unat (buf ! 1) * unat (buf ! 2)
      in if n = 0 \<or> unat len < 24 + n then [misfit buf len]
         else if raw \<noteq> 0 then raw_chunks buf n
         else grid_chunks buf (unat (buf ! 1)) (unat (buf ! 2)))"

lemma body_chunks_cong:
  assumes "take (unat len) b = take (unat len) buf" "24 \<le> unat len"
  shows "body_chunks b len raw = body_chunks buf len raw"
proof -
  have e: "b ! 1 = buf ! 1" "b ! 2 = buf ! 2" by (rule nth_take_eq [OF assms(1)], use assms(2) in simp)+
  show ?thesis
    using raw_chunks_cong [OF assms(1)] grid_chunks_cong [OF assms(1)]
    by (simp add: body_chunks_def misfit_def e [unfolded One_nat_def] Let_def)
qed

text \<open>C27: The renderer on untrusted bytes. Whatever buffer holds the response, and whatever bytes lie after
  it, the renderer reads nothing outside the response and emits the same pieces, to any host. A response
  shorter than a header is one message saying so. Otherwise something determined by the response comes
  first, and then, only when the rows and columns it claims fit into its length, the hex dump or the
  character grid, else one message that says they do not fit.\<close>

theorem screen_render_untrusted:
  assumes "unat len \<le> length buf"
  shows "\<exists>pre. \<forall>b emit h. unat len \<le> length b \<and> take (unat len) b = take (unat len) buf \<longrightarrow>
    screen_render (Some b) len raw emit h = Some (emit_all emit
      (if unat len < 24 then [nl (''screen: response too short ('' @ show_nat (unat len) @ '' bytes)'')]
       else pre @
         (let n = unat (buf ! 1) * unat (buf ! 2)
          in if n = 0 \<or> unat len < 24 + n
             then [nl (''screen: header reports rows='' @ show_nat (unat (buf ! 1)) @ '' cols='' @ show_nat (unat (buf ! 2)) @
               '' which doesn'' @ [CHR 0x27] @ ''t fit in '' @ show_nat (unat len) @ ''-byte response'')]
             else if raw \<noteq> 0 then raw_chunks buf n
             else grid_chunks buf (unat (buf ! 1)) (unat (buf ! 2)))) h)"
proof -
  have all: "screen_render (Some b) len raw emit h = Some (emit_all emit
      (if unat len < 24 then [too_short len] else header_chunks buf @ body_chunks buf len raw) h)"
    if b: "unat len \<le> length b" "take (unat len) b = take (unat len) buf" for b emit h
  proof (cases "unat len < 24")
    case True
    then show ?thesis
      by (simp add: screen_render_def screen_header_bytes_def word_less_nat_alt too_short_def)
  next
    case False
    then have long: "24 \<le> unat len" by simp
    have "screen_render (Some b) len raw emit h = Some (emit_all emit (header_chunks b @ body_chunks b len raw) h)"
      unfolding body_chunks_def by (subst screen_render_all [OF long b(1)]) (simp only: Let_def)
    with False show ?thesis
      by (simp only: if_False header_chunks_cong [OF b(2) long b(1) assms] body_chunks_cong [OF b(2) long])
  qed
  show ?thesis
    by (intro exI [of _ "header_chunks buf"] allI impI)
      (simp only: all too_short_def body_chunks_def misfit_def)
qed

lemma screen_render_untrusted_witness:
  "\<exists>pre. screen_render (Some (replicate 24 0xff @ [7])) 24 0 (\<lambda>s h. h @ [s]) [] =
       Some (emit_all (\<lambda>s h. h @ [s]) (pre @ [misfit (replicate 24 0xff) 24]) []) \<and>
     screen_render (Some [7, 8]) 1 0 (\<lambda>s h. h @ [s]) [] = Some (emit_all (\<lambda>s h. h @ [s]) [too_short 1] [])"
proof -
  obtain pre where "\<forall>b (emit :: string list emit) h. 24 \<le> length b \<and> take 24 b = replicate 24 0xff \<longrightarrow>
      screen_render (Some b) 24 0 emit h = Some (emit_all emit (pre @ [misfit (replicate 24 0xff) 24]) h)"
    using screen_render_untrusted [of 24 "replicate 24 0xff" 0] by (auto simp: Let_def misfit_def)
  moreover have "screen_render (Some [7, 8]) 1 0 (\<lambda>s h. h @ [s]) [] = Some (emit_all (\<lambda>s h. h @ [s]) [too_short 1] [])"
  proof -
    have "unat (1 :: u32) \<le> length [7 :: u8]" by simp
    from screen_render_untrusted [OF this, of 0, where ?'a = "string list"] obtain pre where
      "\<forall>b (emit :: string list emit) h. unat (1 :: u32) \<le> length b \<and> take (unat (1 :: u32)) b = take (unat (1 :: u32)) [7] \<longrightarrow>
         screen_render (Some b) 1 0 emit h = Some (emit_all emit [too_short 1] h)"
      by (auto simp: too_short_def)
    from this [rule_format, of "[7, 8]"] show ?thesis by simp
  qed
  ultimately show ?thesis by (intro exI [of _ pre]) simp
qed

text \<open>The character printed for a screen code: the reverse-video bit is ignored, codes 0 to 31 are
  the ASCII column from the at sign, 32 to 63 are themselves and the graphics codes are a dot; every
  result is a printable character.\<close>

theorem screencode_ascii:
  "ord (screen_screencode_to_ascii c) =
     (let n = unat c mod 128 in if n < 32 then 64 + n else if n < 64 then n else 46)"
proof -
  let ?sc = "c AND 0x7f"
  let ?n = "unat c mod 128"
  have "(0x7f :: u8) = mask 7" by (simp add: mask_eq_exp_minus_1)
  then have n: "unat ?sc = ?n"
    by (simp only: take_bit_eq_mask [symmetric] unsigned_take_bit_eq) (simp add: take_bit_eq_mod)
  have w: "?sc = 0 \<longleftrightarrow> ?n = 0" "?sc \<le> 0x1a \<longleftrightarrow> ?n \<le> 26" "?sc = 0x1b \<longleftrightarrow> ?n = 27" "?sc = 0x1c \<longleftrightarrow> ?n = 28"
    "?sc = 0x1d \<longleftrightarrow> ?n = 29" "?sc = 0x1e \<longleftrightarrow> ?n = 30" "?sc = 0x1f \<longleftrightarrow> ?n = 31" "0x20 \<le> ?sc \<longleftrightarrow> 32 \<le> ?n"
    "?sc \<le> 0x3f \<longleftrightarrow> ?n \<le> 63"
    unfolding n [symmetric] by (simp_all add: word_le_nat_alt word_unat_eq_iff)
  have ords: "ord CHR ''@'' = 64" "ord CHR ''['' = 91" "ord CHR 0x5C = 92" "ord CHR '']'' = 93"
    "ord CHR ''^'' = 94" "ord CHR ''_'' = 95" "ord CHR ''.'' = 46"
    by (simp_all add: ord_def)
  define m where "m = ?n"
  have "m < 128" by (simp add: m_def)
  then show ?thesis
    unfolding screen_screencode_to_ascii_def Let_def w n m_def [symmetric]
    by (auto simp: ords)
qed

text \<open>What is shown on the screen: the cell in row \<open>r\<close>, column \<open>c\<close> is the RAM byte at
  \<open>screen_addr + 40 r + c\<close>.\<close>

definition shown_row :: "screen_inputs_t \<Rightarrow> nat \<Rightarrow> string" where
  "shown_row inp r =
     ''  r'' @ pad_left 2 CHR ''0'' (show_nat r) @ '':  |'' @
     map (\<lambda>c. screen_screencode_to_ascii (read_ram inp (screen_addr inp + of_nat (40 * r + c)))) [0..<40] @
     nl ''|''"

definition printed :: "string list \<Rightarrow> string" where
  \<comment> \<open>the text of a list of emitted chunks\<close>
  "printed ss = concat (map (vsnprintf 256) ss)"

lemma printed_simps [simp]: "printed [] = []" "printed (s # ss) = vsnprintf 256 s @ printed ss"
  "printed (ss @ ts) = printed ss @ printed ts" "printed (concat sss) = concat (map printed sss)"
proof -
  show "printed (concat sss) = concat (map printed sss)" by (induction sss) (simp_all add: printed_def)
qed (simp_all add: printed_def)

lemma emit_all_printed: "emit_all (\<lambda>s h. h @ s) ss h = h @ printed ss"
  by (induction ss arbitrary: h) (simp_all add: e_outf_def)

lemma printed_cells: "printed (map (\<lambda>c. [g c]) cs) = map g cs"
  by (induction cs) (simp_all add: vsnprintf_def)

lemma printed_rule: "printed (rule_chunks cols) = replicate cols CHR ''-'' @ nl ''+''"
proof -
  have "printed (replicate n ''-'') = replicate n CHR ''-''" for n
    by (induction n) (simp_all add: vsnprintf_def)
  then show ?thesis by (simp add: rule_chunks_def vsnprintf_def nl_def)
qed

lemma row_label_short: "r < 25 \<Longrightarrow> length (show_nat r) \<le> 2"
proof -
  assume "r < 25"
  then have "r div 10 < 10" by simp
  then show ?thesis by (simp add: show_nat_def show_base.simps [of 10 r] show_base.simps [of 10 "r div 10"])
qed

lemma printed_row:
  assumes "r < 25"
  shows "printed (row_chunks (screen_response inp) 40 r) = shown_row inp r"
proof -
  have c: "cell_char (screen_response inp) (r * 40 + c) =
      screen_screencode_to_ascii (read_ram inp (screen_addr inp + of_nat (40 * r + c)))" if "c < 40" for c
  proof -
    have "r * 40 + c < 1000" using assms that by linarith
    then show ?thesis by (simp add: cell_char_def response_parts screen_bytes_def mult.commute)
  qed
  show ?thesis
    using row_label_short [OF assms]
    by (simp add: row_chunks_def printed_cells shown_row_def vsnprintf_def nl_def c pad_left_def)
qed

text \<open>The character grid of a response: two rules and the 25 rows of screen memory.\<close>

definition shown_grid :: "screen_inputs_t \<Rightarrow> string" where
  "shown_grid inp =
     CHR 0x0A # ''        +'' @ replicate 40 CHR ''-'' @ nl ''+'' @ concat (map (shown_row inp) [0..<25]) @
     ''        +'' @ replicate 40 CHR ''-'' @ nl ''+'' @ legend"

lemma length_response [simp]: "length (screen_response inp) = 4072"
  by (simp add: screen_response_def)

lemma response_grid [simp]: "screen_response inp ! 1 = 25" "screen_response inp ! Suc 0 = 25" "screen_response inp ! 2 = 40"
  by (simp_all add: response_parts header_parts header_parts(2) [simplified])

lemma printed_grid: "printed (grid_chunks (screen_response inp) 25 40) = shown_grid inp"
proof -
  have rows: "map (printed \<circ> row_chunks (screen_response inp) 40) [0..<25] = map (shown_row inp) [0..<25]"
    using printed_row by (simp only: map_eq_conv) simp
  have legend: "vsnprintf 256 legend = legend" by (simp add: vsnprintf_def legend_def nl_def)
  show ?thesis
    unfolding grid_chunks_def shown_grid_def
    by (simp only: printed_simps printed_rule rows map_map legend) (simp add: vsnprintf_def)
qed

text \<open>C28: From the machine's memory to the screen: rendering the packed response prints, after the state
  header and between two rules, 25 rows labelled with their number whose 40 characters are the screen
  codes in RAM from the screen address on, in order.\<close>

theorem screen_shows_memory:
  assumes "unat buflen = 4072" "length buf = 4072"
  shows "\<exists>r. screen_pack (Some inp) (Some buf) buflen (Some l) = Some (0, Some r, Some 4072) \<and>
    screen_render (Some r) 4072 0 (\<lambda>s h. h @ s) [] = Some (printed (header_chunks r) @ shown_grid inp)"
proof -
  have "screen_pack (Some inp) (Some buf) buflen (Some l) = Some (0, Some (screen_response inp), Some 4072)"
    using screen_pack_Some [of buflen buf inp l] assms by simp
  moreover have "screen_render (Some (screen_response inp)) 4072 0 (\<lambda>s h. h @ s) [] =
      Some (printed (header_chunks (screen_response inp) @ grid_chunks (screen_response inp) 25 40))"
    by (subst screen_render_all) (simp_all add: Let_def emit_all_printed)
  ultimately show ?thesis by (auto simp: printed_grid)
qed

lemma screen_shows_memory_witness:
  "\<exists>r. screen_pack (Some (default_inputs (\<lambda>_. 1) (\<lambda>_. 14) (\<lambda>_. 0))) (Some (replicate 4072 0)) 4072 (Some 0) =
      Some (0, Some r, Some 4072) \<and>
    screen_render (Some r) 4072 0 (\<lambda>s h. h @ s) [] =
      Some (printed (header_chunks r) @ shown_grid (default_inputs (\<lambda>_. 1) (\<lambda>_. 14) (\<lambda>_. 0)))"
  by (rule screen_shows_memory) simp_all

end
