(* ===== verification/Screen_Adapter.thy ===== *)
theory Screen_Adapter
  imports Screen_Render
begin

unbundle bit_operations_syntax

text \<open>
  The VICE adapters of the screen scraper: \<open>libs/screen/vice/c64screen.c\<close>, the provider that gathers the
  VIC-II registers, and \<open>libs/screen/vice/mon_screen.c\<close>, the monitor's side. The emulator is not part of
  the repository: its memory, registers and monitor output are the record \<open>vice_c64\<close>, a parameter.
  A pointer that may be \<open>NULL\<close> is an \<open>option\<close>.
\<close>

record 'v vice_c64 =
  mem_ram :: "'v \<Rightarrow> u16 \<Rightarrow> u8"
  colorram_read :: "'v \<Rightarrow> u16 \<Rightarrow> u8"
  mem_chargen_rom :: "'v \<Rightarrow> u16 \<Rightarrow> u8"
  vicii_regs :: "'v \<Rightarrow> nat \<Rightarrow> u8"
  vicii_vbank_phi1 :: "'v \<Rightarrow> int"
  vicii_vbank_phi2 :: "'v \<Rightarrow> int"
  vaddr_chargen_mask_phi1 :: "'v \<Rightarrow> int"
  vaddr_chargen_value_phi1 :: "'v \<Rightarrow> int"
  mon_out :: "string \<Rightarrow> 'v \<Rightarrow> 'v"

section \<open>Sizes\<close>

abbreviation (input) MON_SCREEN_HEADER_BYTES :: nat where "MON_SCREEN_HEADER_BYTES \<equiv> 24"
abbreviation (input) MON_SCREEN_TEXT_COLS :: nat where "MON_SCREEN_TEXT_COLS \<equiv> 40"
abbreviation (input) MON_SCREEN_TEXT_ROWS :: nat where "MON_SCREEN_TEXT_ROWS \<equiv> 25"
abbreviation (input) MON_SCREEN_TEXT_CELLS :: nat where
  "MON_SCREEN_TEXT_CELLS \<equiv> MON_SCREEN_TEXT_COLS * MON_SCREEN_TEXT_ROWS"
abbreviation (input) MON_SCREEN_CHARSET_BYTES :: nat where "MON_SCREEN_CHARSET_BYTES \<equiv> 2048"
abbreviation (input) MON_SCREEN_BINMON_GET_RESPONSE_SIZE :: nat where
  "MON_SCREEN_BINMON_GET_RESPONSE_SIZE \<equiv>
     MON_SCREEN_HEADER_BYTES + MON_SCREEN_TEXT_CELLS * 2 + MON_SCREEN_CHARSET_BYTES"

definition mon_screen_static_checks :: bool where
  "mon_screen_static_checks \<longleftrightarrow> MON_SCREEN_BINMON_GET_RESPONSE_SIZE = screen_response_size"

lemma mon_screen_static_checks: mon_screen_static_checks
  by (simp add: mon_screen_static_checks_def screen_sizes)

section \<open>The C64 provider\<close>

definition cb_read_ram :: "'v vice_c64 \<Rightarrow> 'v \<Rightarrow> u16 \<Rightarrow> u8" where
  "cb_read_ram V v a = mem_ram V v (a AND 0xffff)"

definition cb_read_colorram :: "'v vice_c64 \<Rightarrow> 'v \<Rightarrow> u16 \<Rightarrow> u8" where
  "cb_read_colorram V v a = colorram_read V v a"

definition cb_read_chargen :: "'v vice_c64 \<Rightarrow> 'v \<Rightarrow> u16 \<Rightarrow> u8" where
  "cb_read_chargen V v off = mem_chargen_rom V v (off AND 0x0fff)"

definition c64_inputs :: "'v vice_c64 \<Rightarrow> 'v \<Rightarrow> screen_inputs_t" where
  "c64_inputs V v =
     \<lparr>d011 = vicii_regs V v 0x11, d016 = vicii_regs V v 0x16, d018 = vicii_regs V v 0x18,
      d020 = vicii_regs V v 0x20, d021 = vicii_regs V v 0x21, d022 = vicii_regs V v 0x22,
      d023 = vicii_regs V v 0x23, d024 = vicii_regs V v 0x24,
      vbank_phi1 = of_int (vicii_vbank_phi1 V v), vbank_phi2 = of_int (vicii_vbank_phi2 V v),
      chargen_mask_phi1 = of_int (vaddr_chargen_mask_phi1 V v),
      chargen_value_phi1 = of_int (vaddr_chargen_value_phi1 V v),
      read_ram = cb_read_ram V v, read_colorram = cb_read_colorram V v,
      read_chargen = cb_read_chargen V v\<rparr>"

type_synonym 'v mon_screen_provider_t =
  "'v \<Rightarrow> u8 list option \<Rightarrow> u32 \<Rightarrow> u32 option \<Rightarrow> (int \<times> u8 list option \<times> u32 option) option"

definition c64screen_get_state :: "'v vice_c64 \<Rightarrow> 'v mon_screen_provider_t" where
  "c64screen_get_state V v buf buf_len out_len = screen_pack (Some (c64_inputs V v)) buf buf_len out_len"

section \<open>The monitor's side\<close>

text \<open>The static \<open>s_provider\<close> is the state; \<open>None\<close> before a machine registers one.\<close>

type_synonym 'v s_provider = "'v mon_screen_provider_t option"

definition mon_screen_register_provider :: "'v mon_screen_provider_t \<Rightarrow> 'v s_provider" where
  "mon_screen_register_provider provider = Some provider"

definition c64screen_init :: "'v vice_c64 \<Rightarrow> 'v s_provider" where
  "c64screen_init V = mon_screen_register_provider (c64screen_get_state V)"

definition mon_screen_binmon_get ::
    "'v s_provider \<Rightarrow> 'v \<Rightarrow> u8 list option \<Rightarrow> u32 option \<Rightarrow>
       (int \<times> u8 list option \<times> u32 option) option" where
  "mon_screen_binmon_get s_provider v out out_length =
     (case (out, out_length) of
        (Some _, Some n) \<Rightarrow>
          if n < of_nat MON_SCREEN_BINMON_GET_RESPONSE_SIZE then Some (- 1, out, out_length)
          else (case s_provider of
                  None \<Rightarrow> Some (- 1, out, out_length)
                | Some provider \<Rightarrow> provider v out n out_length)
      | _ \<Rightarrow> Some (- 1, out, out_length))"

definition mon_screen_emit :: "'v vice_c64 \<Rightarrow> 'v emit" where
  "mon_screen_emit V str = mon_out V str"

definition mon_screen_show :: "'v vice_c64 \<Rightarrow> 'v s_provider \<Rightarrow> u8 list \<Rightarrow> string option \<Rightarrow> 'v \<Rightarrow> 'v option" where
  \<comment> \<open>\<open>stack\<close> is what the uninitialised local buffer holds\<close>
  "mon_screen_show V s_provider stack args v =
     (let raw = of_bool (args \<noteq> None \<and> args \<noteq> Some [])
      in case s_provider of
           None \<Rightarrow> Some (mon_out V (nl (''screen: not supported on this machine '' @
               ''(provider registered only by C64 builds)'')) v)
         | Some provider \<Rightarrow> do {
             (rc, buf, got) \<leftarrow> provider v (Some stack) (of_nat MON_SCREEN_BINMON_GET_RESPONSE_SIZE)
                (Some (of_nat MON_SCREEN_BINMON_GET_RESPONSE_SIZE));
             let got = the got;
             if rc \<noteq> 0 \<or> got < of_nat MON_SCREEN_HEADER_BYTES
             then Some (mon_out V (nl (''screen: provider returned error '' @ show_int rc @ '' (got '' @
                 show_nat (unat got) @ '' bytes)'')) v)
             else screen_render buf got raw (mon_screen_emit V) v
           })"

section \<open>The provider contract\<close>

text \<open>
  What the monitor's side relies on: a provider given a buffer that holds a response fills it with one
  of the machine's state, which says it is 25 rows of 40 columns, and leaves the rest of the buffer.
\<close>

locale screen_provider =
  fixes provider :: "'v mon_screen_provider_t"
    and response :: "'v \<Rightarrow> u8 list"
  assumes fills: "4072 \<le> unat n \<Longrightarrow> unat n \<le> length b \<Longrightarrow>
      provider v (Some b) n (Some l) = Some (0, Some (response v @ drop 4072 b), Some 4072)"
    and size: "length (response v) = 4072"
    and grid: "response v ! 1 = 25" "response v ! 2 = 40"
begin

lemma binmon_get_served:
  assumes "4072 \<le> unat n" "unat n \<le> length b"
  shows "mon_screen_binmon_get (Some provider) v (Some b) (Some n) =
    Some (0, Some (response v @ drop 4072 b), Some 4072)"
proof -
  have "\<not> n < 4072" using assms(1) by (simp add: word_less_nat_alt)
  then show ?thesis using fills [OF assms] by (simp add: mon_screen_binmon_get_def screen_sizes)
qed

lemma show_served:
  assumes "length stack = 4072"
  shows "mon_screen_show V (Some provider) stack args v =
    Some (emit_all (mon_out V) (header_chunks (response v) @
      (if args \<noteq> None \<and> args \<noteq> Some [] then raw_chunks (response v) 1000
       else grid_chunks (response v) 25 40)) v)"
proof -
  have emit: "mon_screen_emit V = mon_out V" by (rule ext) (simp add: mon_screen_emit_def)
  have p: "provider v (Some stack) 4072 (Some 4072) = Some (0, Some (response v), Some 4072)"
    using fills [of 4072 stack v 4072] assms by simp
  have "\<not> (4072 :: u32) < 24" by simp
  moreover have "screen_render (Some (response v)) 4072 raw e v = Some (emit_all e (header_chunks (response v) @
      (if raw \<noteq> 0 then raw_chunks (response v) 1000 else grid_chunks (response v) 25 40)) v)" for raw e
    by (subst screen_render_all) (simp_all add: grid grid(1) [simplified] size Let_def cong del: if_weak_cong)
  ultimately show ?thesis
    by (simp add: mon_screen_show_def screen_sizes p emit Let_def)
qed

end

lemma c64_fills:
  "4072 \<le> unat n \<Longrightarrow> unat n \<le> length b \<Longrightarrow> c64screen_get_state V v (Some b) n (Some l) =
     Some (0, Some (screen_response (c64_inputs V v) @ drop 4072 b), Some 4072)"
  by (simp add: c64screen_get_state_def screen_pack_Some)

interpretation c64: screen_provider "c64screen_get_state V" "\<lambda>v. screen_response (c64_inputs V v)"
  for V :: "'v vice_c64"
  by unfold_locales (use c64_fills in \<open>simp_all del: One_nat_def\<close>)

section \<open>Properties\<close>

text \<open>The SCREEN_GET command writes into the output buffer exactly when it is there, holds a response
  by its stated length and a machine has registered a provider; on a C64 it then returns 4072 bytes of
  the machine's current state, and in every other case -1 with nothing written.\<close>

theorem screen_get_command:
  assumes "\<forall>b n. out = Some b \<longrightarrow> out_length = Some n \<longrightarrow> unat n \<le> length b"
  shows "mon_screen_binmon_get None v out out_length = Some (- 1, out, out_length) \<and>
    mon_screen_binmon_get (c64screen_init V) v out out_length =
      (case (out, out_length) of
         (Some b, Some n) \<Rightarrow>
           if unat n < 4072 then Some (- 1, out, out_length)
           else Some (0, Some (screen_response (c64_inputs V v) @ drop 4072 b), Some 4072)
       | _ \<Rightarrow> Some (- 1, out, out_length))"
proof -
  have "mon_screen_binmon_get (Some (c64screen_get_state V)) v (Some b) (Some n) =
      Some (0, Some (screen_response (c64_inputs V v) @ drop 4072 b), Some 4072)"
    if "out = Some b" "out_length = Some n" "\<not> unat n < 4072" for b n
    by (rule c64.binmon_get_served) (use assms that in auto)
  then show ?thesis
    by (auto simp: mon_screen_binmon_get_def screen_sizes word_less_nat_alt c64screen_init_def
        mon_screen_register_provider_def split: option.split)
qed

text \<open>A C64 whose monitor keeps the text printed, for the witnesses.\<close>

definition demo_c64 :: "string vice_c64" where
  "demo_c64 =
     \<lparr>mem_ram = (\<lambda>v a. 1), colorram_read = (\<lambda>v a. 14), mem_chargen_rom = (\<lambda>v a. 0),
      vicii_regs = (\<lambda>v i. if i = 0x18 then 0x14 else 0), vicii_vbank_phi1 = (\<lambda>v. 0),
      vicii_vbank_phi2 = (\<lambda>v. 0), vaddr_chargen_mask_phi1 = (\<lambda>v. 0x7000),
      vaddr_chargen_value_phi1 = (\<lambda>v. 0x1000), mon_out = (\<lambda>s v. v @ s)\<rparr>"

lemma screen_get_command_witness:
  "mon_screen_binmon_get (c64screen_init demo_c64) [] (Some (replicate 4072 0)) (Some 4072) =
     Some (0, Some (screen_response (c64_inputs demo_c64 [])), Some 4072)"
  using screen_get_command [of "Some (replicate 4072 0)" "Some 4072" "[]" demo_c64] by simp

text \<open>C12: The monitor's \<open>screenscrape\<close> command on a C64 prints the state header and then the screen memory row by
  row, or with an argument the hex dump of the same cells, whatever the local buffer held before; on a
  machine that registered no provider it prints that it is not supported, and nothing else.\<close>

theorem screen_command:
  assumes "length stack = 4072" "\<And>s v. out (mon_out V s v) = out v @ s"
  shows "(\<exists>v'. mon_screen_show V (c64screen_init V) stack args v = Some v' \<and>
      out v' = out v @ printed (header_chunks (screen_response (c64_inputs V v))) @
        (if args = None \<or> args = Some [] then shown_grid (c64_inputs V v)
         else printed (raw_chunks (screen_response (c64_inputs V v)) 1000))) \<and>
    (\<exists>v'. mon_screen_show V None stack args v = Some v' \<and> out v' = out v @
      nl ''screen: not supported on this machine (provider registered only by C64 builds)'')"
proof
  have "out (emit_all (mon_out V) ss v) = out v @ printed ss" for ss v
    by (induction ss arbitrary: v) (simp_all add: e_outf_def assms(2))
  then show "\<exists>v'. mon_screen_show V (c64screen_init V) stack args v = Some v' \<and>
    out v' = out v @ printed (header_chunks (screen_response (c64_inputs V v))) @
      (if args = None \<or> args = Some [] then shown_grid (c64_inputs V v)
       else printed (raw_chunks (screen_response (c64_inputs V v)) 1000))"
    using c64.show_served [OF assms(1), of V V args v]
    by (simp add: c64screen_init_def mon_screen_register_provider_def printed_grid)
  show "\<exists>v'. mon_screen_show V None stack args v = Some v' \<and> out v' = out v @
      nl ''screen: not supported on this machine (provider registered only by C64 builds)''"
    by (simp add: mon_screen_show_def assms(2) Let_def)
qed

lemma screen_command_witness:
  "\<exists>v' v''. mon_screen_show demo_c64 (c64screen_init demo_c64) (replicate 4072 0) None [] = Some v' \<and>
     v' = printed (header_chunks (screen_response (c64_inputs demo_c64 []))) @ shown_grid (c64_inputs demo_c64 []) \<and>
     mon_screen_show demo_c64 None (replicate 4072 0) None [] = Some v'' \<and>
     v'' = nl ''screen: not supported on this machine (provider registered only by C64 builds)''"
  using screen_command [of "replicate 4072 0" "\<lambda>v. v" demo_c64 None "[]"] by (simp add: demo_c64_def)

end
