(* ===== verification/Drive_Attach.thy ===== *)
theory Drive_Attach
  imports Prelude
begin

text \<open>
  The DRIVE_ATTACH (0x78) body decoder of \<open>libs/driveattach/src/driveattach_core.c\<close>. A null
  pointer is \<open>None\<close>; the outer \<open>option\<close> is \<open>None\<close> exactly when the C code would read or
  write outside an array.
\<close>

section \<open>The decoder\<close>

datatype da_status_t = DA_OK | DA_ERR_LENGTH | DA_ERR_PARAM

record da_request_t =
  da_detach :: bool
  da_unit :: u8
  da_drive :: u8
  da_path :: "u8 list"

definition da_zeroed :: da_request_t where
  "da_zeroed = \<lparr>da_detach = False, da_unit = 0, da_drive = 0, da_path = replicate 256 0\<rparr>"

definition da_decode ::
    "u8 list option \<Rightarrow> u32 \<Rightarrow> da_request_t option \<Rightarrow> (da_status_t \<times> da_request_t option) option" where
  "da_decode body len out =
     (case (body, out) of
        (Some b, Some _) \<Rightarrow>
          if len < 3 then Some (DA_ERR_LENGTH, out)
          else do {
            unit \<leftarrow> aget b 0;
            drive \<leftarrow> aget b 1;
            path_len \<leftarrow> aget b 2;
            if len < 3 + ucast path_len then Some (DA_ERR_LENGTH, out)
            else if unit < 8 \<or> 11 < unit \<or> 1 < drive then Some (DA_ERR_PARAM, out)
            else
              let req = da_zeroed\<lparr>da_unit := unit, da_drive := drive\<rparr>
              in if path_len = 0 then Some (DA_OK, Some (req\<lparr>da_detach := True\<rparr>))
                 else do {
                   p \<leftarrow> aslice b 3 (unat path_len);
                   path \<leftarrow> aput (da_path req) 0 p;
                   path \<leftarrow> aset path (unat path_len) 0;
                   Some (DA_OK, Some (req\<lparr>da_detach := False, da_path := path\<rparr>))
                 }
          }
      | _ \<Rightarrow> Some (DA_ERR_PARAM, out))"

section \<open>The request format\<close>

text \<open>The documented wire body, and the request it stands for.\<close>

definition da_body :: "u8 \<Rightarrow> u8 \<Rightarrow> u8 list \<Rightarrow> u8 list" where
  "da_body unit drive path = [unit, drive, of_nat (length path)] @ path"

definition da_request :: "u8 \<Rightarrow> u8 \<Rightarrow> u8 list \<Rightarrow> da_request_t" where
  "da_request unit drive path =
     \<lparr>da_detach = (path = []), da_unit = unit, da_drive = drive,
      da_path = path @ replicate (256 - length path) 0\<rparr>"

definition da_valid :: "u8 \<Rightarrow> u8 \<Rightarrow> u8 list \<Rightarrow> bool" where
  "da_valid unit drive path \<longleftrightarrow> 8 \<le> unit \<and> unit \<le> 11 \<and> drive \<le> 1 \<and> length path \<le> 255"

lemma unat_path_len: "unat (3 + ucast (n :: u8) :: u32) = 3 + unat n"
proof -
  have "3 + unat n < 2 ^ 32" using u8_less [of n] by simp
  then show ?thesis by (simp add: unat_word_ariths)
qed

lemma len_3: "\<not> len < 3 \<longleftrightarrow> 3 \<le> unat len" for len :: u32
  by (simp add: not_less word_le_nat_alt)

lemma unat_u8_of_nat: "n \<le> 255 \<Longrightarrow> unat (of_nat n :: u8) = n"
  by (simp add: unat_of_nat)

text \<open>The decoder on a body of at least \<open>length\<close> bytes, with the array accesses gone.\<close>

lemma da_decode_eq:
  assumes "unat len \<le> length b"
  shows "da_decode (Some b) len (Some r) = Some (
     if unat len < 3 \<or> unat len < 3 + unat (b ! 2) then (DA_ERR_LENGTH, Some r)
     else if b ! 0 < 8 \<or> 11 < b ! 0 \<or> 1 < b ! 1 then (DA_ERR_PARAM, Some r)
     else (DA_OK, Some (da_request (b ! 0) (b ! 1) (take (unat (b ! 2)) (drop 3 b)))))"
proof (cases "len < 3")
  case True
  then have "unat len < 3" by (simp add: word_less_nat_alt)
  with True show ?thesis by (simp add: da_decode_def)
next
  case False
  then have l: "3 \<le> unat len" by (simp add: len_3)
  then have "3 \<le> length b" using assms by simp
  then have g: "aget b 0 = Some (b ! 0)" "aget b (Suc 0) = Some (b ! 1)" "aget b 2 = Some (b ! 2)"
    by (simp_all only: aget_def) auto
  have short: "len < 3 + ucast (b ! 2) \<longleftrightarrow> unat len < 3 + unat (b ! 2)"
    by (simp add: word_less_nat_alt unat_path_len)
  show ?thesis
  proof (cases "unat len < 3 + unat (b ! 2)")
    case True
    with False l show ?thesis by (simp add: da_decode_def g short)
  next
    case fits: False
    define n where "n = unat (b ! 2)"
    define p where "p = take n (drop 3 b)"
    have len: "length p = n" using fits assms by (simp add: n_def p_def)
    then have n: "n < 256" "b ! 2 = 0 \<longleftrightarrow> n = 0" "p = [] \<longleftrightarrow> n = 0"
      using u8_less [of "b ! 2"] by (auto simp: n_def unat_eq_0 simp flip: length_0_conv)
    have s: "aslice b 3 n = Some p"
      using fits assms by (simp add: p_def n_def aslice_Some)
    show ?thesis
      unfolding n_def [symmetric] p_def [symmetric]
      using False l fits n len s
      by (simp add: da_decode_def g short da_zeroed_def da_request_def array_simps Let_def
          list_update_append n_def [symmetric] nth_append)
  qed
qed

lemma da_body_parts:
  assumes "length p \<le> 255"
  shows "da_body u d p ! 0 = u" "da_body u d p ! 1 = d" "unat (da_body u d p ! 2) = length p"
    "drop 3 (da_body u d p) = p" "length (da_body u d p) = 3 + length p"
  using assms by (simp_all add: da_body_def unat_u8_of_nat)

lemma nth_da_body_append:
  "length p \<le> 255 \<Longrightarrow> i < 3 \<Longrightarrow> (da_body u d p @ r) ! i = da_body u d p ! i"
  by (simp add: nth_append da_body_parts(5))

lemma split_body:
  assumes "3 + unat (b ! 2) \<le> m" "m \<le> length b"
  shows "\<exists>rest. take m b = da_body (b ! 0) (b ! 1) (take (unat (b ! 2)) (drop 3 b)) @ rest"
proof -
  obtain x y z c where b: "b = x # y # z # c"
    using assms by (cases b; cases "tl b"; cases "tl (tl b)") auto
  obtain k where m: "m = Suc (Suc (Suc (unat z + k)))"
    using assms(1) b by (auto dest: le_Suc_ex)
  have "take (unat z + k) c = take (unat z) c @ take k (drop (unat z) c)"
    by (rule take_add)
  moreover have "length (take (unat z) c) = unat z" using assms b m by simp
  ultimately show ?thesis using m by (simp add: b da_body_def)
qed

section \<open>Properties\<close>

text \<open>C33: The decoder accepts exactly the documented wire bodies with a unit of 8 to 11 and a
  drive of 0 or 1 (possibly followed by trailing bytes), and then yields the request they stand
  for: detach iff the path is empty, otherwise the path, zero-padded in its 256-byte array.\<close>

theorem da_decode_accepts_iff:
  assumes "unat len \<le> length b"
  shows "da_decode (Some b) len (Some r) = Some (DA_OK, Some q) \<longleftrightarrow>
    (\<exists>u d p rest. da_valid u d p \<and> take (unat len) b = da_body u d p @ rest \<and> q = da_request u d p)"
    (is "?lhs \<longleftrightarrow> ?rhs")
proof
  assume ?lhs
  with da_decode_eq [OF assms, of r] have
    ok: "3 + unat (b ! 2) \<le> unat len" "\<not> b ! 0 < 8" "\<not> 11 < b ! 0" "\<not> 1 < b ! 1"
      "q = da_request (b ! 0) (b ! 1) (take (unat (b ! 2)) (drop 3 b))"
    by (auto split: if_splits)
  from split_body [OF ok(1) assms] obtain rest where
    "take (unat len) b = da_body (b ! 0) (b ! 1) (take (unat (b ! 2)) (drop 3 b)) @ rest" ..
  moreover have "da_valid (b ! 0) (b ! 1) (take (unat (b ! 2)) (drop 3 b))"
    using ok(2-4) u8_less [of "b ! 2"] by (auto simp: da_valid_def not_less)
  ultimately show ?rhs using ok(5) by blast
next
  assume ?rhs
  then obtain u d p rest where r: "da_valid u d p" "take (unat len) b = da_body u d p @ rest"
    "q = da_request u d p" by blast
  then have p: "length p \<le> 255" by (simp add: da_valid_def)
  have b: "b = da_body u d p @ rest @ drop (unat len) b"
    using r(2) append_take_drop_id [of "unat len" b] by simp
  have len: "3 + length p \<le> unat len"
    using arg_cong [OF r(2), of length] assms p by (simp add: da_body_parts)
  have i: "b ! 0 = u" "b ! 1 = d" "unat (b ! 2) = length p" "take (length p) (drop 3 b) = p"
    by (subst b, use p in \<open>simp add: nth_da_body_append da_body_parts del: One_nat_def\<close>)+
  show ?lhs
    using da_decode_eq [OF assms, of r] r(1,3) i len by (simp add: da_valid_def not_less)
qed

theorem da_decode_accepts_iff_witness:
  "da_decode (Some [8, 0, 2, 0x61, 0x62]) 5 (Some da_zeroed)
     = Some (DA_OK, Some (da_request 8 0 [0x61, 0x62]))"
  by (subst da_decode_accepts_iff)
    (simp, rule exI [of _ 8], rule exI [of _ 0], rule exI [of _ "[0x61, 0x62]"], rule exI [of _ "[]"],
      simp add: da_valid_def da_body_def)

text \<open>On a body of at least \<open>length\<close> bytes the decoder stays inside its arrays; a body
  shorter than its declared path is a length error even when unit or drive are bad, and after
  any error the caller's request is untouched.\<close>

theorem da_decode_errors:
  assumes "unat len \<le> length b"
  shows "\<exists>st out. da_decode (Some b) len (Some r) = Some (st, out) \<and>
     (st = DA_ERR_LENGTH \<longleftrightarrow> unat len < 3 \<or> unat len < 3 + unat (b ! 2)) \<and>
     (st \<noteq> DA_OK \<longrightarrow> out = Some r)"
  by (auto simp: da_decode_eq [OF assms])

theorem da_decode_errors_witness:
  "\<exists>st out. da_decode (Some [99, 0, 5, 0x61]) 4 (Some da_zeroed) = Some (st, out) \<and>
     (st = DA_ERR_LENGTH \<longleftrightarrow> unat (4 :: u32) < 3 \<or> unat (4 :: u32) < 3 + unat ([99, 0, 5, 0x61 :: u8] ! 2)) \<and>
     (st \<noteq> DA_OK \<longrightarrow> out = Some da_zeroed)"
  by (rule da_decode_errors) simp

end
