(* ===== verification/Binmon.thy ===== *)
theory Binmon
  imports Keymatrix_Adapter Screen_Adapter Drive_Attach
begin

unbundle bit_operations_syntax

text \<open>
  The binary monitor's handlers for the revice opcodes, as \<open>integration/vice/patches\<close> add them to VICE's
  \<open>monitor_binary.c\<close>: patch 03 with DRIVE_ATTACH as patch 06 routes it through the decoder, and the
  dispatch on the opcode. VICE itself is not part of the repository: its reply functions and its disk
  attach calls are the record \<open>vice_binmon\<close>, the keyboard and the C64 those of the adapters, and every
  other command goes to the parameter \<open>other\<close>. The state is the keyboard adapter's, whose device holds
  the emulator; the screen provider is the static of \<open>mon_screen.c\<close>.
\<close>

section \<open>Commands and replies\<close>

abbreviation (input) e_MON_CMD_KEYMATRIX_SET :: u8 where "e_MON_CMD_KEYMATRIX_SET \<equiv> 0x74"
abbreviation (input) e_MON_CMD_KEYMATRIX_TAP :: u8 where "e_MON_CMD_KEYMATRIX_TAP \<equiv> 0x75"
abbreviation (input) e_MON_CMD_KEYMATRIX_GET :: u8 where "e_MON_CMD_KEYMATRIX_GET \<equiv> 0x76"
abbreviation (input) e_MON_CMD_SCREEN_GET :: u8 where "e_MON_CMD_SCREEN_GET \<equiv> 0x77"
abbreviation (input) e_MON_CMD_DRIVE_ATTACH :: u8 where "e_MON_CMD_DRIVE_ATTACH \<equiv> 0x78"

abbreviation (input) e_MON_RESPONSE_KEYMATRIX_SET :: u8 where "e_MON_RESPONSE_KEYMATRIX_SET \<equiv> 0x74"
abbreviation (input) e_MON_RESPONSE_KEYMATRIX_TAP :: u8 where "e_MON_RESPONSE_KEYMATRIX_TAP \<equiv> 0x75"
abbreviation (input) e_MON_RESPONSE_KEYMATRIX_GET :: u8 where "e_MON_RESPONSE_KEYMATRIX_GET \<equiv> 0x76"
abbreviation (input) e_MON_RESPONSE_SCREEN_GET :: u8 where "e_MON_RESPONSE_SCREEN_GET \<equiv> 0x77"
abbreviation (input) e_MON_RESPONSE_DRIVE_ATTACH :: u8 where "e_MON_RESPONSE_DRIVE_ATTACH \<equiv> 0x78"

datatype binmon_err =
  e_MON_ERR_OK | e_MON_ERR_INVALID_PARAMETER | e_MON_ERR_CMD_INVALID_LENGTH | e_MON_ERR_CMD_FAILURE

record binary_command_t =
  bc_type :: u8
  bc_request_id :: u32
  bc_length :: u32
  bc_body :: "u8 list"

record 'v vice_binmon =
  monitor_binary_response :: "u32 \<Rightarrow> u8 \<Rightarrow> binmon_err \<Rightarrow> u32 \<Rightarrow> u8 list option \<Rightarrow> 'v \<Rightarrow> 'v"
  monitor_binary_error :: "binmon_err \<Rightarrow> u32 \<Rightarrow> 'v \<Rightarrow> 'v"
  file_system_attach_disk :: "u8 \<Rightarrow> u8 \<Rightarrow> u8 list \<Rightarrow> 'v \<Rightarrow> int \<times> 'v"
  file_system_detach_disk :: "u8 \<Rightarrow> u8 \<Rightarrow> 'v \<Rightarrow> 'v"

text \<open>What an uninitialised local holds.\<close>

record uninit =
  stack_bytes :: "nat \<Rightarrow> u8 list"
  stack_request :: da_request_t

definition on_vice :: "('v \<Rightarrow> 'v) \<Rightarrow> ('v, 'a) kmx_state \<Rightarrow> ('v, 'a) kmx_state" where
  "on_vice f = (\<lambda>(s, d). (s, d\<lparr>vice := f (vice d)\<rparr>))"

section \<open>Handlers\<close>

definition monitor_binary_process_keymatrix_set ::
    "('v, 'a) vice_keyboard \<Rightarrow> 'v vice_binmon \<Rightarrow> binary_command_t \<Rightarrow> ('v, 'a) kmx_state \<Rightarrow> ('v, 'a) kmx_state option" where
  "monitor_binary_process_keymatrix_set V B command st = do {
     (r, st) \<leftarrow> mon_keymatrix_binmon_set V (bc_body command) (bc_length command) st;
     Some (if r \<noteq> 0
           then on_vice (monitor_binary_error B e_MON_ERR_CMD_INVALID_LENGTH (bc_request_id command)) st
           else on_vice (monitor_binary_response B 0 e_MON_RESPONSE_KEYMATRIX_SET e_MON_ERR_OK
                  (bc_request_id command) None) st)
   }"

definition monitor_binary_process_keymatrix_tap ::
    "('v, 'a) vice_keyboard \<Rightarrow> 'v vice_binmon \<Rightarrow> binary_command_t \<Rightarrow> ('v, 'a) kmx_state \<Rightarrow> ('v, 'a) kmx_state option" where
  "monitor_binary_process_keymatrix_tap V B command st = do {
     (r, st) \<leftarrow> mon_keymatrix_binmon_tap V (bc_body command) (bc_length command) st;
     Some (if r \<noteq> 0
           then on_vice (monitor_binary_error B e_MON_ERR_CMD_INVALID_LENGTH (bc_request_id command)) st
           else on_vice (monitor_binary_response B 0 e_MON_RESPONSE_KEYMATRIX_TAP e_MON_ERR_OK
                  (bc_request_id command) None) st)
   }"

definition monitor_binary_process_keymatrix_get ::
    "('v, 'a) vice_keyboard \<Rightarrow> 'v vice_binmon \<Rightarrow> uninit \<Rightarrow> binary_command_t \<Rightarrow>
       ('v, 'a) kmx_state \<Rightarrow> ('v, 'a) kmx_state option" where
  "monitor_binary_process_keymatrix_get V B U command st = do {
     let buf = stack_bytes U MON_KEYMATRIX_BINMON_GET_RESPONSE_SIZE;
     ((r, buf, out_len), st) \<leftarrow>
       mon_keymatrix_binmon_get V (Some buf) (Some MON_KEYMATRIX_BINMON_GET_RESPONSE_SIZE) st;
     Some (if r \<noteq> 0
           then on_vice (monitor_binary_error B e_MON_ERR_CMD_FAILURE (bc_request_id command)) st
           else on_vice (monitor_binary_response B (the out_len) e_MON_RESPONSE_KEYMATRIX_GET e_MON_ERR_OK
                  (bc_request_id command) buf) st)
   }"

definition monitor_binary_process_screen_get ::
    "'v s_provider \<Rightarrow> 'v vice_binmon \<Rightarrow> uninit \<Rightarrow> binary_command_t \<Rightarrow>
       ('v, 'a) kmx_state \<Rightarrow> ('v, 'a) kmx_state option" where
  "monitor_binary_process_screen_get s_provider B U command st = do {
     let buf = stack_bytes U MON_SCREEN_BINMON_GET_RESPONSE_SIZE;
     (r, buf, out_len) \<leftarrow>
       mon_screen_binmon_get s_provider (vice (snd st)) (Some buf) (Some (of_nat MON_SCREEN_BINMON_GET_RESPONSE_SIZE));
     Some (if r \<noteq> 0
           then on_vice (monitor_binary_error B e_MON_ERR_CMD_FAILURE (bc_request_id command)) st
           else on_vice (monitor_binary_response B (the out_len) e_MON_RESPONSE_SCREEN_GET e_MON_ERR_OK
                  (bc_request_id command) buf) st)
   }"

definition drive_attach_run :: "'v vice_binmon \<Rightarrow> u32 \<Rightarrow> da_request_t \<Rightarrow> 'v \<Rightarrow> 'v" where
  \<comment> \<open>a decoded request; the path is the C string in its array\<close>
  "drive_attach_run B request_id req v =
     (let ok = monitor_binary_response B 0 e_MON_RESPONSE_DRIVE_ATTACH e_MON_ERR_OK request_id None
      in if da_detach req then ok (file_system_detach_disk B (da_unit req) (da_drive req) v)
         else
           let (r, v) = file_system_attach_disk B (da_unit req) (da_drive req) (cstr (da_path req)) v
           in if r < 0 then monitor_binary_error B e_MON_ERR_CMD_FAILURE request_id v else ok v)"

definition monitor_binary_process_drive_attach ::
    "'v vice_binmon \<Rightarrow> uninit \<Rightarrow> binary_command_t \<Rightarrow> ('v, 'a) kmx_state \<Rightarrow> ('v, 'a) kmx_state option" where
  "monitor_binary_process_drive_attach B U command st = do {
     (status, req) \<leftarrow> da_decode (Some (bc_body command)) (bc_length command) (Some (stack_request U));
     Some (case status of
         DA_OK \<Rightarrow> on_vice (drive_attach_run B (bc_request_id command) (the req)) st
       | DA_ERR_LENGTH \<Rightarrow>
           on_vice (monitor_binary_error B e_MON_ERR_CMD_INVALID_LENGTH (bc_request_id command)) st
       | DA_ERR_PARAM \<Rightarrow>
           on_vice (monitor_binary_error B e_MON_ERR_INVALID_PARAMETER (bc_request_id command)) st)
   }"

definition monitor_binary_process_command ::
    "('v, 'a) vice_keyboard \<Rightarrow> 'v s_provider \<Rightarrow> 'v vice_binmon \<Rightarrow> uninit \<Rightarrow>
       (binary_command_t \<Rightarrow> ('v, 'a) kmx_state \<Rightarrow> ('v, 'a) kmx_state option) \<Rightarrow>
       binary_command_t \<Rightarrow> ('v, 'a) kmx_state \<Rightarrow> ('v, 'a) kmx_state option" where
  "monitor_binary_process_command V s_provider B U other command st =
     (let command_type = bc_type command
      in if command_type = e_MON_CMD_KEYMATRIX_SET then monitor_binary_process_keymatrix_set V B command st
         else if command_type = e_MON_CMD_KEYMATRIX_TAP then monitor_binary_process_keymatrix_tap V B command st
         else if command_type = e_MON_CMD_KEYMATRIX_GET then monitor_binary_process_keymatrix_get V B U command st
         else if command_type = e_MON_CMD_SCREEN_GET
           then monitor_binary_process_screen_get s_provider B U command st
         else if command_type = e_MON_CMD_DRIVE_ATTACH then monitor_binary_process_drive_attach B U command st
         else other command st)"

section \<open>What the keyboard adapter leaves alone\<close>

text \<open>
  The adapter reaches the emulator through six calls only. A key that is not wired is never touched, so a
  property that the six calls keep can be carried along as the state of such a key: the refinement of
  the keyboard contract then says that no operation changes it.
\<close>

definition keyboard_call :: "('v, 'a) vice_keyboard \<Rightarrow> ('v \<Rightarrow> 'v) \<Rightarrow> bool" where
  "keyboard_call V g \<longleftrightarrow>
     (\<exists>r c x. g = keyboard_set_keyarr_any V r c x) \<or> g = keyboard_clear_keymatrix V \<or>
     (\<exists>n. g = (\<lambda>v. snd (alarm_new V n v))) \<or> (\<exists>a t. g = alarm_set V a t) \<or> (\<exists>a. g = alarm_unset V a) \<or>
     (\<exists>s. g = vice_keyboard.mon_out V s)"

lemma keyboard_calls [simp]:
  "keyboard_call V (keyboard_set_keyarr_any V r c x)" "keyboard_call V (keyboard_clear_keymatrix V)"
  "keyboard_call V (\<lambda>v. snd (alarm_new V n v))" "keyboard_call V (alarm_set V a t)"
  "keyboard_call V (alarm_unset V a)" "keyboard_call V (vice_keyboard.mon_out V s)"
  by (auto simp: keyboard_call_def)

lemma sp_drive_unwired: "\<not> wired r c \<Longrightarrow> w_pressed (sp_drive wired ks v w) r c = w_pressed w r c"
  by (simp add: sp_drive_def)

lemma sp_set_items_unwired:
  assumes "\<not> wired r c"
  shows "w_pressed (sp_set_items wired is w) r c = w_pressed w r c"
proof (induction "is" arbitrary: w)
  case (Cons x xs)
  obtain r' c' v where "x = (r', c', v)" by (cases x)
  then have "sp_set_items wired (x # xs) w =
      sp_set_items wired xs (sp_drive wired [\<lparr>row = r', col = c', kind = 0, key_name = []\<rparr>] v w)"
    by (simp add: sp_set_items_def)
  then show ?case by (simp only: Cons.IH sp_drive_unwired [of wired r c, OF assms])
qed (simp add: sp_set_items_def)

lemma sp_release_now_unwired:
  "\<not> wired r c \<Longrightarrow> w_pressed (snd (sp_release_now wired reason sw)) r c = w_pressed (snd sw) r c"
  by (cases sw) (auto simp: sp_release_now_def sp_drive_unwired split: option.split)

lemma sp_inject_unwired:
  "\<not> wired r c \<Longrightarrow> w_pressed (snd (sp_inject wired ks mode sw)) r c = w_pressed (snd sw) r c"
  using sp_release_now_unwired [of wired r c KM_RELEASE_MANUAL sw]
  by (auto simp: sp_inject_def sp_drive_unwired split: prod.split)

lemma sp_do_unwired:
  assumes "\<not> wired r c" "r < 0"
  shows "w_pressed (snd (sp_do wired op sw)) r c = w_pressed (snd sw) r c"
proof -
  note now = sp_release_now_unwired [of wired r c, OF assms(1)]
  note inject = sp_inject_unwired [of wired r c, OF assms(1)]
  have tap: "w_pressed (snd (sp_tap wired ks mode f sw)) r c = w_pressed (snd sw) r c" for ks mode f
    using inject [of ks mode sw] by (simp add: sp_tap_def sp_arm_def Let_def case_prod_unfold)
  have read: "w_pressed (snd (sp_read hit sw)) r c = w_pressed (snd sw) r c" for hit
    by (cases sw) (simp add: sp_read_def Let_def split: option.split)
  have keys: "w_pressed (snd (sp_release_keys wired ks sw)) r c = w_pressed (snd sw) r c" for ks
    using assms(1) by (cases sw) (simp add: sp_release_keys_def sp_drive_unwired now Let_def split: option.split)
  have all: "w_pressed (snd (sp_release_all wired sw)) r c = w_pressed (snd sw) r c"
    using assms(2) now [of KM_RELEASE_MANUAL sw] by (simp add: sp_release_all_def Let_def case_prod_unfold)
  have set: "w_pressed (sp_set_items wired is w) r c = w_pressed w r c" for "is" w
    by (rule sp_set_items_unwired [of wired r c, OF assms(1)])
  show ?thesis
    by (cases op) (simp_all add: sp_do_def tap read keys all inject now set split: option.split prod.split)
qed

lemma mon_do_keeps:
  assumes laws: "vice_keyboard_laws V wired pressed armed" and wf: "kmx_wf V s" and ok: "op_ok op"
    and alarm: "op = Alarm \<longrightarrow> kmx_inited s"
    and kept: "\<And>g v. keyboard_call V g \<Longrightarrow> (P (g v) :: bool) = P v"
    and run: "mon_do V op (s, d) = Some (s', d')"
  shows "P (vice d') = P (vice d)"
proof -
  define wired' where "wired' = (\<lambda>r c. wired r c \<and> \<not> (r = - 1 \<and> c = 0))"
  define pressed' where "pressed' = (\<lambda>v r c. if r = - 1 \<and> c = 0 then P v else pressed v r c)"
  have laws': "vice_keyboard_laws V wired' pressed' armed"
    using laws keyboard_calls [of V, THEN kept]
    by (simp add: vice_keyboard_laws_def wired'_def pressed'_def fun_eq_iff) blast
  from mon_do_step [OF this wf ok alarm, of d] run have
    "kmx_view V pressed' armed d' = snd (sp_do wired' op (kmx_abs V s, kmx_view V pressed' armed d))" by auto
  then have "w_pressed (kmx_view V pressed' armed d') (- 1) 0 = w_pressed (kmx_view V pressed' armed d) (- 1) 0"
    by (simp add: sp_do_unwired wired'_def)
  then show ?thesis by (simp add: kmx_view_def km_view_def pressed'_def)
qed

section \<open>The wire contract\<close>

text \<open>
  A ghost log of the replies sent and of the disk calls made, and the calls that touch neither the keyboard
  nor the alarm.
\<close>

datatype reply = Reply u8 binmon_err u32 "u8 list" | Refusal binmon_err u32

datatype disk_call = Attach u8 u8 "u8 list" bool | Detach u8 u8

definition binmon_call :: "'v vice_binmon \<Rightarrow> ('v \<Rightarrow> 'v) \<Rightarrow> bool" where
  "binmon_call B g \<longleftrightarrow>
     (\<exists>n ty e rid b. g = monitor_binary_response B n ty e rid b) \<or> (\<exists>e rid. g = monitor_binary_error B e rid) \<or>
     (\<exists>u dr p. g = (\<lambda>v. snd (file_system_attach_disk B u dr p v))) \<or> (\<exists>u dr. g = file_system_detach_disk B u dr)"

definition binmon_laws ::
    "('v, 'a) vice_keyboard \<Rightarrow> 'v vice_binmon \<Rightarrow> ('v \<Rightarrow> int \<Rightarrow> int \<Rightarrow> bool) \<Rightarrow> ('v \<Rightarrow> 'a \<Rightarrow> u64 option) \<Rightarrow>
       ('v \<Rightarrow> reply list) \<Rightarrow> ('v \<Rightarrow> disk_call list) \<Rightarrow> bool" where
  "binmon_laws V B pressed armed replies disk \<longleftrightarrow>
     (\<forall>n ty e rid b v. replies (monitor_binary_response B n ty e rid b v) =
        replies v @ [Reply ty e rid (case b of None \<Rightarrow> [] | Some b \<Rightarrow> take (unat n) b)]) \<and>
     (\<forall>e rid v. replies (monitor_binary_error B e rid v) = replies v @ [Refusal e rid]) \<and>
     (\<forall>u dr p v. replies (snd (file_system_attach_disk B u dr p v)) = replies v \<and>
        disk (snd (file_system_attach_disk B u dr p v)) =
          disk v @ [Attach u dr p (0 \<le> fst (file_system_attach_disk B u dr p v))]) \<and>
     (\<forall>u dr v. replies (file_system_detach_disk B u dr v) = replies v \<and>
        disk (file_system_detach_disk B u dr v) = disk v @ [Detach u dr]) \<and>
     (\<forall>n ty e rid b v. disk (monitor_binary_response B n ty e rid b v) = disk v \<and>
        disk (monitor_binary_error B e rid v) = disk v) \<and>
     (\<forall>g v. keyboard_call V g \<longrightarrow> replies (g v) = replies v \<and> disk (g v) = disk v) \<and>
     (\<forall>g v. binmon_call B g \<longrightarrow> pressed (g v) = pressed v \<and> armed (g v) = armed v \<and>
        maincpu_clk V (g v) = maincpu_clk V v \<and>
        machine_get_cycles_per_frame V (g v) = machine_get_cycles_per_frame V v)"

text \<open>The documented 24 bytes of the status, from the contract's state.\<close>

definition key_byte :: "bool list \<Rightarrow> u8" where
  "key_byte bs = horner_sum of_bool 2 bs"

definition sp_frames_left :: "km_spec \<times> km_world \<Rightarrow> nat" where
  \<comment> \<open>the whole frames until an active tap's timeout, at most 65535; 0 without one\<close>
  "sp_frames_left = (\<lambda>(s, w). case sp_inj s of
     None \<Rightarrow> 0
   | Some i \<Rightarrow>
       if inj_mode i \<noteq> KM_MODE_PRESS_STICKY \<and> 0 < w_cpf w
       then min 65535 ((unat (sp_timeout s) - unat (w_now w)) div unat (of_int (w_cpf w) :: u64)) else 0)"

definition stale_press :: "km_spec \<times> km_world \<Rightarrow> bool" where
  \<comment> \<open>a sticky press made while the timeout of an earlier tap is still ahead\<close>
  "stale_press = (\<lambda>(s, w). case sp_inj s of
     None \<Rightarrow> False
   | Some i \<Rightarrow> inj_mode i = KM_MODE_PRESS_STICKY \<and> w_now w < sp_timeout s)"

definition sp_counters :: "km_spec \<Rightarrow> u8 list" where
  "sp_counters s = (let f = (\<lambda>total sampling reason ks.
       le_bytes 4 (unat (total :: u32)) @ le_bytes 4 (unat (sampling :: u32)) @
       [reason_code reason, of_nat (length (ks :: km_key_t list))])
     in case sp_inj s of
       Some i \<Rightarrow> f (inj_total i) (inj_sampling i) (inj_reason i) (inj_keys i)
     | None \<Rightarrow> (case sp_report s of
         Some r \<Rightarrow> f (rep_total r) (rep_sampling r) (rep_reason r) (rep_keys r)
       | None \<Rightarrow> replicate 10 0))"

definition status_bytes :: "km_spec \<times> km_world \<Rightarrow> u8 list" where
  "status_bytes = (\<lambda>(s, w).
     let down = w_pressed w
     in map (\<lambda>r. key_byte (map (\<lambda>c. down (int r) (int c)) [0..<8])) [0..<8] @
        [key_byte [down km_row_restore_1 km_col_restore_1, down km_row_restore_2 km_col_restore_2,
           down km_row_capslock km_col_capslock, down km_row_4080column km_col_4080column], 0, 0, 0] @
        sp_counters s @ le_bytes 2 (sp_frames_left (s, w)))"

text \<open>
  A status answer: the documented bytes, but that the frames of a stale press are left open (the code
  answers the frames of the earlier tap, \<open>km_press_stale_timeout\<close>).
\<close>

definition status_answer :: "km_spec \<times> km_world \<Rightarrow> u8 list \<Rightarrow> bool" where
  "status_answer sw b \<longleftrightarrow> length b = 24 \<and> take 22 b = take 22 (status_bytes sw) \<and>
     (\<not> stale_press sw \<longrightarrow> b = status_bytes sw)"

text \<open>
  A screen answer: the response to the machine's state, but that in the bitmap modes its last 2048 bytes
  are left open (documented as the bitmap, they are the character set's, \<open>screen_bitmap_payload\<close>).
\<close>

definition screen_answer :: "screen_inputs_t \<Rightarrow> u8 list \<Rightarrow> bool" where
  "screen_answer inp b \<longleftrightarrow> length b = 4072 \<and> take 2024 b = take 2024 (screen_response inp) \<and>
     (\<not> bit (d011 inp) 5 \<longrightarrow> b = screen_response inp)"

lemma screen_answer_response: "screen_answer inp (screen_response inp)"
  by (simp add: screen_answer_def screen_response_def)

lemma le_bytes_zero: "le_bytes n 0 = replicate n 0"
  by (induction n) simp_all

lemma status_le:
  "Keymatrix.put_le32 a = le_bytes 4 (unat a)" "Keymatrix.put_le16 b = le_bytes 2 (unat b)"
  unfolding Keymatrix.put_le32_def Keymatrix.put_le16_def by (rule le_bytes_fields)+

lemma key_byte_row:
  assumes "\<And>c. c < 8 \<Longrightarrow> bit k c = down (int c)"
  shows "of_int (k AND 255) = key_byte (map (\<lambda>c. down (int c)) [0..<8])"
proof (rule bit_word_eqI)
  fix n
  assume "n < LENGTH(8)"
  then have "n < 8" by simp
  then show "bit (of_int (k AND 255) :: u8) n \<longleftrightarrow> bit (key_byte (map (\<lambda>c. down (int c)) [0..<8])) n"
    using matrix_byte [of n k] assms [of n] by (simp add: key_byte_def bit_horner_sum_bit_iff)
qed

lemma frames_left_abs:
  assumes "km_host km = kmx_host V" "\<not> stale_press (km_abs km, kmx_view V pressed armed d)"
  shows "unat (km_frames_left km d) = sp_frames_left (km_abs km, kmx_view V pressed armed d)"
proof -
  have cap: "unat (if 65535 < f then 65535 else ucast f :: u16) = min 65535 (unat f)" for f :: u64
  proof (cases "65535 < f")
    case False
    then have "unat f < 2 ^ 16" by (simp add: word_less_nat_alt)
    then have "unat (ucast f :: u16) = unat f" by (simp add: unsigned_ucast_eq take_bit_nat_eq_self)
    with False show ?thesis by (simp add: word_less_nat_alt)
  qed (simp add: word_less_nat_alt)
  have ahead: "a < t \<Longrightarrow> unat ((t - a) div c) = (unat t - unat a) div unat c" for a t c :: u64
    by (simp add: unat_div unat_sub)
  have past: "\<not> a < t \<Longrightarrow> unat t - unat a = 0" for a t :: u64
    by (simp add: word_less_nat_alt)
  show ?thesis
    using assms(2) past [of "host_now (kmx_host V) d" "timeout_clk km"]
    by (auto simp: km_frames_left_def sp_frames_left_def stale_press_def assms(1) Let_def km_abs_def kmx_view_def
        km_view_def cap ahead simp del: unat_sub_if_size)
qed

lemma custom_byte:
  assumes "km_host km = kmx_host V" "matrix_laws V pressed"
  shows "km_custom_bits km d =
    key_byte [pressed (vice d) km_row_restore_1 km_col_restore_1, pressed (vice d) km_row_restore_2 km_col_restore_2,
      pressed (vice d) km_row_capslock km_col_capslock, pressed (vice d) km_row_4080column km_col_4080column]"
proof -
  have "custom_key_get (km_host km) k d = keyboard_custom_key_get V k (vice d)" for k
    by (simp add: assms(1) kmx_host_def h_custom_key_get_def)
  with assms(2) show ?thesis
    by (simp add: km_custom_bits_def matrix_laws_def Let_def key_byte_def)
qed

lemma get_response_status:
  assumes "matrix_laws V pressed" "km_wf (kmx_host V) km"
  shows "status_answer (km_abs km, kmx_view V pressed armed d) (km_get_response km d)"
proof -
  from assms(2) have km: "km_host km = kmx_host V" "km_n_keys km \<le> length (km_keys km)"
    "last_n_keys (km_last km) \<le> length (last_keys (km_last km))" by (simp_all add: km_wf_def)
  have row: "(of_int ((keyarr V (vice d) (int r) AND 0xff) AND 0xff) :: u8) =
      key_byte (map (\<lambda>c. pressed (vice d) (int r) (int c)) [0..<8])" if "r < 8" for r
    unfolding and.assoc and.idem by (rule key_byte_row) (use assms(1) that in \<open>simp add: matrix_laws_def\<close>)
  have rows: "map (\<lambda>i. of_int (get_keyarr (km_host km) (int i) d AND 0xff)) [0..<8] =
      map (\<lambda>r. key_byte (map (\<lambda>c. pressed (vice d) (int r) (int c)) [0..<8])) [0..<8]"
  proof (rule map_cong [OF refl])
    fix i
    assume "i \<in> set [0..<8]"
    then have "i < 8" by (simp only: set_upt atLeastLessThan_iff)
    from row [OF this] show "of_int (get_keyarr (km_host km) (int i) d AND 0xff) =
        key_byte (map (\<lambda>c. pressed (vice d) (int i) (int c)) [0..<8])"
      by (simp only: km(1) kmx_host_def km_host_t.simps h_get_keyarr_def)
  qed
  have zeros: "le_bytes 4 0 @ le_bytes 4 0 @ [0, 0] = replicate 10 0"
    by (simp add: le_bytes_zero replicate_add [of 4 6, simplified] replicate_add [of 4 2, simplified] eval_nat_numeral)
  have counters: "sp_counters (km_abs km) =
      (if km_active km then Keymatrix.put_le32 (cia1_reads_total km) @ Keymatrix.put_le32 (cia1_reads_sampling km) @
         [reason_code (last_reason km), of_nat (km_n_keys km)]
       else if last_valid (km_last km) then
         Keymatrix.put_le32 (last_reads_total (km_last km)) @ Keymatrix.put_le32 (last_reads_sampling (km_last km)) @
         [reason_code (last_release (km_last km)), of_nat (last_n_keys (km_last km))]
       else Keymatrix.put_le32 0 @ Keymatrix.put_le32 0 @ [0, 0])"
    using km(2,3) zeros by (simp add: sp_counters_def km_abs_def status_le Let_def)
  have down: "w_pressed (kmx_view V pressed armed d) = pressed (vice d)" by (simp add: kmx_view_def km_view_def)
  define front where "front = map (\<lambda>r. key_byte (map (\<lambda>c. pressed (vice d) (int r) (int c)) [0..<8])) [0..<8] @
    [key_byte [pressed (vice d) km_row_restore_1 km_col_restore_1, pressed (vice d) km_row_restore_2 km_col_restore_2,
       pressed (vice d) km_row_capslock km_col_capslock, pressed (vice d) km_row_4080column km_col_4080column], 0, 0, 0] @
    sp_counters (km_abs km)"
  have "length (sp_counters (km_abs km)) = 10" by (simp add: sp_counters_def Let_def split: option.split)
  then have len: "length front = 22" by (simp add: front_def)
  have code: "km_get_response km d = front @ le_bytes 2 (unat (km_frames_left km d))"
    by (simp only: km_get_response_def rows counters custom_byte [OF km(1) assms(1)] status_le(2) Let_def
        front_def append_assoc)
  have doc: "status_bytes (km_abs km, kmx_view V pressed armed d) =
      front @ le_bytes 2 (sp_frames_left (km_abs km, kmx_view V pressed armed d))"
    by (simp only: status_bytes_def prod.case down Let_def front_def append_assoc)
  show ?thesis
    using frames_left_abs [OF km(1), of pressed armed d] len by (auto simp: status_answer_def code doc)
qed

end
