(* ===== verification/Remote.thy ===== *)
theory Remote
  imports Binmon
begin

unbundle bit_operations_syntax

text \<open>
  Remote control over the binary monitor, as a contract: what a session of requests, monitor commands, CIA
  reads and alarms does to the keyboard and which replies it gets, what a DRIVE_ATTACH or SCREEN_GET
  request does, and the proofs that the handlers of \<open>Binmon\<close> implement it on any emulator that behaves as
  documented. The last but one section is such an emulator, for the witnesses.
\<close>

section \<open>Sessions\<close>

text \<open>A session is what the emulator and a remote client do in turn: calls into the keyboard adapter and
  requests that reach the binary monitor.\<close>

datatype session_event = Local km_op | Request binary_command_t

definition session_do ::
    "('v, 'a) vice_keyboard \<Rightarrow> 'v s_provider \<Rightarrow> 'v vice_binmon \<Rightarrow> uninit \<Rightarrow>
       (binary_command_t \<Rightarrow> ('v, 'a) kmx_state \<Rightarrow> ('v, 'a) kmx_state option) \<Rightarrow>
       session_event \<Rightarrow> ('v, 'a) kmx_state \<Rightarrow> ('v, 'a) kmx_state option" where
  "session_do V s_provider B U other e st = (case e of
     Local op \<Rightarrow> mon_do V op st
   | Request c \<Rightarrow> monitor_binary_process_command V s_provider B U other c st)"

lemma session_do_simps [simp]:
  "session_do V s_provider B U other (Local op) st = mon_do V op st"
  "session_do V s_provider B U other (Request c) st = monitor_binary_process_command V s_provider B U other c st"
  by (simp_all add: session_do_def)

definition kb_serves ::
    "(int \<Rightarrow> int \<Rightarrow> bool) \<Rightarrow> binary_command_t \<Rightarrow> km_spec \<times> km_world \<Rightarrow> reply \<Rightarrow> km_spec \<times> km_world \<Rightarrow> bool" where
  \<comment> \<open>the reply to a keyboard request, and the keyboard contract's state after it\<close>
  "kb_serves wired c sw r sw' \<longleftrightarrow>
     (let ack = (\<lambda>ok op. if ok then r = Reply (bc_type c) e_MON_ERR_OK (bc_request_id c) [] \<and> sw' = sp_do wired op sw
                         else r = Refusal e_MON_ERR_CMD_INVALID_LENGTH (bc_request_id c) \<and> sw' = sw)
      in if bc_type c = 0x74 then ack (bin_set_ok (bc_body c) (bc_length c)) (Bin_Set (bc_body c) (bc_length c))
         else if bc_type c = 0x75 then ack (bin_tap_ok (bc_body c) (bc_length c)) (Bin_Tap (bc_body c) (bc_length c))
         else (\<exists>b. r = Reply 0x76 e_MON_ERR_OK (bc_request_id c) b \<and> status_answer sw b) \<and> sw' = sw)"

definition command_ok :: "binary_command_t \<Rightarrow> bool" where
  "command_ok c \<longleftrightarrow> unat (bc_length c) \<le> length (bc_body c)"

fun session_ok :: "bool \<Rightarrow> session_event list \<Rightarrow> bool" where
  \<comment> \<open>requests of the five opcodes, and no alarm callback before something initialised the core\<close>
  "session_ok b [] = True"
| "session_ok b (Local op # es) = (op_ok op \<and> (op = Alarm \<longrightarrow> b) \<and> session_ok (b \<or> initialises op) es)"
| "session_ok b (Request c # es) = (command_ok c \<and> bc_type c \<in> {0x74, 0x75, 0x76, 0x77, 0x78} \<and>
     session_ok (b \<or> bc_type c \<in> {0x74, 0x75, 0x76}) es)"

definition keyboard_event :: "session_event \<Rightarrow> bool" where
  "keyboard_event e \<longleftrightarrow> (case e of Local op \<Rightarrow> True | Request c \<Rightarrow> bc_type c \<in> {0x74, 0x75, 0x76})"

section \<open>Drive requests\<close>

definition drive_served :: "binary_command_t \<Rightarrow> reply \<Rightarrow> disk_call list \<Rightarrow> bool" where
  \<comment> \<open>the reply to a DRIVE_ATTACH body and the disk calls it makes\<close>
  "drive_served c r calls \<longleftrightarrow>
     (let b = bc_body c; len = unat (bc_length c); rid = bc_request_id c;
          ok = Reply 0x78 e_MON_ERR_OK rid []; path = take (unat (b ! 2)) (drop 3 b)
      in if len < 3 \<or> len < 3 + unat (b ! 2) then r = Refusal e_MON_ERR_CMD_INVALID_LENGTH rid \<and> calls = []
         else if b ! 0 < 8 \<or> 11 < b ! 0 \<or> 1 < b ! 1 then r = Refusal e_MON_ERR_INVALID_PARAMETER rid \<and> calls = []
         else if path = [] then r = ok \<and> calls = [Detach (b ! 0) (b ! 1)]
         else r = ok \<and> calls = [Attach (b ! 0) (b ! 1) (cstr path) True] \<or>
           r = Refusal e_MON_ERR_CMD_FAILURE rid \<and> calls = [Attach (b ! 0) (b ! 1) (cstr path) False])"

definition screen_served :: "'v vice_c64 \<Rightarrow> 'v s_provider \<Rightarrow> binary_command_t \<Rightarrow> reply \<Rightarrow> bool" where
  \<comment> \<open>the reply to a SCREEN_GET: the response of some state of the C64, or none without a provider\<close>
  "screen_served C s_provider c r \<longleftrightarrow>
     (if s_provider = None then r = Refusal e_MON_ERR_CMD_FAILURE (bc_request_id c)
      else \<exists>v b. r = Reply 0x77 e_MON_ERR_OK (bc_request_id c) b \<and> screen_answer (c64_inputs C v) b)"

text \<open>The contract of a session: the keyboard contract's state before, the replies, the disk calls, and its
  state after.\<close>

inductive remote_run ::
    "(int \<Rightarrow> int \<Rightarrow> bool) \<Rightarrow> 'v vice_c64 \<Rightarrow> 'v s_provider \<Rightarrow> session_event list \<Rightarrow> km_spec \<times> km_world \<Rightarrow>
       reply list \<Rightarrow> disk_call list \<Rightarrow> km_spec \<times> km_world \<Rightarrow> bool"
  for wired :: "int \<Rightarrow> int \<Rightarrow> bool" and C :: "'v vice_c64" and s_provider :: "'v s_provider" where
  done_run: "remote_run wired C s_provider [] sw [] [] sw"
| local_run: "remote_run wired C s_provider es (sp_do wired op sw) rs ds sw' \<Longrightarrow>
    remote_run wired C s_provider (Local op # es) sw rs ds sw'"
| keyboard_run: "bc_type c \<in> {0x74, 0x75, 0x76} \<Longrightarrow> kb_serves wired c sw r sw1 \<Longrightarrow>
    remote_run wired C s_provider es sw1 rs ds sw' \<Longrightarrow>
    remote_run wired C s_provider (Request c # es) sw (r # rs) ds sw'"
| screen_run: "bc_type c = 0x77 \<Longrightarrow> screen_served C s_provider c r \<Longrightarrow>
    remote_run wired C s_provider es sw rs ds sw' \<Longrightarrow>
    remote_run wired C s_provider (Request c # es) sw (r # rs) ds sw'"
| drive_run: "bc_type c = 0x78 \<Longrightarrow> drive_served c r calls \<Longrightarrow>
    remote_run wired C s_provider es sw rs ds sw' \<Longrightarrow>
    remote_run wired C s_provider (Request c # es) sw (r # rs) (calls @ ds) sw'"

inductive_cases remote_run_NilE: "remote_run wired C s_provider [] sw rs ds sw'"
inductive_cases remote_run_LocalE: "remote_run wired C s_provider (Local op # es) sw rs ds sw'"
inductive_cases remote_run_RequestE: "remote_run wired C s_provider (Request c # es) sw rs ds sw'"

lemmas remote_run_elims = remote_run_NilE remote_run_LocalE remote_run_RequestE

lemma keyboard_session:
  "list_all keyboard_event es \<Longrightarrow>
     for_each (session_do V s_provider B U other) es = for_each (session_do V None B U other) es"
proof (induction es)
  case (Cons e es)
  then have "session_do V s_provider B U other e st = session_do V None B U other e st" for st
    by (cases e) (auto simp: keyboard_event_def monitor_binary_process_command_def)
  moreover from Cons have "for_each (session_do V s_provider B U other) es = for_each (session_do V None B U other) es"
    by simp
  ultimately show ?case by (intro ext) simp
qed (intro ext, simp)

text \<open>One reply for each request.\<close>

lemma remote_run_length:
  "remote_run wired C s_provider es sw rs ds sw' \<Longrightarrow>
     length rs = length (filter (\<lambda>e. case e of Local _ \<Rightarrow> False | Request _ \<Rightarrow> True) es)"
  by (induction rule: remote_run.induct) simp_all

lemma binmon_calls [simp]:
  "binmon_call B (monitor_binary_response B n ty e rid b)" "binmon_call B (monitor_binary_error B e rid)"
  "binmon_call B (\<lambda>v. snd (file_system_attach_disk B u dr p v))" "binmon_call B (file_system_detach_disk B u dr)"
  unfolding binmon_call_def by blast+

text \<open>The interface of the handlers to VICE's reply and disk functions.\<close>

locale binmon_host =
  fixes V :: "('v, 'a) vice_keyboard" and B :: "'v vice_binmon"
    and pressed :: "'v \<Rightarrow> int \<Rightarrow> int \<Rightarrow> bool" and armed :: "'v \<Rightarrow> 'a \<Rightarrow> u64 option"
    and replies :: "'v \<Rightarrow> reply list" and disk :: "'v \<Rightarrow> disk_call list"
  assumes binmon: "binmon_laws V B pressed armed replies disk"
begin

lemma binmon_view:
  assumes "binmon_call B f"
  shows "kmx_view V pressed armed (d\<lparr>vice := f (vice d)\<rparr>) = kmx_view V pressed armed d"
proof -
  have "pressed (f v) = pressed v" "armed (f v) = armed v" "maincpu_clk V (f v) = maincpu_clk V v"
    "machine_get_cycles_per_frame V (f v) = machine_get_cycles_per_frame V v" for v
    using assms binmon unfolding binmon_laws_def by blast+
  then show ?thesis
    by (simp add: kmx_view_def km_view_def kmx_host_def h_now_def h_cycles_per_frame_def dev_alarm_def
        split: option.split)
qed

lemma sent: "replies (monitor_binary_response B n ty e rid b v) =
      replies v @ [Reply ty e rid (case b of None \<Rightarrow> [] | Some b \<Rightarrow> take (unat n) b)]"
    "replies (monitor_binary_error B e rid v) = replies v @ [Refusal e rid]"
    "disk (monitor_binary_response B n ty e rid b v) = disk v" "disk (monitor_binary_error B e rid v) = disk v"
  using binmon by (simp_all add: binmon_laws_def)

lemma drive_attach_run_served:
  assumes p: "length p \<le> 255"
  shows "\<exists>calls r. disk (drive_attach_run B rid (da_request u dr p) v) = disk v @ calls \<and>
    replies (drive_attach_run B rid (da_request u dr p) v) = replies v @ [r] \<and>
    (if p = [] then r = Reply 0x78 e_MON_ERR_OK rid [] \<and> calls = [Detach u dr]
     else r = Reply 0x78 e_MON_ERR_OK rid [] \<and> calls = [Attach u dr (cstr p) True] \<or>
       r = Refusal e_MON_ERR_CMD_FAILURE rid \<and> calls = [Attach u dr (cstr p) False])"
proof -
  have calls: "replies (file_system_detach_disk B u dr v) = replies v"
    "disk (file_system_detach_disk B u dr v) = disk v @ [Detach u dr]"
    "replies (snd (file_system_attach_disk B u dr q v)) = replies v"
    "disk (snd (file_system_attach_disk B u dr q v)) =
       disk v @ [Attach u dr q (0 \<le> fst (file_system_attach_disk B u dr q v))]" for u dr q v
    using binmon by (simp_all add: binmon_laws_def)
  obtain k where "256 - length p = Suc k" using p by (cases "256 - length p") auto
  then have path: "cstr (p @ replicate (256 - length p) 0) = cstr p" by (simp add: cstr_append_zero)
  show ?thesis
    by (cases "fst (file_system_attach_disk B u dr (cstr p) v) < 0")
      (auto simp: drive_attach_run_def da_request_def path sent calls Let_def case_prod_unfold)
qed

lemma drive_attach_run_view:
  "kmx_view V pressed armed (d\<lparr>vice := drive_attach_run B rid req (vice d)\<rparr>) = kmx_view V pressed armed d"
proof -
  have two: "kmx_view V pressed armed (d\<lparr>vice := f (g (vice d))\<rparr>) = kmx_view V pressed armed d"
    if "binmon_call B f" "binmon_call B g" for f g
    using binmon_view [OF that(1), of "d\<lparr>vice := g (vice d)\<rparr>"] binmon_view [OF that(2), of d] by simp
  have attach: "binmon_call B f \<Longrightarrow>
      kmx_view V pressed armed (d\<lparr>vice := f (snd (file_system_attach_disk B u dr p (vice d)))\<rparr>) =
        kmx_view V pressed armed d" for f u dr p
    by (rule two) simp_all
  show ?thesis by (simp add: drive_attach_run_def Let_def case_prod_unfold two attach)
qed

lemma drive_request_step:
  assumes c: "command_ok c" "bc_type c = 0x78"
  shows "\<exists>d' r calls. monitor_binary_process_command V s_provider B U other c (s, d) = Some (s, d') \<and>
    replies (vice d') = replies (vice d) @ [r] \<and> disk (vice d') = disk (vice d) @ calls \<and> drive_served c r calls \<and>
    kmx_view V pressed armed d' = kmx_view V pressed armed d"
proof -
  let ?b = "bc_body c"
  let ?p = "take (unat (?b ! 2)) (drop 3 ?b)"
  have p: "length ?p \<le> 255" using u8_less [of "?b ! 2"] by simp
  have len: "unat (bc_length c) \<le> length ?b" using c(1) by (simp add: command_ok_def)
  note dec = da_decode_eq [OF len, of "stack_request U"]
  from drive_attach_run_served [OF p, of "bc_request_id c" "?b ! 0" "?b ! 1" "vice d"]
  obtain calls r where run:
    "disk (drive_attach_run B (bc_request_id c) (da_request (?b ! 0) (?b ! 1) ?p) (vice d)) = disk (vice d) @ calls"
    "replies (drive_attach_run B (bc_request_id c) (da_request (?b ! 0) (?b ! 1) ?p) (vice d)) = replies (vice d) @ [r]"
    "if ?p = [] then r = Reply 0x78 e_MON_ERR_OK (bc_request_id c) [] \<and> calls = [Detach (?b ! 0) (?b ! 1)]
     else r = Reply 0x78 e_MON_ERR_OK (bc_request_id c) [] \<and> calls = [Attach (?b ! 0) (?b ! 1) (cstr ?p) True] \<or>
       r = Refusal e_MON_ERR_CMD_FAILURE (bc_request_id c) \<and> calls = [Attach (?b ! 0) (?b ! 1) (cstr ?p) False]"
    by blast
  have step: "monitor_binary_process_command V s_provider B U other c (s, d) =
      monitor_binary_process_drive_attach B U c (s, d)"
    by (simp add: monitor_binary_process_command_def c(2))
  consider (short) "unat (bc_length c) < 3 \<or> unat (bc_length c) < 3 + unat (?b ! 2)"
    | (param) "\<not> (unat (bc_length c) < 3 \<or> unat (bc_length c) < 3 + unat (?b ! 2))"
        "?b ! 0 < 8 \<or> 11 < ?b ! 0 \<or> 1 < ?b ! 1"
    | (ok) "\<not> (unat (bc_length c) < 3 \<or> unat (bc_length c) < 3 + unat (?b ! 2))"
        "\<not> (?b ! 0 < 8 \<or> 11 < ?b ! 0 \<or> 1 < ?b ! 1)" by blast
  then show ?thesis
  proof cases
    case short
    then show ?thesis
      by (simp add: step monitor_binary_process_drive_attach_def dec on_vice_def sent binmon_view drive_served_def Let_def)
  next
    case param
    then show ?thesis
      by (simp add: step monitor_binary_process_drive_attach_def dec on_vice_def sent binmon_view drive_served_def Let_def)
  next
    case ok
    then have "monitor_binary_process_command V s_provider B U other c (s, d) =
        Some (s, d\<lparr>vice := drive_attach_run B (bc_request_id c) (da_request (?b ! 0) (?b ! 1) ?p) (vice d)\<rparr>)"
      by (simp add: step monitor_binary_process_drive_attach_def dec on_vice_def)
    moreover have "drive_served c r calls" using ok run(3) by (simp add: drive_served_def Let_def)
    ultimately show ?thesis using run(1,2) drive_attach_run_view by fastforce
  qed
qed

end

section \<open>Keyboard and screen requests\<close>

text \<open>A call of the binary monitor into the keyboard adapter: the operation of the contract, and a result
  that says whether the body was well-formed.\<close>

definition kb_after ::
    "('v, 'a) vice_keyboard \<Rightarrow> (int \<Rightarrow> int \<Rightarrow> bool) \<Rightarrow> ('v \<Rightarrow> int \<Rightarrow> int \<Rightarrow> bool) \<Rightarrow> ('v \<Rightarrow> 'a \<Rightarrow> u64 option) \<Rightarrow> km_op \<Rightarrow>
       ('v, 'a) kmx_state \<Rightarrow> ('v, 'a) kmx_state \<Rightarrow> bool" where
  "kb_after V wired pressed armed op = (\<lambda>(s, d) (s', d').
     kmx_wf V s' \<and> kmx_inited s' \<and>
     sp_do wired op (kmx_abs V s, kmx_view V pressed armed d) = (kmx_abs V s', kmx_view V pressed armed d'))"

lemma kmx_ensure_abs [simp]: "kmx_abs V (kmx_ensure V s) = kmx_abs V s" "kmx_wf V (kmx_ensure V s) = kmx_wf V s"
  by (simp_all add: kmx_abs_def kmx_wf_def)

text \<open>The emulator as a remote client needs it: its keyboard and alarms besides.\<close>

locale remote_host = binmon_host V B pressed armed replies disk
  for V :: "('v, 'a) vice_keyboard" and B :: "'v vice_binmon"
    and pressed :: "'v \<Rightarrow> int \<Rightarrow> int \<Rightarrow> bool" and armed :: "'v \<Rightarrow> 'a \<Rightarrow> u64 option"
    and replies :: "'v \<Rightarrow> reply list" and disk :: "'v \<Rightarrow> disk_call list" +
  fixes wired :: "int \<Rightarrow> int \<Rightarrow> bool" and U :: uninit
  assumes keyboard: "vice_keyboard_laws V wired pressed armed"
    and matrix: "matrix_laws V pressed"
    and stack: "length (stack_bytes U n) = n"
begin

lemma mon_do_quiet:
  assumes "kmx_wf V s" "op_ok op" "op = Alarm \<longrightarrow> kmx_inited s" "mon_do V op (s, d) = Some (s', d')"
  shows "replies (vice d') = replies (vice d)" "disk (vice d') = disk (vice d)"
proof -
  have kept: "replies (g v) = replies v \<and> disk (g v) = disk v" if "keyboard_call V g" for g v
    using binmon that unfolding binmon_laws_def by blast
  have "(replies (vice d') = replies (vice d)) = (replies (vice d) = replies (vice d))"
    by (rule mon_do_keeps [OF keyboard assms(1-3) _ assms(4)]) (use kept in simp)
  then show "replies (vice d') = replies (vice d)" by simp
  have "(disk (vice d') = disk (vice d)) = (disk (vice d) = disk (vice d))"
    by (rule mon_do_keeps [OF keyboard assms(1-3) _ assms(4)]) (use kept in simp)
  then show "disk (vice d') = disk (vice d)" by simp
qed

lemma kb_served:
  assumes wf: "kmx_wf V s" and len: "unat len \<le> length body"
  shows "\<exists>s' d'. mon_keymatrix_binmon_set V body len (s, d) = Some (if bin_set_ok body len then 0 else - 1, s', d') \<and>
      kb_after V wired pressed armed (Bin_Set body len) (s, d) (s', d') \<and>
      replies (vice d') = replies (vice d) \<and> disk (vice d') = disk (vice d)"
    and "\<exists>s' d'. mon_keymatrix_binmon_tap V body len (s, d) = Some (if bin_tap_ok body len then 0 else - 1, s', d') \<and>
      kb_after V wired pressed armed (Bin_Tap body len) (s, d) (s', d') \<and>
      replies (vice d') = replies (vice d) \<and> disk (vice d') = disk (vice d)"
proof -
  have served: "\<exists>s' d'. x = Some (rr, s', d') \<and> kb_after V wired pressed armed op (s, d) (s', d') \<and>
      replies (vice d') = replies (vice d) \<and> disk (vice d') = disk (vice d)"
    if op: "op = Bin_Set body len \<or> op = Bin_Tap body len" "mon_do V op (s, d) = map_option snd x"
      "\<And>r st. x = Some (r, st) \<Longrightarrow> r = rr" for op x rr
  proof -
    have ok: "op_ok op" "op = Alarm \<longrightarrow> kmx_inited s" "initialises op" using op(1) len by (auto simp: op_ok_def)
    obtain s' d' where step: "mon_do V op (s, d) = Some (s', d')" "kmx_wf V s'" "kmx_inited s'"
      "sp_do wired op (kmx_abs V s, kmx_view V pressed armed d) = (kmx_abs V s', kmx_view V pressed armed d')"
      using mon_do_step [OF keyboard wf ok(1,2), of d] ok(3) by auto
    note quiet = mon_do_quiet [OF wf ok(1,2) step(1)]
    from step(1) op(2) obtain r where "x = Some (r, s', d')" by (cases x) auto
    with op(3) step(2-) quiet show ?thesis by (auto simp: kb_after_def)
  qed
  note res = binmon_results [OF len, of "(kmx (kmx_ensure V s), d)"]
  show "\<exists>s' d'. mon_keymatrix_binmon_set V body len (s, d) = Some (if bin_set_ok body len then 0 else - 1, s', d') \<and>
      kb_after V wired pressed armed (Bin_Set body len) (s, d) (s', d') \<and>
      replies (vice d') = replies (vice d) \<and> disk (vice d') = disk (vice d)"
    by (rule served) (auto simp: mon_do_def mon_keymatrix_binmon_set_def Let_def dest: res(1) split: bind_splits)
  show "\<exists>s' d'. mon_keymatrix_binmon_tap V body len (s, d) = Some (if bin_tap_ok body len then 0 else - 1, s', d') \<and>
      kb_after V wired pressed armed (Bin_Tap body len) (s, d) (s', d') \<and>
      replies (vice d') = replies (vice d) \<and> disk (vice d') = disk (vice d)"
    by (rule served) (auto simp: mon_do_def mon_keymatrix_binmon_tap_def Let_def dest: res(2) split: bind_splits)
qed

lemma get_served:
  assumes "kmx_wf V s" "length buf = 24"
  shows "\<exists>b. mon_keymatrix_binmon_get V (Some buf) (Some 24) (s, d) = Some ((0, Some b, Some 24), kmx_ensure V s, d) \<and>
    status_answer (kmx_abs V s, kmx_view V pressed armed d) b"
proof -
  let ?km = "kmx (kmx_ensure V s)"
  have "km_wf (kmx_host V) ?km" using assms(1) by (simp add: kmx_wf_def)
  note r = get_response_status [OF matrix this, of armed d]
  have "aput buf 0 (km_get_response ?km d) = Some (km_get_response ?km d)"
    using assms(2) by (simp add: aput_def length_get_response)
  with r show ?thesis
    by (simp add: mon_keymatrix_binmon_get_def km_core_binmon_get_def Let_def kmx_abs_def)
qed

lemma kb_request_step:
  assumes wf: "kmx_wf V s" and c: "command_ok c" "bc_type c \<in> {0x74, 0x75, 0x76}"
  shows "\<exists>s' d' r. monitor_binary_process_command V s_provider B U other c (s, d) = Some (s', d') \<and>
    kmx_wf V s' \<and> kmx_inited s' \<and> disk (vice d') = disk (vice d) \<and> replies (vice d') = replies (vice d) @ [r] \<and>
    kb_serves wired c (kmx_abs V s, kmx_view V pressed armed d) r (kmx_abs V s', kmx_view V pressed armed d')"
proof -
  have len: "unat (bc_length c) \<le> length (bc_body c)" using c(1) by (simp add: command_ok_def)
  consider "bc_type c = 0x74" | "bc_type c = 0x75" | "bc_type c = 0x76" using c(2) by auto
  then show ?thesis
  proof cases
    case 1
    obtain s1 d1 where r: "mon_keymatrix_binmon_set V (bc_body c) (bc_length c) (s, d) =
        Some (if bin_set_ok (bc_body c) (bc_length c) then 0 else - 1, s1, d1)"
      "kb_after V wired pressed armed (Bin_Set (bc_body c) (bc_length c)) (s, d) (s1, d1)"
      "replies (vice d1) = replies (vice d)" "disk (vice d1) = disk (vice d)"
      using kb_served(1) [OF wf len] by blast
    then show ?thesis
      by (auto simp: monitor_binary_process_command_def monitor_binary_process_keymatrix_set_def 1 on_vice_def binmon_view sent
          kb_after_def kb_serves_def sp_do_def)
  next
    case 2
    obtain s1 d1 where r: "mon_keymatrix_binmon_tap V (bc_body c) (bc_length c) (s, d) =
        Some (if bin_tap_ok (bc_body c) (bc_length c) then 0 else - 1, s1, d1)"
      "kb_after V wired pressed armed (Bin_Tap (bc_body c) (bc_length c)) (s, d) (s1, d1)"
      "replies (vice d1) = replies (vice d)" "disk (vice d1) = disk (vice d)"
      using kb_served(2) [OF wf len] by blast
    then show ?thesis
      by (auto simp: monitor_binary_process_command_def monitor_binary_process_keymatrix_tap_def 2 on_vice_def binmon_view sent
          kb_after_def kb_serves_def sp_do_def)
  next
    case 3
    obtain b where b: "mon_keymatrix_binmon_get V (Some (stack_bytes U 24)) (Some 24) (s, d) =
        Some ((0, Some b, Some 24), kmx_ensure V s, d)" "status_answer (kmx_abs V s, kmx_view V pressed armed d) b"
      using get_served [OF wf stack] by blast
    then have "length b = 24" by (simp add: status_answer_def)
    with b show ?thesis
      by (simp add: monitor_binary_process_command_def monitor_binary_process_keymatrix_get_def 3 on_vice_def binmon_view sent
          stack kb_serves_def wf)
  qed
qed

lemma screen_request_step:
  assumes c: "bc_type c = 0x77"
  shows "\<exists>d'. monitor_binary_process_command V None B U other c (s, d) = Some (s, d') \<and>
      replies (vice d') = replies (vice d) @ [Refusal e_MON_ERR_CMD_FAILURE (bc_request_id c)] \<and>
      disk (vice d') = disk (vice d) \<and> kmx_view V pressed armed d' = kmx_view V pressed armed d"
    and "\<exists>d'. monitor_binary_process_command V (c64screen_init C) B U other c (s, d) = Some (s, d') \<and>
      replies (vice d') = replies (vice d) @
        [Reply 0x77 e_MON_ERR_OK (bc_request_id c) (screen_response (c64_inputs C (vice d)))] \<and>
      disk (vice d') = disk (vice d) \<and> kmx_view V pressed armed d' = kmx_view V pressed armed d"
proof -
  have step: "monitor_binary_process_command V sp B U other c (s, d) =
      monitor_binary_process_screen_get sp B U c (s, d)" for sp
    by (simp add: monitor_binary_process_command_def c)
  show "\<exists>d'. monitor_binary_process_command V None B U other c (s, d) = Some (s, d') \<and>
      replies (vice d') = replies (vice d) @ [Refusal e_MON_ERR_CMD_FAILURE (bc_request_id c)] \<and>
      disk (vice d') = disk (vice d) \<and> kmx_view V pressed armed d' = kmx_view V pressed armed d"
    by (simp add: step monitor_binary_process_screen_get_def mon_screen_binmon_get_def screen_sizes on_vice_def sent binmon_view)
  have "mon_screen_binmon_get (Some (c64screen_get_state C)) (vice d) (Some (stack_bytes U 4072)) (Some 4072) =
      Some (0, Some (screen_response (c64_inputs C (vice d))), Some 4072)"
    by (subst c64.binmon_get_served) (simp_all add: stack)
  moreover have "length (screen_response (c64_inputs C (vice d))) = 4072" by (rule c64.size)
  ultimately show "\<exists>d'. monitor_binary_process_command V (c64screen_init C) B U other c (s, d) = Some (s, d') \<and>
      replies (vice d') = replies (vice d) @
        [Reply 0x77 e_MON_ERR_OK (bc_request_id c) (screen_response (c64_inputs C (vice d)))] \<and>
      disk (vice d') = disk (vice d) \<and> kmx_view V pressed armed d' = kmx_view V pressed armed d"
    by (simp add: step monitor_binary_process_screen_get_def c64screen_init_def mon_screen_register_provider_def
        on_vice_def sent binmon_view)
qed

lemma request_step:
  assumes "kmx_wf V s" "command_ok c" "bc_type c \<in> {0x74, 0x75, 0x76, 0x77, 0x78}"
    "s_provider = None \<or> s_provider = c64screen_init C"
    and rest: "\<And>s' d'. kmx_wf V s' \<Longrightarrow> kmx_inited s' = (kmx_inited s \<or> bc_type c \<in> {0x74, 0x75, 0x76}) \<Longrightarrow> R (s', d')"
  shows "\<exists>s' d' r calls. monitor_binary_process_command V s_provider B U other c (s, d) = Some (s', d') \<and> R (s', d') \<and>
    replies (vice d') = replies (vice d) @ [r] \<and> disk (vice d') = disk (vice d) @ calls \<and>
    (\<forall>es rs ds sw'. remote_run wired C s_provider es (kmx_abs V s', kmx_view V pressed armed d') rs ds sw' \<longrightarrow>
       remote_run wired C s_provider (Request c # es) (kmx_abs V s, kmx_view V pressed armed d) (r # rs) (calls @ ds) sw')"
proof -
  consider "bc_type c \<in> {0x74, 0x75, 0x76}" | "bc_type c = 0x77" | "bc_type c = 0x78" using assms(3) by blast
  then show ?thesis
  proof cases
    case 1
    from kb_request_step [OF assms(1,2) this, of s_provider other d] obtain s' d' r where step:
      "monitor_binary_process_command V s_provider B U other c (s, d) = Some (s', d')" "kmx_wf V s'" "kmx_inited s'"
      "disk (vice d') = disk (vice d)" "replies (vice d') = replies (vice d) @ [r]"
      "kb_serves wired c (kmx_abs V s, kmx_view V pressed armed d) r (kmx_abs V s', kmx_view V pressed armed d')" by blast
    with rest [OF step(2), of d'] 1 show ?thesis
      by (intro exI [of _ s'] exI [of _ d'] exI [of _ r] exI [of _ "[]"]) (auto intro: keyboard_run)
  next
    case 2
    have "\<exists>d' r. monitor_binary_process_command V s_provider B U other c (s, d) = Some (s, d') \<and>
      replies (vice d') = replies (vice d) @ [r] \<and> screen_served C s_provider c r \<and> disk (vice d') = disk (vice d) \<and>
      kmx_view V pressed armed d' = kmx_view V pressed armed d"
      using assms(4)
    proof
      assume "s_provider = None"
      with screen_request_step(1) [OF 2, where other = other and s = s and d = d] show ?thesis
        by (auto simp: screen_served_def)
    next
      assume "s_provider = c64screen_init C"
      with screen_request_step(2) [OF 2, where other = other and s = s and d = d and C = C] show ?thesis
        using screen_answer_response [of "c64_inputs C (vice d)"]
        by (auto simp: screen_served_def c64screen_init_def mon_screen_register_provider_def)
    qed
    then obtain d' r where step: "monitor_binary_process_command V s_provider B U other c (s, d) = Some (s, d')"
      "replies (vice d') = replies (vice d) @ [r]" "screen_served C s_provider c r" "disk (vice d') = disk (vice d)"
      "kmx_view V pressed armed d' = kmx_view V pressed armed d" by blast
    with rest [OF assms(1), of d'] 2 show ?thesis
      by (intro exI [of _ s] exI [of _ d'] exI [of _ r] exI [of _ "[]"]) (auto intro: screen_run)
  next
    case 3
    from drive_request_step [OF assms(2) 3, of s_provider U other s d] obtain d' r calls where step:
      "monitor_binary_process_command V s_provider B U other c (s, d) = Some (s, d')"
      "replies (vice d') = replies (vice d) @ [r]" "disk (vice d') = disk (vice d) @ calls" "drive_served c r calls"
      "kmx_view V pressed armed d' = kmx_view V pressed armed d" by blast
    with rest [OF assms(1), of d'] 3 show ?thesis
      by (intro exI [of _ s] exI [of _ d'] exI [of _ r] exI [of _ calls]) (auto intro: drive_run)
  qed
qed

lemma session_run:
  assumes "s_provider = None \<or> s_provider = c64screen_init C"
  shows "kmx_wf V s \<Longrightarrow> session_ok (kmx_inited s) es \<Longrightarrow>
    \<exists>s' d' rs ds. for_each (session_do V s_provider B U other) es (s, d) = Some (s', d') \<and>
      replies (vice d') = replies (vice d) @ rs \<and> disk (vice d') = disk (vice d) @ ds \<and>
      remote_run wired C s_provider es (kmx_abs V s, kmx_view V pressed armed d) rs ds
        (kmx_abs V s', kmx_view V pressed armed d')"
proof (induction es arbitrary: s d)
  case Nil
  then show ?case by (auto intro: done_run)
next
  case (Cons e es)
  show ?case
  proof (cases e)
    case (Local op)
    with Cons.prems have ok: "op_ok op" "op = Alarm \<longrightarrow> kmx_inited s" "session_ok (kmx_inited s \<or> initialises op) es"
      by auto
    obtain s1 d1 where step: "mon_do V op (s, d) = Some (s1, d1)" "kmx_wf V s1"
      "kmx_inited s1 = (kmx_inited s \<or> initialises op)"
      "sp_do wired op (kmx_abs V s, kmx_view V pressed armed d) = (kmx_abs V s1, kmx_view V pressed armed d1)"
      using mon_do_step [OF keyboard Cons.prems(1) ok(1,2), of d] by blast
    note quiet = mon_do_quiet [OF Cons.prems(1) ok(1,2) step(1)]
    from Cons.IH [OF step(2), of d1] ok(3) step(3) obtain s' d' rs ds where
      "for_each (session_do V s_provider B U other) es (s1, d1) = Some (s', d')"
      "replies (vice d') = replies (vice d1) @ rs" "disk (vice d') = disk (vice d1) @ ds"
      "remote_run wired C s_provider es (kmx_abs V s1, kmx_view V pressed armed d1) rs ds
        (kmx_abs V s', kmx_view V pressed armed d')" by auto
    with step(1,4) quiet Local show ?thesis
      by (intro exI [of _ s'] exI [of _ d'] exI [of _ rs] exI [of _ ds]) (simp add: local_run)
  next
    case (Request c)
    with Cons.prems have c: "command_ok c" "bc_type c \<in> {0x74, 0x75, 0x76, 0x77, 0x78}"
      "session_ok (kmx_inited s \<or> bc_type c \<in> {0x74, 0x75, 0x76}) es" by simp_all
    obtain s1 d1 r calls where step: "monitor_binary_process_command V s_provider B U other c (s, d) = Some (s1, d1)"
      "kmx_wf V s1 \<and> session_ok (kmx_inited s1) es" "replies (vice d1) = replies (vice d) @ [r]"
      "disk (vice d1) = disk (vice d) @ calls"
      "\<And>es rs ds sw'. remote_run wired C s_provider es (kmx_abs V s1, kmx_view V pressed armed d1) rs ds sw' \<Longrightarrow>
        remote_run wired C s_provider (Request c # es) (kmx_abs V s, kmx_view V pressed armed d) (r # rs) (calls @ ds) sw'"
      using request_step [OF Cons.prems(1) c(1,2) assms, of "\<lambda>(s', d'). kmx_wf V s' \<and> session_ok (kmx_inited s') es" other d]
        c(3) by auto
    from Cons.IH [of s1 d1] step(2) obtain s' d' rs ds where
      "for_each (session_do V s_provider B U other) es (s1, d1) = Some (s', d')"
      "replies (vice d') = replies (vice d1) @ rs" "disk (vice d') = disk (vice d1) @ ds"
      "remote_run wired C s_provider es (kmx_abs V s1, kmx_view V pressed armed d1) rs ds
        (kmx_abs V s', kmx_view V pressed armed d')" by auto
    with step(1,3-5) Request show ?thesis
      by (intro exI [of _ s'] exI [of _ d'] exI [of _ "r # rs"] exI [of _ "calls @ ds"]) simp
  qed
qed

lemma keyboard_session_run:
  assumes "kmx_wf V s" "session_ok (kmx_inited s) es" "list_all keyboard_event es"
  shows "\<exists>s' d' rs ds. for_each (session_do V s_provider B U other) es (s, d) = Some (s', d') \<and>
    replies (vice d') = replies (vice d) @ rs \<and>
    remote_run wired (undefined :: 'v vice_c64) None es (kmx_abs V s, kmx_view V pressed armed d) rs ds
      (kmx_abs V s', kmx_view V pressed armed d')"
  using session_run [OF disjI1 [OF refl] assms(1,2), where C = undefined and other = other and d = d]
    keyboard_session [OF assms(3), of V s_provider B U other] by auto

end

section \<open>An emulator with a reply log\<close>

text \<open>The emulator of the keyboard adapter's witnesses, with a log of the replies and of the disk calls; it
  accepts the image paths that start with \<open>a\<close>.\<close>

record remote_mock =
  rm_keyboard :: km_mock_t
  rm_replies :: "reply list"
  rm_disk :: "disk_call list"

definition on_keyboard :: "(km_mock_t \<Rightarrow> km_mock_t) \<Rightarrow> remote_mock \<Rightarrow> remote_mock" where
  "on_keyboard f v = v\<lparr>rm_keyboard := f (rm_keyboard v)\<rparr>"

definition remote_vice :: "(remote_mock, unit) vice_keyboard" where
  "remote_vice =
     \<lparr>keyboard_set_keyarr_any = (\<lambda>r c x. on_keyboard (km_h_set r c x)), keyarr = (\<lambda>v. mk_keyarr (rm_keyboard v)),
      keyboard_custom_key_get = (\<lambda>k v. mk_custom (rm_keyboard v) k),
      keyboard_clear_keymatrix = on_keyboard km_h_clear, maincpu_clk = (\<lambda>v. mk_clock (rm_keyboard v)),
      machine_get_cycles_per_frame = (\<lambda>v. mk_cpf (rm_keyboard v)), alarm_new = (\<lambda>_ v. ((), v)),
      alarm_set = (\<lambda>_ t. on_keyboard (\<lambda>m. m\<lparr>mk_alarm_clk := t, mk_alarm_set := True\<rparr>)),
      alarm_unset = (\<lambda>_. on_keyboard (\<lambda>m. m\<lparr>mk_alarm_set := False\<rparr>)), mon_out = (\<lambda>s. on_keyboard (km_h_emit s))\<rparr>"

definition remote_binmon :: "remote_mock vice_binmon" where
  "remote_binmon =
     \<lparr>monitor_binary_response = (\<lambda>n ty e rid b v. v\<lparr>rm_replies := rm_replies v @
        [Reply ty e rid (case b of None \<Rightarrow> [] | Some b \<Rightarrow> take (unat n) b)]\<rparr>),
      monitor_binary_error = (\<lambda>e rid v. v\<lparr>rm_replies := rm_replies v @ [Refusal e rid]\<rparr>),
      file_system_attach_disk = (\<lambda>u dr p v. let ok = take 1 p = [0x61] in
        (if ok then 0 else - 1, v\<lparr>rm_disk := rm_disk v @ [Attach u dr p ok]\<rparr>)),
      file_system_detach_disk = (\<lambda>u dr v. v\<lparr>rm_disk := rm_disk v @ [Detach u dr]\<rparr>)\<rparr>"

definition remote_c64 :: "remote_mock vice_c64" where
  "remote_c64 =
     \<lparr>mem_ram = (\<lambda>v a. 1), colorram_read = (\<lambda>v a. 14), mem_chargen_rom = (\<lambda>v a. 0),
      vicii_regs = (\<lambda>v i. if i = 0x18 then 0x14 else 0), vicii_vbank_phi1 = (\<lambda>v. 0),
      vicii_vbank_phi2 = (\<lambda>v. 0), vaddr_chargen_mask_phi1 = (\<lambda>v. 0x7000),
      vaddr_chargen_value_phi1 = (\<lambda>v. 0x1000), mon_out = (\<lambda>s v. v)\<rparr>"

definition remote_uninit :: uninit where
  "remote_uninit = \<lparr>stack_bytes = (\<lambda>n. replicate n 7), stack_request = da_zeroed\<rparr>"

definition remote_start :: "(remote_mock, unit) kmx_state" where
  "remote_start = (\<lparr>kmx = km_core_init (kmx_host remote_vice), kmx_inited = False\<rparr>,
     \<lparr>kmx_alarm = None, vice = \<lparr>rm_keyboard = km_mock_setup, rm_replies = [], rm_disk = []\<rparr>\<rparr>)"

lemma remote_vice_laws: "vice_keyboard_laws remote_vice mock_wired (\<lambda>v. mock_pressed (rm_keyboard v)) (\<lambda>v _. mock_alarm (rm_keyboard v))"
  by (simp add: vice_keyboard_laws_def remote_vice_def on_keyboard_def mock_pressed_set mock_pressed_clear fun_eq_iff)

lemma remote_matrix_laws: "matrix_laws remote_vice (\<lambda>v. mock_pressed (rm_keyboard v))"
  by (simp add: matrix_laws_def remote_vice_def mock_pressed_def on_matrix_def custom_id_def km_sentinels)

lemma remote_binmon_laws:
  "binmon_laws remote_vice remote_binmon (\<lambda>v. mock_pressed (rm_keyboard v)) (\<lambda>v _. mock_alarm (rm_keyboard v)) rm_replies rm_disk"
proof -
  have "rm_replies (g v) = rm_replies v \<and> rm_disk (g v) = rm_disk v" if "keyboard_call remote_vice g" for g v
    using that by (auto simp: keyboard_call_def remote_vice_def on_keyboard_def)
  moreover have "rm_keyboard (g v) = rm_keyboard v" if "binmon_call remote_binmon g" for g v
    using that by (auto simp: binmon_call_def remote_binmon_def Let_def)
  ultimately show ?thesis
    by (simp add: binmon_laws_def) (simp add: remote_binmon_def remote_vice_def Let_def)
qed

lemma remote_stack: "length (stack_bytes remote_uninit n) = n"
  by (simp add: remote_uninit_def)

lemmas remote_laws = remote_vice_laws remote_binmon_laws remote_matrix_laws remote_stack

interpretation remote: remote_host remote_vice remote_binmon "\<lambda>v. mock_pressed (rm_keyboard v)"
    "\<lambda>v _. mock_alarm (rm_keyboard v)" rm_replies rm_disk mock_wired remote_uninit
  by unfold_locales (rule remote_laws)+

section \<open>Properties\<close>

lemma remote_hostI:
  assumes "vice_keyboard_laws V wired pressed armed" "binmon_laws V B pressed armed replies disk"
    "matrix_laws V pressed" "\<And>n. length (stack_bytes U n) = n"
  shows "remote_host V B pressed armed replies disk wired U"
  using assms by unfold_locales

lemma fresh_abs:
  assumes "\<not> kmx_inited s"
  shows "kmx_wf V s" "kmx_abs V s = \<lparr>sp_inj = None, sp_report = None, sp_timeout = 0\<rparr>"
  using assms by (simp_all add: kmx_wf_def kmx_abs_def kmx_ensure_def km_wf_init) (simp add: km_abs_def km_core_init_def)

text \<open>C2: A remote client and the emulated program share the keyboard: from the start of the emulator, however
  requests for the five opcodes, with any body, interleave with monitor commands, CIA reads and alarms,
  nothing faults and the session is one of the wire contract: every request gets one reply in its turn; the
  keys, the alarm and the injection are those of the keyboard contract, a SET or TAP is refused exactly when
  its body is malformed, and each GET answers the 24 documented bytes of the contract's state at that
  moment (the two bytes of frames are left open for a sticky press made before the timeout of an earlier
  tap); SCREEN_GET and DRIVE_ATTACH leave the keyboard alone, and the disk sees the calls of the
  DRIVE_ATTACH requests only, in order.\<close>

theorem remote_session:
  assumes "vice_keyboard_laws V wired pressed armed" "binmon_laws V B pressed armed replies disk"
    "matrix_laws V pressed" "\<And>n. length (stack_bytes U n) = n"
    and "s_provider = None \<or> s_provider = c64screen_init C" "\<not> kmx_inited s" "session_ok False es"
  shows "\<exists>s' d' rs ds. for_each (session_do V s_provider B U other) es (s, d) = Some (s', d') \<and>
    replies (vice d') = replies (vice d) @ rs \<and> disk (vice d') = disk (vice d) @ ds \<and>
    remote_run wired C s_provider es
      (\<lparr>sp_inj = None, sp_report = None, sp_timeout = 0\<rparr>, kmx_view V pressed armed d) rs ds
      (kmx_abs V s', kmx_view V pressed armed d')"
  using remote_host.session_run [OF remote_hostI [OF assms(1-4)] assms(5) fresh_abs(1) [OF assms(6)], of es other d]
    assms(6,7) by (auto simp: fresh_abs(2))

definition tap_A :: binary_command_t where
  "tap_A = \<lparr>bc_type = 0x75, bc_request_id = 5, bc_length = 6, bc_body = [0, 0, 0, 1, 1, 2]\<rparr>"

definition get_status :: binary_command_t where
  "get_status = \<lparr>bc_type = 0x76, bc_request_id = 6, bc_length = 0, bc_body = []\<rparr>"

definition attach_9 :: binary_command_t where
  "attach_9 = \<lparr>bc_type = 0x78, bc_request_id = 7, bc_length = 4, bc_body = [9, 0, 1, 0x61]\<rparr>"

lemma remote_session_witness:
  "\<exists>s' d'. for_each (session_do remote_vice None remote_binmon remote_uninit (\<lambda>_. Some))
      [Request tap_A, Local (Pa_Read 0xfd), Request attach_9, Request (tap_A\<lparr>bc_length := 5\<rparr>), Local Alarm, Request get_status]
      remote_start = Some (s', d') \<and> length (rm_replies (vice d')) = 4"
proof -
  let ?es = "[Request tap_A, Local (Pa_Read 0xfd), Request attach_9, Request (tap_A\<lparr>bc_length := 5\<rparr>), Local Alarm,
    Request get_status]"
  obtain s d where st: "remote_start = (s, d)" by (cases remote_start)
  then have s: "\<not> kmx_inited s" "rm_replies (vice d) = []" by (auto simp: remote_start_def)
  have "session_ok False ?es" by (simp add: tap_A_def get_status_def attach_9_def command_ok_def op_ok_def)
  from remote_session [OF remote_laws disjI1 [OF refl] s(1) this, where C = remote_c64 and other = "\<lambda>_. Some" and d = d]
  show ?thesis using s(2) by (auto simp: st dest: remote_run_length)
qed

lemma status_parts:
  "i < 8 \<Longrightarrow> status_bytes (s, w) ! i = key_byte (map (\<lambda>c. w_pressed w (int i) (int c)) [0..<8])"
  "drop 12 (status_bytes (s, w)) = sp_counters s @ le_bytes 2 (sp_frames_left (s, w))"
  by (simp_all add: status_bytes_def Let_def nth_append del: upt_Suc)

lemma counters_parts:
  assumes "b = status_bytes (s, w)" "sp_inj s = None" "sp_report s = Some r"
  shows "le_val (take 4 (drop 12 b)) = unat (rep_total r)" "le_val (take 4 (drop 16 b)) = unat (rep_sampling r)"
    "b ! 20 = reason_code (rep_reason r)" "b ! 21 = of_nat (length (rep_keys r))"
proof -
  have d: "drop 12 b = le_bytes 4 (unat (rep_total r)) @ le_bytes 4 (unat (rep_sampling r)) @
      reason_code (rep_reason r) # of_nat (length (rep_keys r)) # le_bytes 2 (sp_frames_left (s, w))"
    using assms(2,3) by (simp add: assms(1) status_parts(2) sp_counters_def Let_def)
  have n: "12 \<le> length b" by (simp add: assms(1) status_bytes_def Let_def)
  have "drop 16 b = drop 4 (drop 12 b)" by simp
  with d show "le_val (take 4 (drop 12 b)) = unat (rep_total r)" "le_val (take 4 (drop 16 b)) = unat (rep_sampling r)"
    by (simp_all add: le_val_word)
  have "b ! 20 = drop 12 b ! 8" "b ! 21 = drop 12 b ! 9" using n by simp_all
  with d show "b ! 20 = reason_code (rep_reason r)" "b ! 21 = of_nat (length (rep_keys r))"
    by (simp_all add: nth_append)
qed

lemma binmon_key_at: "r < 8 \<Longrightarrow> c < 8 \<Longrightarrow>
    row (binmon_key (of_nat r) (of_nat c)) = int r \<and> col (binmon_key (of_nat r) (of_nat c)) = int c \<and>
    kind (binmon_key (of_nat r) (of_nat c)) = 0"
  by (simp add: binmon_key_def signed_of_nat signed_take_bit_int_eq_self)

text \<open>A tap in observed mode, one read that sees the key, and the alarm, from any state.\<close>

lemma sp_tap_seen:
  assumes "hit k" "wired (row k) (col k)"
  shows "\<exists>sp w' rep. sp_release_now wired KM_RELEASE_TIMEOUT (sp_read hit (sp_tap wired [k] KM_MODE_TAP_OBSERVED f sw)) =
      (sp, w') \<and>
    sp_inj sp = None \<and> sp_report sp = Some rep \<and> rep_total rep = 1 \<and> rep_sampling rep = 1 \<and>
    rep_reason rep = KM_RELEASE_OBSERVED \<and> rep_keys rep = [k] \<and> \<not> w_pressed w' (row k) (col k) \<and> w_alarm w' = None"
proof -
  obtain s1 w1 where "sp_release_now wired KM_RELEASE_MANUAL sw = (s1, w1)" by (metis surj_pair)
  then show ?thesis
    using assms
    by (simp add: sp_read_def sp_release_now_def [of wired KM_RELEASE_TIMEOUT] sp_drive_def at_key_def sp_tap_def
        sp_arm_def sp_inject_def Let_def)
qed

text \<open>C17: A remote tap the program sees: whatever was injected before, in any well-formed state of the adapter
  and with any screen provider and other handlers, after a TAP of one matrix key in observed mode, a scan
  that drives the key's row low and the release alarm, GET reports one read, one that sampled the key, the
  reason observed and one key; its matrix byte no longer shows the key and the alarm is off.\<close>

theorem remote_tap_observed:
  assumes "vice_keyboard_laws V wired pressed armed" "binmon_laws V B pressed armed replies disk"
    "matrix_laws V pressed" "\<And>n. length (stack_bytes U n) = n"
    and "kmx_wf V s" "r < 8" "c < 8" "wired (int r) (int c)" "\<not> bit m r"
    and "bc_type t = 0x75" "bc_length t = 6" "bc_body t = [0, f0, f1, 1, of_nat r, of_nat c]"
    and "bc_type g = 0x76" "command_ok g"
  shows "\<exists>s' d' b. for_each (session_do V s_provider B U other)
      [Request t, Local (Pa_Read m), Local Alarm, Request g] (s, d) = Some (s', d') \<and>
    replies (vice d') = replies (vice d) @
      [Reply 0x75 e_MON_ERR_OK (bc_request_id t) [], Reply 0x76 e_MON_ERR_OK (bc_request_id g) b] \<and>
    le_val (take 4 (drop 12 b)) = 1 \<and> le_val (take 4 (drop 16 b)) = 1 \<and> b ! 20 = 1 \<and> b ! 21 = 1 \<and>
    \<not> bit (b ! r) c \<and> dev_alarm armed d' = None"
proof -
  let ?es = "[Request t, Local (Pa_Read m), Local Alarm, Request g]"
  let ?sw = "(kmx_abs V s, kmx_view V pressed armed d)"
  let ?k = "binmon_key (of_nat r) (of_nat c)"
  note key = binmon_key_at [OF assms(6,7)]
  have "session_ok (kmx_inited s) ?es" "list_all keyboard_event ?es"
    using assms(10-14) by (simp_all add: command_ok_def op_ok_def keyboard_event_def)
  from remote_host.keyboard_session_run [OF remote_hostI [OF assms(1-4)] assms(5) this, of s_provider other d]
  obtain s' d' rs ds where run: "for_each (session_do V s_provider B U other) ?es (s, d) = Some (s', d')"
    "replies (vice d') = replies (vice d) @ rs"
    "remote_run wired (undefined :: 'a vice_c64) None ?es ?sw rs ds (kmx_abs V s', kmx_view V pressed armed d')"
    by blast
  have ok: "bin_tap_ok (bc_body t) (bc_length t)" by (simp add: assms(11,12) bin_tap_ok_def)
  have tap: "sp_do wired (Bin_Tap (bc_body t) (bc_length t)) ?sw =
      sp_tap wired [?k] KM_MODE_TAP_OBSERVED (bin_frames (bc_body t)) ?sw"
    by (simp add: sp_do_def ok) (simp add: assms(11,12))
  have "line_hit row m ?k" using key assms(6,9) by (simp add: line_hit_def)
  from sp_tap_seen [of "line_hit row m", OF this, of wired "bin_frames (bc_body t)" ?sw] key assms(8)
  obtain sp w rep where sw: "sp_do wired Alarm (sp_do wired (Pa_Read m)
      (sp_tap wired [?k] KM_MODE_TAP_OBSERVED (bin_frames (bc_body t)) ?sw)) = (sp, w)"
    "sp_inj sp = None" "sp_report sp = Some rep" "rep_total rep = 1" "rep_sampling rep = 1"
    "rep_reason rep = KM_RELEASE_OBSERVED" "rep_keys rep = [?k]" "\<not> w_pressed w (int r) (int c)" "w_alarm w = None"
    by (auto simp: sp_do_def)
  from run(3) obtain b where b: "rs = [Reply 0x75 e_MON_ERR_OK (bc_request_id t) [], Reply 0x76 e_MON_ERR_OK (bc_request_id g) b]"
    "status_answer (sp, w) b" "(kmx_abs V s', kmx_view V pressed armed d') = (sp, w)"
    by (auto elim!: remote_run_elims simp: kb_serves_def assms(10,13) ok tap sw(1))
  from b(2) have st: "b = status_bytes (sp, w)" using sw(2) by (simp add: status_answer_def stale_press_def)
  have "\<not> bit (b ! r) c"
    using assms(6,7) sw(8) by (simp add: st status_parts(1) key_byte_def bit_horner_sum_bit_iff)
  moreover note counters_parts [OF st sw(2,3)]
  ultimately show ?thesis
    using run b(1,3) sw(4-7,9) by (intro exI [of _ s'] exI [of _ d'] exI [of _ b]) (auto simp: kmx_view_def km_view_def)
qed

lemma remote_tap_observed_witness:
  "\<exists>s' d' b. for_each (session_do remote_vice None remote_binmon remote_uninit (\<lambda>_. Some))
      [Request tap_A, Local (Pa_Read 0xfd), Local Alarm, Request get_status] remote_start = Some (s', d') \<and>
    rm_replies (vice d') = [Reply 0x75 e_MON_ERR_OK 5 [], Reply 0x76 e_MON_ERR_OK 6 b] \<and> b ! 20 = 1 \<and> \<not> bit (b ! 1) 2"
proof -
  obtain s d where st: "remote_start = (s, d)" by (cases remote_start)
  then have s: "\<not> kmx_inited s" "rm_replies (vice d) = []" by (auto simp: remote_start_def)
  have "mock_wired (int 1) (int 2)" "\<not> bit (0xfd :: u8) 1" by (simp_all add: mock_wired_def on_matrix_def)
  from remote_tap_observed [OF remote_laws fresh_abs(1) [OF s(1)] _ _ this, of tap_A 0 0 get_status None "\<lambda>_. Some" d] s(2)
  show ?thesis by (simp add: tap_A_def get_status_def command_ok_def st) blast
qed

text \<open>C15: A DRIVE_ATTACH request, whatever its body, is one reply and at most one disk call: a body shorter than
  its path is refused for its length, then a unit outside 8 to 11 or a drive above 1 for its parameter,
  with no disk call; an empty path detaches that drive; any other path is attached as the C string of its
  bytes, and the reply says whether the emulator accepted it. The keyboard is not touched.\<close>

theorem drive_attach_request:
  assumes "binmon_laws V B pressed armed replies disk" "command_ok c" "bc_type c = 0x78"
  shows "\<exists>d' r calls. monitor_binary_process_command V s_provider B U other c (s, d) = Some (s, d') \<and>
    replies (vice d') = replies (vice d) @ [r] \<and> disk (vice d') = disk (vice d) @ calls \<and> drive_served c r calls \<and>
    kmx_view V pressed armed d' = kmx_view V pressed armed d"
  by (rule binmon_host.drive_request_step [OF binmon_host.intro [OF assms(1)] assms(2,3)])

lemma drive_attach_request_witness:
  "\<exists>d r calls. monitor_binary_process_command remote_vice None remote_binmon remote_uninit (\<lambda>_. Some)
      \<lparr>bc_type = 0x78, bc_request_id = 9, bc_length = 5, bc_body = [8, 0, 2, 0x61, 0x62]\<rparr> remote_start = Some (fst remote_start, d) \<and>
    rm_replies (vice d) = [r] \<and> rm_disk (vice d) = calls \<and>
    (r = Reply 0x78 e_MON_ERR_OK 9 [] \<and> calls = [Attach 8 0 [0x61, 0x62] True] \<or>
     r = Refusal e_MON_ERR_CMD_FAILURE 9 \<and> calls = [Attach 8 0 [0x61, 0x62] False])"
proof -
  let ?c = "\<lparr>bc_type = 0x78, bc_request_id = 9, bc_length = 5, bc_body = [8, 0, 2, 0x61, 0x62]\<rparr>"
  obtain s d where st: "remote_start = (s, d)" by (cases remote_start)
  then have e: "rm_replies (vice d) = []" "rm_disk (vice d) = []" by (auto simp: remote_start_def)
  have "command_ok ?c" "bc_type ?c = 0x78" by (simp_all add: command_ok_def)
  from drive_attach_request [OF remote_binmon_laws this, of None remote_uninit "\<lambda>_. Some" s d] e
  show ?thesis by (simp add: st drive_served_def cstr_def Let_def) blast
qed

definition answers :: "'v vice_c64 \<Rightarrow> 'v s_provider \<Rightarrow> 'v \<Rightarrow> binary_command_t \<Rightarrow> reply \<Rightarrow> bool" where
  \<comment> \<open>a reply to the request: its own type and id with no error, or an error with its id\<close>
  "answers C s_provider v c r \<longleftrightarrow> (case r of
     Reply ty e rid b \<Rightarrow> ty = bc_type c \<and> e = e_MON_ERR_OK \<and> rid = bc_request_id c \<and>
       (if bc_type c = 0x77 then s_provider = c64screen_init C \<and> screen_answer (c64_inputs C v) b
        else length b = (if bc_type c = 0x76 then 24 else 0))
   | Refusal e rid \<Rightarrow> e \<noteq> e_MON_ERR_OK \<and> rid = bc_request_id c \<and> (bc_type c = 0x77 \<longrightarrow> s_provider = None))"

lemma kb_serves_answers:
  "bc_type c \<in> {0x74, 0x75, 0x76} \<Longrightarrow> kb_serves wired c sw r sw' \<Longrightarrow> answers C s_provider v c r"
  by (auto simp: kb_serves_def answers_def status_answer_def Let_def split: if_splits)

text \<open>C7: Every request for one of the five opcodes is answered exactly once, under its own request id and with
  its own response type and body size, or with an error: nothing faults, whatever the body, and the
  keyboard core stays well-formed. SCREEN_GET is refused exactly when no machine has registered a
  provider and otherwise carries the state header, the screen and the colour memory of the C64 at that
  moment and, when it shows characters (bitmap bit clear), their character set; it and DRIVE_ATTACH leave
  the keyboard alone. Any other opcode goes to the monitor's own handlers.\<close>

theorem binmon_one_reply:
  assumes "vice_keyboard_laws V wired pressed armed" "binmon_laws V B pressed armed replies disk"
    "matrix_laws V pressed" "\<And>n. length (stack_bytes U n) = n"
    and "kmx_wf V s" "command_ok c" "s_provider = None \<or> s_provider = c64screen_init C"
  shows "if bc_type c \<in> {0x74, 0x75, 0x76, 0x77, 0x78}
    then \<exists>s' d' r. monitor_binary_process_command V s_provider B U other c (s, d) = Some (s', d') \<and>
      kmx_wf V s' \<and> replies (vice d') = replies (vice d) @ [r] \<and> answers C s_provider (vice d) c r \<and>
      (bc_type c \<in> {0x77, 0x78} \<longrightarrow> s' = s \<and> kmx_view V pressed armed d' = kmx_view V pressed armed d)
    else monitor_binary_process_command V s_provider B U other c (s, d) = other c (s, d)"
proof -
  note host = remote_hostI [OF assms(1-4)]
  consider "bc_type c \<in> {0x74, 0x75, 0x76}" | "bc_type c = 0x77" | "bc_type c = 0x78"
    | "bc_type c \<notin> {0x74, 0x75, 0x76, 0x77, 0x78}" by blast
  then show ?thesis
  proof cases
    case 1
    from remote_host.kb_request_step [OF host assms(5,6) this, of s_provider other d] obtain s' d' r where
      step: "monitor_binary_process_command V s_provider B U other c (s, d) = Some (s', d')" "kmx_wf V s'"
      "replies (vice d') = replies (vice d) @ [r]"
      "kb_serves wired c (kmx_abs V s, kmx_view V pressed armed d) r (kmx_abs V s', kmx_view V pressed armed d')"
      by blast
    with kb_serves_answers [OF 1 step(4)] 1 show ?thesis by auto
  next
    case 2
    from remote_host.screen_request_step(1) [OF host 2, where other = other and s = s and d = d]
      remote_host.screen_request_step(2) [OF host 2, where other = other and s = s and d = d and C = C]
      assms(5,7) 2 show ?thesis
      by (auto simp: answers_def c64screen_init_def screen_answer_response)
  next
    case 3
    from binmon_host.drive_request_step [OF binmon_host.intro [OF assms(2)] assms(6) 3, of s_provider U other s d] assms(5) 3 show ?thesis
      by (fastforce simp: answers_def drive_served_def Let_def split: if_splits)
  next
    case 4
    then show ?thesis by (simp add: monitor_binary_process_command_def)
  qed
qed

lemma binmon_one_reply_witness:
  "\<exists>s' d'. monitor_binary_process_command remote_vice (c64screen_init remote_c64) remote_binmon remote_uninit (\<lambda>_. Some)
      \<lparr>bc_type = 0x77, bc_request_id = 3, bc_length = 0, bc_body = []\<rparr> remote_start = Some (s', d') \<and>
    rm_replies (vice d') =
      [Reply 0x77 e_MON_ERR_OK 3 (screen_response (c64_inputs remote_c64 (vice (snd remote_start))))]"
proof -
  let ?c = "\<lparr>bc_type = 0x77, bc_request_id = 3, bc_length = 0, bc_body = []\<rparr>"
  obtain s d where st: "remote_start = (s, d)" by (cases remote_start)
  then have s: "\<not> kmx_inited s" "rm_replies (vice d) = []" by (auto simp: remote_start_def)
  have c: "command_ok ?c" "bc_type ?c = 0x77" by (simp_all add: command_ok_def)
  from binmon_one_reply [OF remote_laws fresh_abs(1) [OF s(1)] c(1) disjI2 [OF refl],
      of remote_c64 "\<lambda>_. Some" d] c(2) s(2)
  obtain s' d' r where "monitor_binary_process_command remote_vice (c64screen_init remote_c64) remote_binmon remote_uninit
      (\<lambda>_. Some) ?c (s, d) = Some (s', d')" "rm_replies (vice d') = [r]"
    "answers remote_c64 (c64screen_init remote_c64) (vice d) ?c r" by auto
  then show ?thesis
    by (cases r) (auto simp: answers_def st c64screen_init_def mon_screen_register_provider_def screen_answer_def
        c64_inputs_def remote_c64_def)
qed

end
