(* ===== verification/Checkpoint.thy ===== *)
theory Checkpoint
  imports Prelude
begin

text \<open>
  The decode of the optional silent byte of a CHECKPOINT_SET (0x12) body,
  \<open>libs/checkpoint/src/checkpoint_core.c\<close>. A null body is \<open>None\<close>; the outer \<open>None\<close> is an
  access outside the body.
\<close>

definition checkpoint_silent_body_offset :: nat where
  "checkpoint_silent_body_offset = 9"

definition checkpoint_decode_silent :: "u8 list option \<Rightarrow> u32 \<Rightarrow> int option" where
  "checkpoint_decode_silent body len =
     (case body of
        None \<Rightarrow> Some 0
      | Some b \<Rightarrow>
          if of_nat checkpoint_silent_body_offset + 1 \<le> len then do {
            x \<leftarrow> aget b checkpoint_silent_body_offset;
            Some (if x \<noteq> 0 then 1 else 0)
          }
          else Some 0)"

text \<open>On a standard body (8 or 9 bytes) followed by any extension, the decoder stays inside
  the body and reports silent exactly when there is a tenth byte and it is not zero.\<close>

theorem checkpoint_silent_iff:
  assumes "length b < 2 ^ 32"
  shows "checkpoint_decode_silent (Some b) (of_nat (length b))
    = Some (if 10 \<le> length b \<and> b ! 9 \<noteq> 0 then 1 else 0)"
proof -
  have "unat (of_nat (length b) :: u32) = length b"
    using assms by (simp add: unat_of_nat)
  then have "(10 :: u32) \<le> of_nat (length b) \<longleftrightarrow> 10 \<le> length b"
    by (simp add: word_le_nat_alt)
  then show ?thesis
    by (simp add: checkpoint_decode_silent_def checkpoint_silent_body_offset_def aget_def)
qed

theorem checkpoint_silent_iff_witness:
  "checkpoint_decode_silent (Some [0, 0, 0, 0, 0, 0, 0, 0, 0, 0x42])
     (of_nat (length [0, 0, 0, 0, 0, 0, 0, 0, 0, 0x42 :: u8])) = Some 1"
  by (subst checkpoint_silent_iff) simp_all

end
