(* ===== verification/Bustrace.thy ===== *)
theory Bustrace
  imports Prelude
begin

unbundle bit_operations_syntax

text \<open>
  The bus-trace serializer of \<open>libs/bustrace/src/bustrace_core.c\<close>: the little-endian writers,
  the bytewise CRC-32, and the begin / access / end operations on \<open>revice_bustrace_t\<close>. The
  emit callback is a function of the context pointer and of the host state it appends to; a
  null callback is \<open>None\<close>. The second half is the reader that the format description of
  \<open>revice_bustrace.h\<close> promises, and the proof that it recovers every recorded access and
  rejects a corrupted trace.
\<close>

section \<open>Byte writers\<close>

definition put_u16 :: "u16 \<Rightarrow> u8 list" where
  "put_u16 v = [ucast (v AND 0xff), ucast (drop_bit 8 v AND 0xff)]"

definition put_u32 :: "u32 \<Rightarrow> u8 list" where
  "put_u32 v = [ucast (v AND 0xff), ucast (drop_bit 8 v AND 0xff),
     ucast (drop_bit 16 v AND 0xff), ucast (drop_bit 24 v AND 0xff)]"

definition put_u64 :: "u64 \<Rightarrow> u8 list" where
  "put_u64 v = map (\<lambda>i. ucast (drop_bit (8 * i) v AND 0xff)) [0..<8]"

lemma put_u16_le: "put_u16 v = le_bytes 2 (unat v)"
  by (simp add: put_u16_def ucast_and_ff upt_rec flip: le_bytes_word)

lemma put_u32_le: "put_u32 v = le_bytes 4 (unat v)"
  by (simp add: put_u32_def ucast_and_ff upt_rec flip: le_bytes_word)

lemma put_u64_le: "put_u64 v = le_bytes 8 (unat v)"
  by (simp only: put_u64_def ucast_and_ff le_bytes_word)

lemma length_puts [simp]:
  "length (put_u16 a) = 2" "length (put_u32 b) = 4" "length (put_u64 c) = 8"
  by (simp_all add: put_u16_le put_u32_le put_u64_le)

lemma le_val_puts [wire_simps]:
  "le_val (put_u16 a) = unat a" "le_val (put_u32 b) = unat b" "le_val (put_u64 c) = unat c"
  by (simp_all add: put_u16_le put_u32_le put_u64_le le_val_word)

text \<open>The three field writers are codecs against the little-endian reading.\<close>

interpretation u16_codec: byte_codec put_u16 "\<lambda>bs. word_of_nat (le_val bs)" 2
  by unfold_locales (simp_all add: wire_simps)

interpretation u32_codec: byte_codec put_u32 "\<lambda>bs. word_of_nat (le_val bs)" 4
  by unfold_locales (simp_all add: wire_simps)

interpretation u64_codec: byte_codec put_u64 "\<lambda>bs. word_of_nat (le_val bs)" 8
  by unfold_locales (simp_all add: wire_simps)

section \<open>CRC-32\<close>

definition crc_bit :: "u32 \<Rightarrow> u32" where
  "crc_bit crc = (let mask = - (crc AND 1) in drop_bit 1 crc XOR (0xedb88320 AND mask))"

definition crc_byte :: "u8 \<Rightarrow> u32 \<Rightarrow> u32" where
  "crc_byte b crc = (crc_bit ^^ 8) (crc XOR ucast b)"

definition revice_bustrace_crc32 :: "u32 \<Rightarrow> u8 list \<Rightarrow> u32" where
  "revice_bustrace_crc32 seed buf = NOT (fold crc_byte buf (NOT seed))"

text \<open>
  Each bit step is linear over XOR and injective: the polynomial has its top bit set, so the
  bit shifted out is the top bit of the result. So the register remembers every difference.
\<close>

lemma crc_bit_alt: "crc_bit c = drop_bit 1 c XOR (if bit c 0 then 0xedb88320 else 0)"
  by (cases "bit c 0") (simp_all add: crc_bit_def and_one_eq mod_2_eq_odd bit_0)

lemma crc_bit_xor: "crc_bit (a XOR b) = crc_bit a XOR crc_bit b"
  by (simp add: crc_bit_alt bit_xor_iff ac_simps)

lemma crc_bit_top: "bit (crc_bit c) 31 = bit c 0"
  by (auto simp: crc_bit_alt bit_xor_iff bit_drop_bit_eq dest: bit_imp_le_length)

lemma crc_bit_inject: "crc_bit a = crc_bit b \<longleftrightarrow> a = b"
proof
  assume eq: "crc_bit a = crc_bit b"
  then have b0: "bit a 0 = bit b 0" by (metis crc_bit_top)
  with eq have eq1: "drop_bit 1 a = drop_bit 1 b"
    by (auto simp: crc_bit_alt simp del: bit_0 split: if_splits)
  have "bit a (Suc n) = bit b (Suc n)" for n
    using eq1 by (metis bit_drop_bit_eq comp_apply plus_1_eq_Suc)
  with b0 show "a = b" by (intro bit_eqI) (metis not0_implies_Suc)
qed simp

lemma crc_bits_inject: "(crc_bit ^^ n) a = (crc_bit ^^ n) b \<longleftrightarrow> a = b"
  by (induction n) (simp_all add: crc_bit_inject)

lemma crc_bits_xor: "(crc_bit ^^ n) (a XOR b) = (crc_bit ^^ n) a XOR (crc_bit ^^ n) b"
  by (induction n) (simp_all add: crc_bit_xor)

lemma crc_byte_inject: "crc_byte b c = crc_byte b d \<longleftrightarrow> c = d"
  by (simp only: crc_byte_def crc_bits_inject xor_right_cancel)

lemma crc_byte_byte_inject: "crc_byte a c = crc_byte b c \<longleftrightarrow> a = b"
  by (simp only: crc_byte_def crc_bits_inject xor_left_cancel ucast_up_inject) (simp add: ucast_up_inject)

lemma crc_fold_inject: "fold crc_byte bs c = fold crc_byte bs d \<longleftrightarrow> c = d"
  by (induction bs arbitrary: c d) (simp_all add: crc_byte_inject)

lemma crc32_append: "revice_bustrace_crc32 (revice_bustrace_crc32 s xs) ys = revice_bustrace_crc32 s (xs @ ys)"
  by (simp add: revice_bustrace_crc32_def)

lemma crc32_empty [simp]: "revice_bustrace_crc32 s [] = s"
  by (simp add: revice_bustrace_crc32_def)

lemma not_inject [simp]: "NOT a = NOT b \<longleftrightarrow> a = b" for a b :: u32
  by (metis bit.double_compl)

lemma crc32_byte_change:
  assumes "i < length bs" and "b \<noteq> bs ! i"
  shows "revice_bustrace_crc32 s (bs[i := b]) \<noteq> revice_bustrace_crc32 s bs"
proof -
  have "revice_bustrace_crc32 s (take i bs @ b # drop (Suc i) bs)
      \<noteq> revice_bustrace_crc32 s (take i bs @ bs ! i # drop (Suc i) bs)"
    using assms(2) by (simp add: revice_bustrace_crc32_def crc_fold_inject crc_byte_byte_inject)
  with assms(1) show ?thesis by (simp add: upd_conv_take_nth_drop id_take_nth_drop [symmetric])
qed

text \<open>
  The table-driven form of the same CRC, eight bits at a time: the entry for the low byte of
  the register, and the rest of the register shifted down.
\<close>

definition crc_table :: "u8 \<Rightarrow> u32" where
  "crc_table b = (crc_bit ^^ 8) (ucast b)"

definition crc_byte_table :: "u8 \<Rightarrow> u32 \<Rightarrow> u32" where
  "crc_byte_table b crc = crc_table (ucast crc XOR b) XOR drop_bit 8 crc"

lemma crc_bits_push:
  assumes "n \<le> 8" and high: "\<And>m. 24 \<le> m \<Longrightarrow> \<not> bit d m"
  shows "(crc_bit ^^ n) (push_bit n d) = d"
  using assms(1)
proof (induction n)
  case 0
  then show ?case by simp
next
  case (Suc n)
  have "drop_bit 1 (push_bit (Suc n) d) = push_bit n d"
  proof (rule bit_word_eqI)
    fix m
    assume "m < LENGTH(32)"
    then show "bit (drop_bit 1 (push_bit (Suc n) d)) m = bit (push_bit n d) m"
      using Suc.prems high [of "m - n"]
      by (cases "m = 31") (auto simp: bit_drop_bit_eq bit_push_bit_iff simp del: push_bit_Suc)
  qed
  then have "crc_bit (push_bit (Suc n) d) = push_bit n d"
    by (simp add: crc_bit_alt bit_push_bit_iff del: bit_0 push_bit_Suc)
  then show ?case using Suc by (simp add: funpow_Suc_right del: funpow.simps)
qed

lemma crc_byte_eq_table: "crc_byte b c = crc_byte_table b c"
proof -
  have split: "c XOR ucast b = ucast (ucast c XOR b) XOR push_bit 8 (drop_bit 8 c)"
    by (rule bit_word_eqI) (auto simp: bit_simps dest: bit_imp_le_length)
  have "(crc_bit ^^ 8) (push_bit 8 (drop_bit 8 c)) = drop_bit 8 c"
    by (rule crc_bits_push) (auto simp: bit_drop_bit_eq dest: bit_imp_le_length)
  then show ?thesis
    by (simp only: crc_byte_def crc_byte_table_def crc_table_def split crc_bits_xor)
qed

section \<open>The serializer\<close>

record ('c, 'h) revice_bustrace =
  bt_emit :: "('c \<Rightarrow> u8 list \<Rightarrow> 'h \<Rightarrow> 'h) option"
  bt_ctx :: 'c
  bt_last_cycle :: u64
  bt_rec_count :: u64
  bt_crc :: u32
  bt_started :: bool

text \<open>One observed access, the arguments of \<open>revice_bustrace_access\<close>.\<close>

record bus_access =
  acc_cycle :: u64
  acc_addr :: u16
  acc_val :: u8
  acc_rw :: u8
  acc_pc :: u16

text \<open>The constants of \<open>revice_bustrace.h\<close>, at the types they are used at.\<close>

abbreviation (input) REVICE_BUSTRACE_MAGIC0 :: u8 where "REVICE_BUSTRACE_MAGIC0 \<equiv> 0x52"
abbreviation (input) REVICE_BUSTRACE_MAGIC1 :: u8 where "REVICE_BUSTRACE_MAGIC1 \<equiv> 0x42"
abbreviation (input) REVICE_BUSTRACE_MAGIC2 :: u8 where "REVICE_BUSTRACE_MAGIC2 \<equiv> 0x54"
abbreviation (input) REVICE_BUSTRACE_MAGIC3 :: u8 where "REVICE_BUSTRACE_MAGIC3 \<equiv> 0x31"
abbreviation (input) REVICE_BUSTRACE_VERSION :: u16 where "REVICE_BUSTRACE_VERSION \<equiv> 1"
abbreviation (input) REVICE_BUSTRACE_HEADER_SIZE :: nat where "REVICE_BUSTRACE_HEADER_SIZE \<equiv> 16"
abbreviation (input) REVICE_BUSTRACE_REC_SIZE :: "'a::numeral" where "REVICE_BUSTRACE_REC_SIZE \<equiv> 10"
abbreviation (input) REVICE_BUSTRACE_TRAILER_SIZE :: nat where "REVICE_BUSTRACE_TRAILER_SIZE \<equiv> 16"
abbreviation (input) REVICE_BUSTRACE_FLAG_HAS_PC :: u8 where "REVICE_BUSTRACE_FLAG_HAS_PC \<equiv> 0x01"
abbreviation (input) REVICE_BUSTRACE_RW_WRITE :: u8 where "REVICE_BUSTRACE_RW_WRITE \<equiv> 0x01"
abbreviation (input) REVICE_BUSTRACE_RW_OPCODE :: u8 where "REVICE_BUSTRACE_RW_OPCODE \<equiv> 0x02"
abbreviation (input) REVICE_BUSTRACE_RW_DUMMY :: u8 where "REVICE_BUSTRACE_RW_DUMMY \<equiv> 0x04"

definition bt_emit_span :: "('c, 'h) revice_bustrace \<Rightarrow> u8 list \<Rightarrow> 'h \<Rightarrow> 'h" where
  "bt_emit_span bt buf h = (case bt_emit bt of None \<Rightarrow> h | Some emit \<Rightarrow> emit (bt_ctx bt) buf h)"

definition bt_header :: "u64 \<Rightarrow> u8 list" where
  "bt_header cycles_per_sec =
     [REVICE_BUSTRACE_MAGIC0, REVICE_BUSTRACE_MAGIC1, REVICE_BUSTRACE_MAGIC2, REVICE_BUSTRACE_MAGIC3] @
       put_u16 REVICE_BUSTRACE_VERSION @ [REVICE_BUSTRACE_REC_SIZE, REVICE_BUSTRACE_FLAG_HAS_PC] @ put_u64 cycles_per_sec"

definition revice_bustrace_begin ::
    "u64 \<Rightarrow> ('c \<Rightarrow> u8 list \<Rightarrow> 'h \<Rightarrow> 'h) option \<Rightarrow> 'c \<Rightarrow> 'h \<Rightarrow> ('c, 'h) revice_bustrace \<times> 'h" where
  "revice_bustrace_begin cycles_per_sec emit ctx h =
     (let bt = \<lparr>bt_emit = emit, bt_ctx = ctx, bt_last_cycle = 0, bt_rec_count = 0,
                bt_crc = 0, bt_started = True\<rparr>
      in (bt, bt_emit_span bt (bt_header cycles_per_sec) h))"

definition bt_delta :: "u64 \<Rightarrow> u64 \<Rightarrow> u32" where
  \<comment> \<open>delta against the previous cycle: 0 when out of order, saturated to 32 bits\<close>
  "bt_delta last_cycle cycle =
     (let delta = (if last_cycle \<le> cycle then cycle - last_cycle else 0);
          delta' = (if 0xffffffff < delta then 0xffffffff else delta)
      in ucast delta')"

definition bt_record :: "u32 \<Rightarrow> u16 \<Rightarrow> u8 \<Rightarrow> u8 \<Rightarrow> u16 \<Rightarrow> u8 list" where
  "bt_record delta addr val rw_flags pc =
     put_u32 delta @ put_u16 addr @ [val, rw_flags] @ put_u16 pc"

definition revice_bustrace_access ::
    "bus_access \<Rightarrow> ('c, 'h) revice_bustrace \<times> 'h \<Rightarrow> ('c, 'h) revice_bustrace \<times> 'h" where
  "revice_bustrace_access a = (\<lambda>(bt, h).
     if \<not> bt_started bt then (bt, h)
     else
       let rec = bt_record (bt_delta (bt_last_cycle bt) (acc_cycle a))
                   (acc_addr a) (acc_val a) (acc_rw a) (acc_pc a);
           bt' = bt\<lparr>bt_last_cycle := acc_cycle a,
                    bt_crc := revice_bustrace_crc32 (bt_crc bt) rec,
                    bt_rec_count := bt_rec_count bt + 1\<rparr>
       in (bt', bt_emit_span bt' rec h))"

definition bt_trailer :: "u64 \<Rightarrow> u32 \<Rightarrow> u8 list" where
  "bt_trailer rec_count crc =
     [REVICE_BUSTRACE_MAGIC0, REVICE_BUSTRACE_MAGIC1, REVICE_BUSTRACE_MAGIC2, 0x65] @ put_u64 rec_count @ put_u32 crc"

definition revice_bustrace_end ::
    "('c, 'h) revice_bustrace \<times> 'h \<Rightarrow> ('c, 'h) revice_bustrace \<times> 'h" where
  "revice_bustrace_end = (\<lambda>(bt, h).
     if \<not> bt_started bt then (bt, h)
     else
       let bt' = bt\<lparr>bt_started := False\<rparr>
       in (bt', bt_emit_span bt' (bt_trailer (bt_rec_count bt') (bt_crc bt')) h))"

text \<open>A whole session: header, the accesses in order, trailer.\<close>

definition bt_session ::
    "u64 \<Rightarrow> ('c \<Rightarrow> u8 list \<Rightarrow> 'h \<Rightarrow> 'h) option \<Rightarrow> 'c \<Rightarrow> bus_access list \<Rightarrow> 'h \<Rightarrow>
       ('c, 'h) revice_bustrace \<times> 'h" where
  "bt_session cps emit ctx as h =
     revice_bustrace_end (fold revice_bustrace_access as (revice_bustrace_begin cps emit ctx h))"

section \<open>The emitted bytes\<close>

fun bt_records :: "u64 \<Rightarrow> bus_access list \<Rightarrow> u8 list" where
  "bt_records l [] = []"
| "bt_records l (a # as) =
     bt_record (bt_delta l (acc_cycle a)) (acc_addr a) (acc_val a) (acc_rw a) (acc_pc a)
       @ bt_records (acc_cycle a) as"

definition bt_trace :: "u64 \<Rightarrow> bus_access list \<Rightarrow> u8 list" where
  "bt_trace cps as = bt_header cps @ bt_records 0 as
     @ bt_trailer (of_nat (length as)) (revice_bustrace_crc32 0 (bt_records 0 as))"

lemma length_bt_record [simp]: "length (bt_record d a v r p) = REVICE_BUSTRACE_REC_SIZE"
  by (simp add: bt_record_def)

lemma length_bt_header [simp]: "length (bt_header c) = REVICE_BUSTRACE_HEADER_SIZE"
  by (simp add: bt_header_def)

lemma length_bt_trailer [simp]: "length (bt_trailer n c) = REVICE_BUSTRACE_TRAILER_SIZE"
  by (simp add: bt_trailer_def)

lemma length_bt_records [simp]: "length (bt_records l as) = 10 * length as"
  by (induction as arbitrary: l) simp_all

text \<open>
  The emit callback as an interface: appending to what a handle has received so far. The
  serializer's guarantee is stated once against it.
\<close>

locale append_sink =
  fixes emit :: "'c \<Rightarrow> u8 list \<Rightarrow> 'h \<Rightarrow> 'h" and ctx :: 'c and contents :: "'h \<Rightarrow> u8 list"
  assumes contents_emit: "contents (emit ctx bs h) = contents h @ bs"
begin

lemma contents_begin:
  "contents (snd (revice_bustrace_begin cps (Some emit) ctx h)) = contents h @ bt_header cps"
  by (simp add: revice_bustrace_begin_def bt_emit_span_def contents_emit)

lemma contents_accesses:
  assumes "bt_started bt" "bt_emit bt = Some emit" "bt_ctx bt = ctx"
  shows "\<exists>bt' h'. fold revice_bustrace_access as (bt, h) = (bt', h') \<and>
     contents h' = contents h @ bt_records (bt_last_cycle bt) as \<and>
     bt_started bt' \<and> bt_emit bt' = Some emit \<and> bt_ctx bt' = ctx \<and>
     bt_rec_count bt' = bt_rec_count bt + of_nat (length as) \<and>
     bt_crc bt' = revice_bustrace_crc32 (bt_crc bt) (bt_records (bt_last_cycle bt) as)"
  using assms
proof (induction as arbitrary: bt h)
  case Nil
  then show ?case by simp
next
  case (Cons a as)
  let ?s = "revice_bustrace_access a (bt, h)"
  from Cons.prems have "bt_started (fst ?s)" "bt_emit (fst ?s) = Some emit" "bt_ctx (fst ?s) = ctx"
    by (simp_all add: revice_bustrace_access_def Let_def)
  from Cons.IH [OF this, of "snd ?s"] Cons.prems show ?case
    by (auto simp: revice_bustrace_access_def Let_def bt_emit_span_def contents_emit
        crc32_append algebra_simps)
qed

lemma contents_end:
  assumes "bt_started bt" "bt_emit bt = Some emit" "bt_ctx bt = ctx"
  shows "contents (snd (revice_bustrace_end (bt, h)))
    = contents h @ bt_trailer (bt_rec_count bt) (bt_crc bt)"
  using assms by (simp add: revice_bustrace_end_def bt_emit_span_def contents_emit Let_def)

lemma contents_session:
  "contents (snd (bt_session cps (Some emit) ctx as h)) = contents h @ bt_trace cps as"
proof -
  obtain bt h1 where b: "revice_bustrace_begin cps (Some emit) ctx h = (bt, h1)"
    by fastforce
  then have bt: "bt_started bt" "bt_emit bt = Some emit" "bt_ctx bt = ctx" "bt_last_cycle bt = 0"
    "bt_rec_count bt = 0" "bt_crc bt = 0" "contents h1 = contents h @ bt_header cps"
    using contents_begin [of cps h] by (auto simp: revice_bustrace_begin_def Let_def)
  from contents_accesses [OF bt(1-3), of as h1] bt(4-7) show ?thesis
    by (auto simp: bt_session_def b contents_end bt_trace_def)
qed

end

section \<open>The reader of the format\<close>

text \<open>
  What \<open>revice_bustrace.h\<close> says a reader does: check the two magics, the version and the
  record size, stride the records, rebuild the absolute cycles by a running sum, and validate
  with the record count and the CRC.
\<close>

type_synonym bt_entry = "u32 \<times> u16 \<times> u8 \<times> u8 \<times> u16"

definition bt_read_record :: "u8 list \<Rightarrow> bt_entry" where
  "bt_read_record r =
     (word_of_nat (le_val (take 4 r)), word_of_nat (le_val (take 2 (drop 4 r))),
      r ! 6, r ! 7, word_of_nat (le_val (take 2 (drop 8 r))))"

fun bt_absolute :: "u64 \<Rightarrow> bt_entry list \<Rightarrow> bus_access list" where
  "bt_absolute base [] = []"
| "bt_absolute base ((d, a, v, r, p) # es) =
     \<lparr>acc_cycle = base + ucast d, acc_addr = a, acc_val = v, acc_rw = r, acc_pc = p\<rparr>
       # bt_absolute (base + ucast d) es"

definition bt_read :: "u8 list \<Rightarrow> (u64 \<times> bus_access list) option" where
  "bt_read f =
     (let n = length f; recs = take (n - 32) (drop 16 f); tr = drop (n - 16) f;
          k = (n - 32) div 10
      in if 32 \<le> n \<and> (n - 32) mod 10 = 0 \<and> take 4 f = [0x52, 0x42, 0x54, 0x31]
            \<and> take 2 (drop 4 f) = put_u16 1 \<and> f ! 6 = 10
            \<and> take 4 tr = [0x52, 0x42, 0x54, 0x65]
            \<and> le_val (take 8 (drop 4 tr)) = k
            \<and> word_of_nat (le_val (drop 12 tr)) = revice_bustrace_crc32 0 recs
         then Some (word_of_nat (le_val (take 8 (drop 8 f))),
                    bt_absolute 0 (map bt_read_record (chop 10 k recs)))
         else None)"

interpretation record_codec:
  byte_codec "\<lambda>(d, a, v, r, p). bt_record d a v r p" bt_read_record 10
  by unfold_locales (auto simp: bt_record_def bt_read_record_def wire_simps nth_append)

fun bt_entries :: "u64 \<Rightarrow> bus_access list \<Rightarrow> bt_entry list" where
  "bt_entries l [] = []"
| "bt_entries l (a # as) =
     (bt_delta l (acc_cycle a), acc_addr a, acc_val a, acc_rw a, acc_pc a)
       # bt_entries (acc_cycle a) as"

lemma length_bt_entries [simp]: "length (bt_entries l as) = length as"
  by (induction as arbitrary: l) auto

lemma bt_records_concat:
  "bt_records l as = concat (map (\<lambda>(d, a, v, r, p). bt_record d a v r p) (bt_entries l as))"
  by (induction as arbitrary: l) auto

lemma bt_records_read:
  "map bt_read_record (chop 10 (length as) (bt_records l as)) = bt_entries l as"
  using record_codec.stream_dec [of "bt_entries l as" "[]"]
  by (simp add: bt_records_concat)

text \<open>The recorded cycles survive when the clock is monotone and no gap saturates.\<close>

fun bt_clocked :: "u64 \<Rightarrow> bus_access list \<Rightarrow> bool" where
  "bt_clocked l [] = True"
| "bt_clocked l (a # as) =
     (l \<le> acc_cycle a \<and> acc_cycle a - l \<le> 0xffffffff \<and> bt_clocked (acc_cycle a) as)"

text \<open>
  The cycles a reader reconstructs from any accesses: the running sum of the gaps, a gap back in time
  counting as none and one of more than 32 bits as the largest there is.
\<close>

definition bt_gap :: "u64 \<Rightarrow> u64 \<Rightarrow> nat" where
  "bt_gap l c = min (unat c - unat l) (2 ^ 32 - 1)"

fun bt_resummed :: "u64 \<Rightarrow> u64 \<Rightarrow> bus_access list \<Rightarrow> bus_access list" where
  "bt_resummed t l [] = []"
| "bt_resummed t l (a # as) =
     (let t = t + of_nat (bt_gap l (acc_cycle a)) in a\<lparr>acc_cycle := t\<rparr> # bt_resummed t (acc_cycle a) as)"

lemma bt_delta_gap: "(ucast (bt_delta l c) :: u64) = of_nat (bt_gap l c)"
proof -
  define d where "d = (if l \<le> c then c - l else 0)"
  have d: "unat d = unat c - unat l" by (simp add: d_def unat_sub word_le_nat_alt)
  define w where "w = (if 0xffffffff < d then 0xffffffff else d)"
  have max: "unat (0xffffffff :: u64) = 2 ^ 32 - 1" by simp
  have w: "unat w = bt_gap l c"
    unfolding bt_gap_def d [symmetric] w_def using max by (simp add: word_less_nat_alt)
  have "bt_gap l c \<le> 2 ^ 32 - 1" by (simp add: bt_gap_def)
  then have "unat (ucast (ucast w :: u32) :: u64) = bt_gap l c"
    using w by (simp add: unsigned_ucast_eq unsigned_take_bit_eq take_bit_nat_eq_self)
  moreover have "bt_delta l c = ucast w" by (simp add: bt_delta_def Let_def d_def w_def)
  ultimately show ?thesis by (metis of_nat_unat ucast_id)
qed

lemma bt_absolute_resummed: "bt_absolute t (bt_entries l as) = bt_resummed t l as"
  by (induction as arbitrary: t l) (simp_all add: bt_delta_gap Let_def)

lemma bt_gap_exact:
  assumes "l \<le> c" "c - l \<le> 0xffffffff"
  shows "l + of_nat (bt_gap l c) = c"
proof -
  have "unat (c - l) = unat c - unat l" using assms(1) by (simp add: unat_sub)
  moreover have "unat (c - l) \<le> 2 ^ 32 - 1" using assms(2) by (simp add: word_le_nat_alt)
  ultimately have "bt_gap l c = unat (c - l)" by (simp add: bt_gap_def)
  then show ?thesis by simp
qed

lemma bt_resummed_clocked: "bt_clocked l as \<Longrightarrow> bt_resummed l l as = as"
  by (induction as arbitrary: l) (simp_all add: bt_gap_exact Let_def)

lemma bt_trace_parts:
  "length (bt_trace cps as) = 32 + 10 * length as"
  "take (10 * length as) (drop 16 (bt_trace cps as)) = bt_records 0 as"
  "drop (16 + 10 * length as) (bt_trace cps as)
     = bt_trailer (of_nat (length as)) (revice_bustrace_crc32 0 (bt_records 0 as))"
  by (simp_all add: bt_trace_def)

lemma bt_read_trace:
  assumes "length as < 2 ^ 64"
  shows "bt_read (bt_trace cps as) = Some (cps, bt_absolute 0 (bt_entries 0 as))"
proof -
  let ?f = "bt_trace cps as"
  have f: "?f = bt_header cps @ bt_records 0 as
     @ bt_trailer (of_nat (length as)) (revice_bustrace_crc32 0 (bt_records 0 as))"
    by (simp add: bt_trace_def)
  have hd: "take 4 ?f = [0x52, 0x42, 0x54, 0x31]" "take 2 (drop 4 ?f) = put_u16 1" "?f ! 6 = 10"
    "take 8 (drop 8 ?f) = put_u64 cps"
    by (simp_all add: f bt_header_def nth_append)
  have tr: "take 4 (bt_trailer n c) = [0x52, 0x42, 0x54, 0x65]"
    "take 8 (drop 4 (bt_trailer n c)) = put_u64 n" "drop 12 (bt_trailer n c) = put_u32 c" for n c
    by (simp_all add: bt_trailer_def)
  have "unat (of_nat (length as) :: u64) = length as"
    using assms by (simp add: unat_of_nat)
  then show ?thesis
    by (simp add: bt_read_def Let_def bt_trace_parts hd tr wire_simps bt_records_read del: drop_drop)
qed

lemma bt_read_length_records:
  "bt_read f = Some r \<Longrightarrow>
     revice_bustrace_crc32 0 (take (length f - 32) (drop 16 f))
       = word_of_nat (le_val (drop 12 (drop (length f - 16) f)))"
  by (auto simp: bt_read_def Let_def split: if_splits)

text \<open>A change inside the record area leaves header, trailer and length alone.\<close>

lemma record_area_update:
  assumes "16 \<le> i" "i < length f - 16"
  shows "take (length f - 32) (drop 16 (f[i := b])) = (take (length f - 32) (drop 16 f))[i - 16 := b]"
    "drop (length f - 16) (f[i := b]) = drop (length f - 16) f"
  using assms by (simp_all add: drop_update_swap drop_update_cancel take_update_swap)

lemma bt_read_byte_change:
  assumes ok: "bt_read f \<noteq> None" and i: "16 \<le> i" "i < length f - 16" and b: "b \<noteq> f ! i"
  shows "bt_read (f[i := b]) = None"
proof (rule ccontr)
  assume "bt_read (f[i := b]) \<noteq> None"
  then obtain r where "bt_read (f[i := b]) = Some r" by auto
  from bt_read_length_records [OF this] i
  have "revice_bustrace_crc32 0 ((take (length f - 32) (drop 16 f))[i - 16 := b])
      = word_of_nat (le_val (drop 12 (drop (length f - 16) f)))"
    by (simp only: record_area_update length_list_update)
  also have "\<dots> = revice_bustrace_crc32 0 (take (length f - 32) (drop 16 f))"
    using ok bt_read_length_records by (metis not_None_eq)
  finally show False
    using crc32_byte_change [of "i - 16" "take (length f - 32) (drop 16 f)" b 0] i b by simp
qed

section \<open>Properties\<close>

text \<open>
  The bytes a host has received when it does nothing but collect the emitted spans, the sink of
  the statements below; the file of \<open>soundbustrace.c\<close> is the sink of theory
  \<open>Bustrace_Adapter\<close>.
\<close>

definition bt_capture :: "u64 \<Rightarrow> bus_access list \<Rightarrow> u8 list" where
  "bt_capture cps as = snd (bt_session cps (Some (\<lambda>_ bs out. out @ bs)) () as [])"

interpretation list_sink: append_sink "\<lambda>(_ :: unit) bs out. out @ bs" "()" "\<lambda>out. out"
  by unfold_locales simp

lemma bt_capture_trace: "bt_capture cps as = bt_trace cps as"
  using list_sink.contents_session by (simp add: bt_capture_def)

text \<open>C9: A session's trace reads back as the accesses observed, with the clock rate, every address, value,
  flag and PC, and the cycles as the running sum of the gaps: exact when the clock is monotone and no
  gap exceeds 32 bits, and else with a step back counted as no gap and a longer gap as the largest.\<close>

theorem bt_roundtrip:
  assumes "length as < 2 ^ 64"
  shows "bt_read (bt_capture cps as) = Some (cps, bt_resummed 0 0 as) \<and>
    (bt_clocked 0 as \<longrightarrow> bt_read (bt_capture cps as) = Some (cps, as))"
  using assms by (simp add: bt_capture_trace bt_read_trace bt_absolute_resummed bt_resummed_clocked)

theorem bt_roundtrip_witness:
  "let as = [\<lparr>acc_cycle = 7, acc_addr = 0xd400, acc_val = 0x21, acc_rw = 1, acc_pc = 0x1003\<rparr>,
             \<lparr>acc_cycle = 9, acc_addr = 0xd404, acc_val = 0x41, acc_rw = 1, acc_pc = 0x1006\<rparr>]
   in bt_read (bt_capture 985248 as) = Some (985248, as)"
  unfolding Let_def by (rule bt_roundtrip [THEN conjunct2, rule_format]) simp_all

text \<open>C34: A session's trace in which one byte of the record area has been changed is rejected by
  the reader, whatever the byte, its position and the accesses.\<close>

theorem bt_corruption_detected:
  assumes "length as < 2 ^ 64"
    and "16 \<le> i" and "i < 16 + 10 * length as" and "b \<noteq> bt_capture cps as ! i"
  shows "bt_read ((bt_capture cps as)[i := b]) = None"
proof (rule bt_read_byte_change)
  show "bt_read (bt_capture cps as) \<noteq> None"
    using assms(1) by (simp add: bt_capture_trace bt_read_trace)
  show "i < length (bt_capture cps as) - 16"
    using assms(3) by (simp add: bt_capture_trace bt_trace_parts)
qed (use assms in simp_all)

theorem bt_corruption_detected_witness:
  "bt_read ((bt_capture 0 [\<lparr>acc_cycle = 7, acc_addr = 0xd400, acc_val = 0x21, acc_rw = 1,
     acc_pc = 0x1003\<rparr>])[22 := 0x20]) = None"
  by (rule bt_corruption_detected)
    (simp_all add: bt_capture_trace bt_trace_def bt_header_def bt_record_def nth_append)

text \<open>The bit-at-a-time CRC of the code is the table-driven CRC-32 of the literature.\<close>

theorem crc32_table:
  "revice_bustrace_crc32 seed buf = NOT (fold crc_byte_table buf (NOT seed))"
proof -
  have "crc_byte = crc_byte_table" by (intro ext) (rule crc_byte_eq_table)
  then show ?thesis by (simp add: revice_bustrace_crc32_def)
qed

text \<open>Once the trailer is written the trace is closed: a further end or access emits nothing
  and changes no state.\<close>

theorem bt_end_closes:
  "revice_bustrace_end (revice_bustrace_end s) = revice_bustrace_end s \<and>
   revice_bustrace_access a (revice_bustrace_end s) = revice_bustrace_end s"
  by (cases s) (auto simp: revice_bustrace_end_def revice_bustrace_access_def Let_def)

end
