(* ===== verification/Bustrace_Adapter.thy ===== *)
theory Bustrace_Adapter
  imports Bustrace Clib
begin

text \<open>
  The VICE adapter \<open>libs/bustrace/vice/soundbustrace.c\<close>: its static state, the lazily opened
  trace file, the per-access hook, the resource setter and the shutdown. The file system is part
  of the model's world: \<open>fopen\<close> with mode \<open>wb\<close> creates or truncates, \<open>fwrite\<close> appends, and
  a file is identified by its name. Short writes are not modelled. The clock, the PC and the
  cycles per second are values VICE supplies; \<open>util_string_set\<close> is VICE's and a parameter.
\<close>

section \<open>World and statics\<close>

record bt_world =
  w_files :: "string \<Rightarrow> u8 list option"
  w_openable :: "string \<Rightarrow> bool"
  w_log :: "string list"

record bt_statics =
  bustrace_filename :: "string option"
  bustrace_fd :: "string option"
  bustrace_core :: "(string option, bt_world) revice_bustrace"
  bustrace_open :: int

definition file_bytes :: "string \<Rightarrow> bt_world \<Rightarrow> u8 list" where
  "file_bytes f w = (case w_files w f of None \<Rightarrow> [] | Some bs \<Rightarrow> bs)"

definition fopen_wb :: "string \<Rightarrow> bt_world \<Rightarrow> string option \<times> bt_world" where
  "fopen_wb f w =
     (if w_openable w f then (Some f, w\<lparr>w_files := (w_files w)(f \<mapsto> [])\<rparr>) else (None, w))"

definition fwrite :: "u8 list \<Rightarrow> string \<Rightarrow> bt_world \<Rightarrow> bt_world" where
  "fwrite buf f w = w\<lparr>w_files := (w_files w)(f \<mapsto> file_bytes f w @ buf)\<rparr>"

definition log_message :: "string \<Rightarrow> bt_world \<Rightarrow> bt_world" where
  "log_message m w = w\<lparr>w_log := w_log w @ [m]\<rparr>"

section \<open>Operations\<close>

definition bustrace_file_emit :: "string option \<Rightarrow> u8 list \<Rightarrow> bt_world \<Rightarrow> bt_world" where
  "bustrace_file_emit f buf w =
     (case f of None \<Rightarrow> w | Some f \<Rightarrow> if 0 < length buf then fwrite buf f w else w)"

definition named :: "string option \<Rightarrow> bool" where
  \<comment> \<open>neither \<open>NULL\<close> nor the empty string\<close>
  "named name = (name \<noteq> None \<and> name \<noteq> Some [])"

definition bustrace_ensure_open :: "int \<Rightarrow> bt_statics \<times> bt_world \<Rightarrow> bt_statics \<times> bt_world" where
  "bustrace_ensure_open cps = (\<lambda>(s, w).
     if bustrace_open s \<noteq> 0 then (s, w)
     else if \<not> named (bustrace_filename s) then (s, w)
     else
       let name = the (bustrace_filename s);
           (fd, w) = fopen_wb name w;
           s = s\<lparr>bustrace_fd := fd\<rparr>
       in if fd = None
          then (s\<lparr>bustrace_open := -1\<rparr>,
                log_message (''bustrace: cannot open '' @ [CHR 0x27] @ name @ [CHR 0x27]) w)
          else
            let (core, w) = revice_bustrace_begin (of_int cps) (Some bustrace_file_emit) fd w
            in (s\<lparr>bustrace_core := core, bustrace_open := 1\<rparr>,
                log_message (''bustrace: writing CPU bus trace to '' @ [CHR 0x27] @ name @ [CHR 0x27]) w))"

definition bustrace_observe_access ::
    "int \<Rightarrow> bus_access \<Rightarrow> bt_statics \<times> bt_world \<Rightarrow> bt_statics \<times> bt_world" where
  \<comment> \<open>the clock and the PC of the access are the ones VICE's globals hold\<close>
  "bustrace_observe_access cps a = (\<lambda>(s, w).
     if \<not> named (bustrace_filename s) then (s, w)
     else
       let (s, w) = (if bustrace_open s = 0 then bustrace_ensure_open cps (s, w) else (s, w))
       in if bustrace_open s \<noteq> 1 then (s, w)
          else
            let (core, w) = revice_bustrace_access a (bustrace_core s, w)
            in (s\<lparr>bustrace_core := core\<rparr>, w))"

definition bustrace_is_enabled :: "bt_statics \<Rightarrow> bool" where
  "bustrace_is_enabled s = named (bustrace_filename s)"

definition bustrace_shutdown :: "bt_statics \<times> bt_world \<Rightarrow> bt_statics \<times> bt_world" where
  "bustrace_shutdown = (\<lambda>(s, w).
     let (s, w) =
       (if bustrace_open s = 1 then
          let (core, w) = revice_bustrace_end (bustrace_core s, w)
          in (s\<lparr>bustrace_core := core\<rparr>,
              log_message (''bustrace: '' @ show_nat (unat (bt_rec_count core)) @ '' records written'') w)
        else (s, w))
     in (s\<lparr>bustrace_fd := None, bustrace_open := 0, bustrace_filename := None\<rparr>, w))"

definition set_bustrace_filename ::
    "(string option \<Rightarrow> string option \<Rightarrow> int \<times> string option) \<Rightarrow> string option \<Rightarrow>
       bt_statics \<times> bt_world \<Rightarrow> int \<times> bt_statics \<times> bt_world" where
  "set_bustrace_filename util_string_set val = (\<lambda>(s, w).
     let (s, w) =
           (if bustrace_open s = 1 then
              let (core, w) = revice_bustrace_end (bustrace_core s, w)
              in (s\<lparr>bustrace_core := core\<rparr>, w)
            else (s, w));
         (r, name) = util_string_set (bustrace_filename s) val
     in (r, s\<lparr>bustrace_fd := None, bustrace_open := 0, bustrace_filename := name\<rparr>, w))"

section \<open>Registration\<close>

text \<open>The tables handed to VICE's \<open>resources_register_string\<close> and \<open>cmdline_register_options\<close>, which are
  parameters. A list in HOL needs no end marker.\<close>

record resource_string_t =
  res_name :: string
  res_factory_value :: string
  res_event_relevant :: bool
  res_set_func :: "string option \<Rightarrow> bt_statics \<times> bt_world \<Rightarrow> int \<times> bt_statics \<times> bt_world"

definition resources_string ::
    "(string option \<Rightarrow> string option \<Rightarrow> int \<times> string option) \<Rightarrow> resource_string_t list" where
  "resources_string util_string_set =
     [\<lparr>res_name = ''BusTraceFile'', res_factory_value = '''', res_event_relevant = False,
       res_set_func = set_bustrace_filename util_string_set\<rparr>]"

definition bustrace_resources_init ::
    "(resource_string_t list \<Rightarrow> 'v \<Rightarrow> int \<times> 'v) \<Rightarrow> (string option \<Rightarrow> string option \<Rightarrow> int \<times> string option) \<Rightarrow>
       'v \<Rightarrow> int \<times> 'v" where
  "bustrace_resources_init resources_register_string util_string_set =
     resources_register_string (resources_string util_string_set)"

datatype cmdline_action = SET_RESOURCE

record cmdline_option_t =
  opt_name :: string
  opt_action :: cmdline_action
  opt_need_args :: bool
  opt_resource_name :: string
  opt_param_name :: string
  opt_description :: string

definition cmdline_options :: "cmdline_option_t list" where
  "cmdline_options =
     [\<lparr>opt_name = ''-bustrace'', opt_action = SET_RESOURCE, opt_need_args = True,
       opt_resource_name = ''BusTraceFile'', opt_param_name = ''<Name>'',
       opt_description = ''Write a deterministic CPU bus trace to <Name> (additive; '' @
         ''does not affect the SID register dump)''\<rparr>]"

definition bustrace_cmdline_options_init :: "(cmdline_option_t list \<Rightarrow> 'v \<Rightarrow> int \<times> 'v) \<Rightarrow> 'v \<Rightarrow> int \<times> 'v" where
  "bustrace_cmdline_options_init cmdline_register_options = cmdline_register_options cmdline_options"

text \<open>Every option that sets a resource names one of the table, whose setter is the file name's.\<close>

lemma options_name_resources:
  "opt \<in> set cmdline_options \<Longrightarrow>
     \<exists>r\<in>set (resources_string u). res_name r = opt_resource_name opt \<and> res_set_func r = set_bustrace_filename u"
  by (simp add: cmdline_options_def resources_string_def)

section \<open>The file as the serializer's sink\<close>

lemma file_bytes_simps [simp]:
  "file_bytes f (fwrite bs f w) = file_bytes f w @ bs"
  "g \<noteq> f \<Longrightarrow> w_files (fwrite bs f w) g = w_files w g"
  "file_bytes f (log_message m w) = file_bytes f w"
  "w_files (log_message m w) = w_files w"
  by (simp_all add: file_bytes_def fwrite_def log_message_def)

interpretation file_sink: append_sink bustrace_file_emit "Some f" "file_bytes f" for f
  by unfold_locales (simp add: bustrace_file_emit_def)

section \<open>Traces on disk\<close>

text \<open>
  A closed file holds a complete trace; the file being written holds the header and the
  records so far, and the core's count and CRC are theirs.
\<close>

definition writing :: "string \<Rightarrow> bt_statics \<Rightarrow> bt_world \<Rightarrow> u64 \<Rightarrow> bus_access list \<Rightarrow> bool" where
  "writing f s w cps as \<longleftrightarrow>
     bt_started (bustrace_core s) \<and> bt_emit (bustrace_core s) = Some bustrace_file_emit \<and>
     bt_ctx (bustrace_core s) = Some f \<and>
     bt_last_cycle (bustrace_core s) = (if as = [] then 0 else acc_cycle (last as)) \<and>
     bt_rec_count (bustrace_core s) = of_nat (length as) \<and>
     bt_crc (bustrace_core s) = revice_bustrace_crc32 0 (bt_records 0 as) \<and>
     w_files w f = Some (bt_header cps @ bt_records 0 as)"

definition bt_inv :: "bt_statics \<times> bt_world \<Rightarrow> bool" where
  "bt_inv = (\<lambda>(s, w).
     (if bustrace_open s = 1
      then \<exists>f cps as. bustrace_fd s = Some f \<and> writing f s w cps as
      else bustrace_fd s = None) \<and>
     (\<forall>g bs. w_files w g = Some bs \<and> bustrace_fd s \<noteq> Some g \<longrightarrow> (\<exists>cps as. bs = bt_trace cps as)))"

lemma bt_records_snoc:
  "bt_records l (as @ [a]) = bt_records l as @
     bt_record (bt_delta (if as = [] then l else acc_cycle (last as)) (acc_cycle a))
       (acc_addr a) (acc_val a) (acc_rw a) (acc_pc a)"
  by (induction as arbitrary: l) auto

lemma emit_fwrite: "0 < length bs \<Longrightarrow> bustrace_file_emit (Some f) bs w = fwrite bs f w"
  by (simp add: bustrace_file_emit_def)

lemma w_files_fwrite: "w_files w f = Some xs \<Longrightarrow> w_files (fwrite bs f w) f = Some (xs @ bs)"
  by (simp add: fwrite_def file_bytes_def)

lemma writing_access:
  assumes "writing f s w cps as" "revice_bustrace_access a (bustrace_core s, w) = (core, w')"
  shows "writing f (s\<lparr>bustrace_core := core\<rparr>) w' cps (as @ [a]) \<and> (\<forall>g. g \<noteq> f \<longrightarrow> w_files w' g = w_files w g)"
  using assms
  by (auto simp: writing_def revice_bustrace_access_def Let_def bt_emit_span_def emit_fwrite
      w_files_fwrite bt_records_snoc crc32_append split: if_splits)

lemma writing_end:
  assumes "writing f s w cps as" "revice_bustrace_end (bustrace_core s, w) = (core, w')"
  shows "w_files w' f = Some (bt_trace cps as) \<and> (\<forall>g. g \<noteq> f \<longrightarrow> w_files w' g = w_files w g) \<and>
    bt_rec_count core = of_nat (length as)"
  using assms
  by (auto simp: writing_def revice_bustrace_end_def Let_def bt_emit_span_def emit_fwrite
      w_files_fwrite bt_trace_def)

lemma writing_begin:
  assumes "fopen_wb f w = (Some f, w1)"
    "revice_bustrace_begin (of_int cps) (Some bustrace_file_emit) (Some f) w1 = (core, w2)"
  shows "writing f (s\<lparr>bustrace_core := core\<rparr>) w2 (of_int cps) [] \<and>
    (\<forall>g. g \<noteq> f \<longrightarrow> w_files w2 g = w_files w g)"
  using assms
  by (auto simp: writing_def fopen_wb_def revice_bustrace_begin_def Let_def bt_emit_span_def
      emit_fwrite w_files_fwrite split: if_splits)

lemma writing_fields:
  "writing f (s\<lparr>bustrace_open := i\<rparr>) = writing f s"
  "writing f (s\<lparr>bustrace_fd := d\<rparr>) = writing f s"
  "writing f s (log_message m w) = writing f s w"
  by (intro ext, simp add: writing_def)+

lemma inv_ensure_open:
  assumes "bt_inv (s, w)"
  shows "bt_inv (bustrace_ensure_open cps (s, w))"
proof (cases "bustrace_open s = 0 \<and> named (bustrace_filename s)")
  case False
  then have "bustrace_ensure_open cps (s, w) = (s, w)"
    by (auto simp: bustrace_ensure_open_def)
  with assms show ?thesis by simp
next
  case True
  then obtain f where f: "bustrace_filename s = Some f" by (auto simp: named_def)
  show ?thesis
  proof (cases "w_openable w f")
    case False
    then have "fopen_wb f w = (None, w)" by (simp add: fopen_wb_def)
    with True f assms show ?thesis
      by (simp add: bustrace_ensure_open_def bt_inv_def split: if_splits)
  next
    case op: True
    then obtain w1 where w1: "fopen_wb f w = (Some f, w1)" by (simp add: fopen_wb_def)
    obtain core w2 where b:
      "revice_bustrace_begin (of_int cps) (Some bustrace_file_emit) (Some f) w1 = (core, w2)"
      by fastforce
    have wr: "writing f (s\<lparr>bustrace_core := core\<rparr>) w2 (of_int cps) []"
      "\<forall>g. g \<noteq> f \<longrightarrow> w_files w2 g = w_files w g"
      using writing_begin [OF w1 b, of s] by auto
    have "writing f (s\<lparr>bustrace_fd := Some f, bustrace_core := core, bustrace_open := 1\<rparr>) w2 (of_int cps) []"
      using wr(1) by (simp add: writing_def)
    with True f w1 b wr(2) assms show ?thesis
      by (auto simp: bustrace_ensure_open_def bt_inv_def Let_def writing_fields split: if_splits)
  qed
qed

lemma inv_observe:
  assumes "bt_inv (s, w)"
  shows "bt_inv (bustrace_observe_access cps a (s, w))"
proof -
  have acc: "bt_inv (let (core, w) = revice_bustrace_access a (bustrace_core s, w)
      in (s\<lparr>bustrace_core := core\<rparr>, w))"
    if inv: "bt_inv (s, w)" "bustrace_open s = 1" for s w
  proof -
    from inv obtain f cps as where f: "bustrace_fd s = Some f" "writing f s w cps as"
      by (auto simp: bt_inv_def)
    obtain core w' where c: "revice_bustrace_access a (bustrace_core s, w) = (core, w')" by fastforce
    from writing_access [OF f(2) c] inv f(1) c show ?thesis
      by (auto simp: bt_inv_def)
  qed
  obtain s1 w1 where e: "bustrace_ensure_open cps (s, w) = (s1, w1)" by fastforce
  then have "bt_inv (s1, w1)" using inv_ensure_open [OF assms, of cps] by simp
  with assms e show ?thesis
    by (auto simp: bustrace_observe_access_def Let_def dest: acc split: prod.splits)
qed

lemma inv_close:
  assumes "bt_inv (s, w)" "bustrace_open s = 1"
    "revice_bustrace_end (bustrace_core s, w) = (core, w')"
  shows "w_files w' g = Some bs \<Longrightarrow> \<exists>cps as. bs = bt_trace cps as"
proof -
  assume g: "w_files w' g = Some bs"
  from assms(1,2) obtain f cps as where f: "bustrace_fd s = Some f" "writing f s w cps as"
    by (auto simp: bt_inv_def)
  from writing_end [OF f(2) assms(3)] g assms(1) f(1) show ?thesis
    by (cases "g = f") (auto simp: bt_inv_def)
qed

lemma inv_closed:
  "bustrace_open s = 0 \<Longrightarrow> bustrace_fd s = None \<Longrightarrow>
     bt_inv (s, w) \<longleftrightarrow> (\<forall>g bs. w_files w g = Some bs \<longrightarrow> (\<exists>cps as. bs = bt_trace cps as))"
  by (simp add: bt_inv_def)

lemma inv_shutdown:
  assumes "bt_inv (s, w)"
  shows "bt_inv (bustrace_shutdown (s, w))"
proof (cases "bustrace_open s = 1")
  case True
  obtain core w' where e: "revice_bustrace_end (bustrace_core s, w) = (core, w')" by fastforce
  with True inv_close [OF assms True e] show ?thesis
    by (simp add: bustrace_shutdown_def inv_closed)
next
  case False
  with assms show ?thesis by (simp add: bustrace_shutdown_def inv_closed bt_inv_def)
qed

lemma inv_set_filename:
  assumes "bt_inv (s, w)"
  shows "bt_inv (snd (set_bustrace_filename util val (s, w)))"
proof (cases "bustrace_open s = 1")
  case True
  obtain core w' where e: "revice_bustrace_end (bustrace_core s, w) = (core, w')" by fastforce
  with True inv_close [OF assms True e] show ?thesis
    by (simp add: set_bustrace_filename_def inv_closed split: prod.splits)
next
  case False
  with assms show ?thesis
    by (simp add: set_bustrace_filename_def inv_closed split: prod.splits)
      (auto simp: bt_inv_def)
qed

section \<open>Sessions\<close>

text \<open>What VICE does to the adapter, in any order.\<close>

datatype bt_event = Observe int bus_access | Set_Name "string option" | Shutdown

definition bt_step ::
    "(string option \<Rightarrow> string option \<Rightarrow> int \<times> string option) \<Rightarrow> bt_event \<Rightarrow>
       bt_statics \<times> bt_world \<Rightarrow> bt_statics \<times> bt_world" where
  "bt_step util e s =
     (case e of Observe cps a \<Rightarrow> bustrace_observe_access cps a s
      | Set_Name val \<Rightarrow> snd (set_bustrace_filename util val s)
      | Shutdown \<Rightarrow> bustrace_shutdown s)"

lemma inv_step: "bt_inv s \<Longrightarrow> bt_inv (bt_step util e s)"
  by (cases s) (auto simp: bt_step_def inv_observe inv_set_filename inv_shutdown split: bt_event.splits)

lemma inv_steps: "bt_inv s \<Longrightarrow> bt_inv (fold (bt_step util) es s)"
  by (induction es arbitrary: s) (simp_all add: inv_step)

lemma shutdown_fd: "bustrace_fd (fst (bustrace_shutdown s)) = None"
  by (cases s) (simp add: bustrace_shutdown_def Let_def split: prod.splits)

lemma observe_writing:
  assumes "bustrace_open s = 1" "named (bustrace_filename s)" "writing f s w cps as"
  shows "\<exists>s' w'. bustrace_observe_access c a (s, w) = (s', w') \<and> bustrace_open s' = 1 \<and>
     bustrace_filename s' = bustrace_filename s \<and> writing f s' w' cps (as @ [a])"
proof -
  obtain core w' where e: "revice_bustrace_access a (bustrace_core s, w) = (core, w')" by fastforce
  from writing_access [OF assms(3) e] assms(1,2) e show ?thesis
    by (simp add: bustrace_observe_access_def)
qed

lemma observes_writing:
  assumes "bustrace_open s = 1" "named (bustrace_filename s)" "writing f s w cps as"
  shows "\<exists>s' w'. fold (bustrace_observe_access c) bs (s, w) = (s', w') \<and> bustrace_open s' = 1 \<and>
     writing f s' w' cps (as @ bs)"
  using assms
proof (induction bs arbitrary: s w as)
  case Nil
  then show ?case by simp
next
  case (Cons b bs)
  from observe_writing [OF Cons.prems, of c b] obtain s1 w1 where
    "bustrace_observe_access c b (s, w) = (s1, w1)" "bustrace_open s1 = 1"
    "named (bustrace_filename s1)" "writing f s1 w1 cps (as @ [b])"
    using Cons.prems(2) by auto
  with Cons.IH [of s1 w1 "as @ [b]"] show ?case by simp
qed

lemma ensure_open_writing:
  assumes "bustrace_open s = 0" "bustrace_filename s = Some f" "f \<noteq> []" "w_openable w f"
  shows "\<exists>s' w'. bustrace_ensure_open c (s, w) = (s', w') \<and> bustrace_open s' = 1 \<and>
     bustrace_filename s' = Some f \<and> writing f s' w' (of_int c) []"
proof -
  obtain w1 where w1: "fopen_wb f w = (Some f, w1)" using assms(4) by (simp add: fopen_wb_def)
  obtain core w2 where b:
    "revice_bustrace_begin (of_int c) (Some bustrace_file_emit) (Some f) w1 = (core, w2)"
    by fastforce
  have "writing f (s\<lparr>bustrace_fd := Some f, bustrace_core := core, bustrace_open := 1\<rparr>) w2 (of_int c) []"
    using writing_begin [OF w1 b, of s] by (simp add: writing_def)
  then show ?thesis
    using assms w1 b by (simp add: bustrace_ensure_open_def named_def writing_fields)
qed

section \<open>Properties\<close>

text \<open>C18: From a fresh start, after any sequence of observed accesses, retargetings and
  shutdowns, every file the adapter has written and is not still writing is byte for byte the
  trace of some access sequence: header, records, trailer.\<close>

theorem bustrace_files_complete:
  assumes "bustrace_open s = 0" and "bustrace_fd s = None" and "w_files w = Map.empty"
    and "fold (bt_step util) es (s, w) = (s', w')"
    and "w_files w' g = Some bs" and "bustrace_fd s' \<noteq> Some g"
  shows "\<exists>cps as. bs = bt_capture cps as"
proof -
  have "bt_inv (s, w)" using assms(1-3) by (simp add: inv_closed)
  from inv_steps [OF this, of util es] assms(4) have "bt_inv (s', w')" by simp
  with assms(5,6) show ?thesis by (auto simp: bt_inv_def bt_capture_trace)
qed

theorem bustrace_files_complete_witness:
  "let w = \<lparr>w_files = Map.empty, w_openable = \<lambda>_. True, w_log = []\<rparr>;
       s = \<lparr>bustrace_filename = Some ''t'', bustrace_fd = None,
            bustrace_core = fst (revice_bustrace_begin 0 None None w), bustrace_open = 0\<rparr>;
       a = \<lparr>acc_cycle = 7, acc_addr = 0xd400, acc_val = 1, acc_rw = 1, acc_pc = 0x1000\<rparr>;
       (s', w') = fold (bt_step (\<lambda>old new. (0, new))) [Observe 985248 a, Set_Name None] (s, w)
   in w_files w' ''t'' \<noteq> None \<and> (\<exists>cps as. the (w_files w' ''t'') = bt_capture cps as)"
proof -
  define w where "w = \<lparr>w_files = Map.empty, w_openable = \<lambda>_. True, w_log = []\<rparr>"
  define s where "s = \<lparr>bustrace_filename = Some ''t'', bustrace_fd = None,
    bustrace_core = fst (revice_bustrace_begin 0 None None w), bustrace_open = 0\<rparr>"
  define a where "a = \<lparr>acc_cycle = 7, acc_addr = 0xd400, acc_val = 1, acc_rw = 1, acc_pc = 0x1000\<rparr>"
  obtain s' w' where f:
    "fold (bt_step (\<lambda>old new. (0, new))) [Observe 985248 a, Set_Name None] (s, w) = (s', w')"
    by fastforce
  then have "bustrace_fd s' = None" and "w_files w' ''t'' \<noteq> None"
    by (auto simp: bt_step_def set_bustrace_filename_def bustrace_observe_access_def
        bustrace_ensure_open_def fopen_wb_def named_def s_def w_def Let_def fwrite_def
        revice_bustrace_begin_def revice_bustrace_access_def revice_bustrace_end_def
        bt_emit_span_def bustrace_file_emit_def log_message_def split: prod.splits if_splits)
  moreover have "bustrace_open s = 0" "bustrace_fd s = None" "w_files w = Map.empty"
    by (simp_all add: s_def w_def)
  ultimately show ?thesis
    using bustrace_files_complete [OF _ _ _ f, of "''t''"] f
    unfolding w_def [symmetric] s_def [symmetric] a_def [symmetric] Let_def by auto
qed

text \<open>Tracing a whole run to an openable file leaves exactly that run's trace in the file,
  whatever the file held before.\<close>

theorem bustrace_session_file:
  assumes "bustrace_open s = 0" and "bustrace_filename s = Some f" and "f \<noteq> []"
    and "w_openable w f" and "as \<noteq> []"
  shows "w_files (snd (bustrace_shutdown (fold (bustrace_observe_access cps) as (s, w)))) f
    = Some (bt_capture (of_int cps) as)"
proof -
  obtain a bs where as: "as = a # bs" using assms(5) by (cases as) auto
  obtain s1 w1 where e: "bustrace_ensure_open cps (s, w) = (s1, w1)" "bustrace_open s1 = 1"
    "bustrace_filename s1 = Some f" "writing f s1 w1 (of_int cps) []"
    using ensure_open_writing [OF assms(1-4)] by blast
  have "bustrace_observe_access cps a (s, w) = bustrace_observe_access cps a (s1, w1)"
    using assms(1-3) e by (simp add: bustrace_observe_access_def named_def)
  moreover obtain s2 w2 where f: "fold (bustrace_observe_access cps) as (s1, w1) = (s2, w2)"
    "bustrace_open s2 = 1" "writing f s2 w2 (of_int cps) as"
    using observes_writing [OF e(2) _ e(4), of cps as] e(3) assms(3) by (auto simp: named_def)
  ultimately have "fold (bustrace_observe_access cps) as (s, w) = (s2, w2)" by (simp add: as)
  moreover obtain core w3 where "revice_bustrace_end (bustrace_core s2, w2) = (core, w3)" by fastforce
  ultimately show ?thesis
    using f(2) writing_end [OF f(3)] by (simp add: bustrace_shutdown_def bt_capture_trace)
qed

theorem bustrace_session_file_witness:
  "let w = \<lparr>w_files = Map.empty, w_openable = \<lambda>_. True, w_log = []\<rparr>;
       s = \<lparr>bustrace_filename = Some ''t'', bustrace_fd = None,
            bustrace_core = fst (revice_bustrace_begin 0 None None w), bustrace_open = 0\<rparr>;
       a = \<lparr>acc_cycle = 7, acc_addr = 0xd400, acc_val = 1, acc_rw = 1, acc_pc = 0x1000\<rparr>
   in w_files (snd (bustrace_shutdown (fold (bustrace_observe_access 985248) [a] (s, w)))) ''t''
        = Some (bt_capture (of_int 985248) [a])"
  unfolding Let_def by (rule bustrace_session_file) simp_all

text \<open>With no trace file configured, or after the file could not be opened, observing an
  access changes neither the adapter's state nor the world.\<close>

theorem bustrace_off_transparent:
  assumes "\<not> bustrace_is_enabled s \<or> bustrace_open s = -1"
  shows "bustrace_observe_access cps a (s, w) = (s, w)"
  using assms by (auto simp: bustrace_is_enabled_def bustrace_observe_access_def)

theorem bustrace_off_transparent_witness:
  "let w = \<lparr>w_files = Map.empty, w_openable = \<lambda>_. True, w_log = []\<rparr>;
       s = \<lparr>bustrace_filename = Some [], bustrace_fd = None,
            bustrace_core = fst (revice_bustrace_begin 0 None None w), bustrace_open = 0\<rparr>;
       a = \<lparr>acc_cycle = 7, acc_addr = 0xd400, acc_val = 1, acc_rw = 1, acc_pc = 0x1000\<rparr>
   in bustrace_observe_access 985248 a (s, w) = (s, w)"
  unfolding Let_def by (rule bustrace_off_transparent) (simp add: bustrace_is_enabled_def named_def)

end
