(* ===== verification/Vice_Hooks.thy ===== *)
theory Vice_Hooks
  imports Checkpoint Bustrace_Adapter Asid_Device Keymatrix_Adapter
begin

unbundle bit_operations_syntax

text \<open>
  The call sites that \<open>integration/vice/patches\<close> put into VICE: the silent checkpoints of patches 05 and
  06, the bus hooks of the VSID processor of patch 07, the dispatch of SID writes to a device of patch 04,
  the CIA read hooks of patch 02 and the \<open>keymatrix\<close> verbs of patch 01. What the patched functions call
  in VICE is a parameter; the parts of them that the patches do not show are not modelled.
\<close>

section \<open>Checkpoints\<close>

text \<open>The fields the patched code uses. A command that a hit executes is taken not to change the checkpoint
  itself, and the count not to overflow.\<close>

record mon_checkpoint_t =
  checknum :: int
  hit_count :: int
  cp_stop :: bool
  cp_silent :: bool
  cp_command :: "string option"

record 'v vice_breakpoints =
  mon_breakpoint_event :: "mon_checkpoint_t \<Rightarrow> 'v \<Rightarrow> 'v"
  bp_mon_out :: "string \<Rightarrow> 'v \<Rightarrow> 'v"
  get_line_cycle :: "('v \<Rightarrow> u32 \<times> u32 \<times> int) option"
  mem_bank_from_name :: "(string \<Rightarrow> int) option"
  set_current_bank :: "int \<Rightarrow> 'v \<Rightarrow> 'v"
  mon_disassemble_with_regdump :: "u32 \<Rightarrow> 'v \<Rightarrow> 'v"
  parse_and_execute_line :: "string \<Rightarrow> 'v \<Rightarrow> 'v"

text \<open>Where a checkpoint was hit: the arguments and locals of \<open>mon_breakpoint_check_checkpoint\<close>.\<close>

record cp_hit =
  hit_op_str :: string
  hit_addr :: u32
  hit_loadstore :: bool
  hit_loadstorepc :: u32
  hit_instpc :: u32
  hit_monbank :: int

definition line_cycle_text :: "u32 \<times> u32 \<times> int \<Rightarrow> string" where
  "line_cycle_text = (\<lambda>(line, cycle, half_cycle).
     let s = '' '' @ pad_left 3 CHR '' '' (show_nat (unat line)) @ ''/$'' @ show_hex 3 (unat line) @ '', '' @
           pad_left 3 CHR '' '' (show_nat (unat cycle)) @ ''/$'' @ show_hex 2 (unat cycle)
     in if half_cycle = - 1 then s @ [CHR 0x0A] else s @ '' '' @ show_int half_cycle @ [CHR 0x0A])"

definition cp_report :: "'v vice_breakpoints \<Rightarrow> string \<Rightarrow> cp_hit \<Rightarrow> mon_checkpoint_t \<Rightarrow> 'v \<Rightarrow> 'v" where
  \<comment> \<open>the body of \<open>if (!cp->silent)\<close>\<close>
  "cp_report V action_str hit cp v =
     (let v = mon_breakpoint_event V cp v;
          v = bp_mon_out V (''#'' @ show_int (checknum cp) @ '' ('' @ action_str @ '' '' @
                pad_left 5 CHR '' '' (hit_op_str hit) @ '' '' @ show_hex 4 (unat (hit_addr hit)) @ '') '') v;
          v = bp_mon_out V (case get_line_cycle V of None \<Rightarrow> [CHR 0x0A] | Some f \<Rightarrow> line_cycle_text (f v)) v;
          v = set_current_bank V (case mem_bank_from_name V of None \<Rightarrow> 0 | Some f \<Rightarrow> f ''cpu'') v;
          v = (if hit_loadstore hit then mon_disassemble_with_regdump V (hit_loadstorepc hit) v
               else if \<not> hit_loadstore hit \<or> cp_stop cp then mon_disassemble_with_regdump V (hit_instpc hit) v
               else v);
          v = set_current_bank V (hit_monbank hit) v
      in case cp_command cp of
           None \<Rightarrow> v
         | Some cmd \<Rightarrow> parse_and_execute_line V cmd (bp_mon_out V (''Executing: '' @ cmd @ [CHR 0x0A]) v))"

definition checkpoint_hit ::
    "'v vice_breakpoints \<Rightarrow> cp_hit \<Rightarrow> bool \<times> mon_checkpoint_t \<times> 'v \<Rightarrow> bool \<times> mon_checkpoint_t \<times> 'v" where
  "checkpoint_hit V hit = (\<lambda>(must_stop, cp, v).
     let cp = cp\<lparr>hit_count := hit_count cp + 1\<rparr>;
         (must_stop, action_str) = (if cp_stop cp then (True, ''Stop on'') else (must_stop, ''Trace''));
         v = (if \<not> cp_silent cp then cp_report V action_str hit cp v else v)
     in (must_stop, cp, v))"

definition checkpoint_set_silent :: "u8 list \<Rightarrow> u32 \<Rightarrow> mon_checkpoint_t \<Rightarrow> mon_checkpoint_t option" where
  \<comment> \<open>the flag of a request's body, stored in the checkpoint it made\<close>
  "checkpoint_set_silent body len cp = do {
     silent \<leftarrow> checkpoint_decode_silent (Some body) len;
     Some (cp\<lparr>cp_silent := silent \<noteq> 0\<rparr>)
   }"

text \<open>What the hits of a checkpoint are to report: each one with the count it brings the checkpoint to.\<close>

fun hit_reports :: "'v vice_breakpoints \<Rightarrow> mon_checkpoint_t \<Rightarrow> cp_hit list \<Rightarrow> 'v \<Rightarrow> 'v" where
  "hit_reports V cp [] v = v"
| "hit_reports V cp (h # hs) v =
     (let cp = cp\<lparr>hit_count := hit_count cp + 1\<rparr>
      in hit_reports V cp hs (cp_report V (if cp_stop cp then ''Stop on'' else ''Trace'') h cp v))"

lemma checkpoint_hits:
  "fold (checkpoint_hit V) hits (stop, cp, v) =
     (stop \<or> cp_stop cp \<and> hits \<noteq> [], cp\<lparr>hit_count := hit_count cp + int (length hits)\<rparr>,
      if cp_silent cp then v else hit_reports V cp hits v)"
  by (induction hits arbitrary: stop cp v) (auto simp: checkpoint_hit_def Let_def)

text \<open>C20: A checkpoint set by a request whose body has a tenth byte that is not zero is silent: however often
  it is hit, the hits are counted and stop the machine as for any other checkpoint, and nothing is
  reported. With a zero tenth byte, or the 8 or 9 bytes of the standard body, every hit is reported once,
  with the count it brought the checkpoint to.\<close>

theorem silent_checkpoint:
  assumes "length body < 2 ^ 32"
  shows "\<exists>cp'. checkpoint_set_silent body (of_nat (length body)) cp = Some cp' \<and>
    cp' = cp\<lparr>cp_silent := 10 \<le> length body \<and> body ! 9 \<noteq> 0\<rparr> \<and>
    fold (checkpoint_hit V) hits (False, cp', v) =
      (cp_stop cp \<and> hits \<noteq> [], cp'\<lparr>hit_count := hit_count cp + int (length hits)\<rparr>,
       if 10 \<le> length body \<and> body ! 9 \<noteq> 0 then v else hit_reports V cp' hits v)"
  using checkpoint_silent_iff [OF assms] by (simp add: checkpoint_set_silent_def checkpoint_hits)

definition demo_breakpoints :: "string list vice_breakpoints" where
  "demo_breakpoints =
     \<lparr>mon_breakpoint_event = (\<lambda>cp v. v @ [''event'']), bp_mon_out = (\<lambda>s v. v @ [s]), get_line_cycle = None,
      mem_bank_from_name = None, set_current_bank = (\<lambda>_ v. v), mon_disassemble_with_regdump = (\<lambda>_ v. v),
      parse_and_execute_line = (\<lambda>_ v. v)\<rparr>"

definition demo_checkpoint :: mon_checkpoint_t where
  "demo_checkpoint = \<lparr>checknum = 1, hit_count = 0, cp_stop = False, cp_silent = False, cp_command = Some ''r''\<rparr>"

definition demo_hit :: cp_hit where
  "demo_hit = \<lparr>hit_op_str = ''store'', hit_addr = 0x1000, hit_loadstore = True, hit_loadstorepc = 0x0801,
     hit_instpc = 0x0803, hit_monbank = 0\<rparr>"

lemma silent_checkpoint_witness:
  "\<exists>cp. checkpoint_set_silent [0, 0x10, 0, 0x10, 0, 1, 4, 0, 0, 1] 10 demo_checkpoint = Some cp \<and>
    fold (checkpoint_hit demo_breakpoints) (replicate 3 demo_hit) (False, cp, []) = (False, cp\<lparr>hit_count := 3\<rparr>, [])"
  using silent_checkpoint [of "[0, 0x10, 0, 0x10, 0, 1, 4, 0, 0, 1]" demo_checkpoint demo_breakpoints "replicate 3 demo_hit" "[]"]
  by (simp add: demo_checkpoint_def)

section \<open>The VSID processor's bus\<close>

text \<open>
  The memory functions of \<open>vsidcpu.c\<close> around the hook. The machine is a state with VICE's tables of read
  and write functions, the memory map's marks and opcode flag, and the clock and program counter that
  the hook's adapter reads.
\<close>

record 'm vsid_mem =
  mem_write :: "u16 \<Rightarrow> u8 \<Rightarrow> 'm \<Rightarrow> 'm"
  mem_write_dummy :: "u16 \<Rightarrow> u8 \<Rightarrow> 'm \<Rightarrow> 'm"
  mem_read :: "u16 \<Rightarrow> 'm \<Rightarrow> u8 \<times> 'm"
  mem_read_dummy :: "u16 \<Rightarrow> 'm \<Rightarrow> u8 \<times> 'm"
  memmap_mark_store :: "u32 \<Rightarrow> 'm \<Rightarrow> 'm"
  memmap_mark_read :: "u32 \<Rightarrow> 'm \<Rightarrow> 'm"
  memmap_state_opcode :: "'m \<Rightarrow> bool"
  vsid_maincpu_clk :: "'m \<Rightarrow> u64"
  vsid_reg_pc :: "'m \<Rightarrow> u32"
  vsid_cycles_per_second :: int

type_synonym 'm bus_state = "'m \<times> bt_statics \<times> bt_world"

definition vsid_observe :: "'m vsid_mem \<Rightarrow> u32 \<Rightarrow> u8 \<Rightarrow> u8 \<Rightarrow> 'm bus_state \<Rightarrow> 'm bus_state" where
  \<comment> \<open>the hook at its call sites: the adapter takes the clock and the PC from the machine\<close>
  "vsid_observe M addr val rw_flags = (\<lambda>(m, b).
     (m, bustrace_observe_access (vsid_cycles_per_second M)
       \<lparr>acc_cycle = vsid_maincpu_clk M m, acc_addr = ucast addr, acc_val = val, acc_rw = rw_flags,
        acc_pc = ucast (vsid_reg_pc M m)\<rparr> b))"

definition memmap_mem_store :: "'m vsid_mem \<Rightarrow> u32 \<Rightarrow> u32 \<Rightarrow> 'm bus_state \<Rightarrow> 'm bus_state" where
  "memmap_mem_store M addr value = (\<lambda>(m, b).
     let m = memmap_mark_store M addr m;
         (m, b) = vsid_observe M addr (ucast value) REVICE_BUSTRACE_RW_WRITE (m, b)
     in (mem_write M (ucast addr) (ucast value) m, b))"

definition memmap_mem_store_dummy :: "'m vsid_mem \<Rightarrow> u32 \<Rightarrow> u32 \<Rightarrow> 'm bus_state \<Rightarrow> 'm bus_state" where
  "memmap_mem_store_dummy M addr value = (\<lambda>(m, b).
     let m = memmap_mark_store M addr m;
         (m, b) = vsid_observe M addr (ucast value) (REVICE_BUSTRACE_RW_WRITE OR REVICE_BUSTRACE_RW_DUMMY) (m, b)
     in (mem_write_dummy M (ucast addr) (ucast value) m, b))"

definition memmap_mem_read :: "'m vsid_mem \<Rightarrow> u32 \<Rightarrow> 'm bus_state \<Rightarrow> u8 \<times> 'm bus_state" where
  "memmap_mem_read M addr = (\<lambda>(m, b).
     let bustrace_rw = (if memmap_state_opcode M m then REVICE_BUSTRACE_RW_OPCODE else 0);
         m = memmap_mark_read M addr m;
         (value, m) = mem_read M (ucast addr) m
     in (value, vsid_observe M addr value bustrace_rw (m, b)))"

definition memmap_mem_read_dummy :: "'m vsid_mem \<Rightarrow> u32 \<Rightarrow> 'm bus_state \<Rightarrow> u8 \<times> 'm bus_state" where
  "memmap_mem_read_dummy M addr = (\<lambda>(m, b).
     let m = memmap_mark_read M addr m;
         (value, m) = mem_read_dummy M (ucast addr) m
     in (value, vsid_observe M addr value REVICE_BUSTRACE_RW_DUMMY (m, b)))"

text \<open>A run of the processor, with the values it reads; the same run of a build without the hook; and the
  accesses a monitor of the bus would note in it.\<close>

datatype bus_op = Store u32 u32 | Store_Dummy u32 u32 | Read u32 | Read_Dummy u32

fun vsid_do :: "'m vsid_mem \<Rightarrow> bus_op \<Rightarrow> u8 list \<times> 'm bus_state \<Rightarrow> u8 list \<times> 'm bus_state" where
  "vsid_do M (Store a x) (rs, mb) = (rs, memmap_mem_store M a x mb)"
| "vsid_do M (Store_Dummy a x) (rs, mb) = (rs, memmap_mem_store_dummy M a x mb)"
| "vsid_do M (Read a) (rs, mb) = (let (x, mb) = memmap_mem_read M a mb in (rs @ [x], mb))"
| "vsid_do M (Read_Dummy a) (rs, mb) = (let (x, mb) = memmap_mem_read_dummy M a mb in (rs @ [x], mb))"

fun plain_do :: "'m vsid_mem \<Rightarrow> bus_op \<Rightarrow> u8 list \<times> 'm \<Rightarrow> u8 list \<times> 'm" where
  "plain_do M (Store a x) (rs, m) = (rs, mem_write M (ucast a) (ucast x) (memmap_mark_store M a m))"
| "plain_do M (Store_Dummy a x) (rs, m) = (rs, mem_write_dummy M (ucast a) (ucast x) (memmap_mark_store M a m))"
| "plain_do M (Read a) (rs, m) = (let (x, m) = mem_read M (ucast a) (memmap_mark_read M a m) in (rs @ [x], m))"
| "plain_do M (Read_Dummy a) (rs, m) =
     (let (x, m) = mem_read_dummy M (ucast a) (memmap_mark_read M a m) in (rs @ [x], m))"

fun bus_cycle :: "'m vsid_mem \<Rightarrow> bus_op \<Rightarrow> 'm \<Rightarrow> bus_access" where
  \<comment> \<open>a write as it leaves the processor, a read with the value that came back\<close>
  "bus_cycle M (Store a x) m = (let m = memmap_mark_store M a m in
     \<lparr>acc_cycle = vsid_maincpu_clk M m, acc_addr = ucast a, acc_val = ucast x, acc_rw = 1, acc_pc = ucast (vsid_reg_pc M m)\<rparr>)"
| "bus_cycle M (Store_Dummy a x) m = (let m = memmap_mark_store M a m in
     \<lparr>acc_cycle = vsid_maincpu_clk M m, acc_addr = ucast a, acc_val = ucast x, acc_rw = 5, acc_pc = ucast (vsid_reg_pc M m)\<rparr>)"
| "bus_cycle M (Read a) m = (let (x, m') = mem_read M (ucast a) (memmap_mark_read M a m) in
     \<lparr>acc_cycle = vsid_maincpu_clk M m', acc_addr = ucast a, acc_val = x,
      acc_rw = (if memmap_state_opcode M m then 2 else 0), acc_pc = ucast (vsid_reg_pc M m')\<rparr>)"
| "bus_cycle M (Read_Dummy a) m = (let (x, m') = mem_read_dummy M (ucast a) (memmap_mark_read M a m) in
     \<lparr>acc_cycle = vsid_maincpu_clk M m', acc_addr = ucast a, acc_val = x, acc_rw = 4, acc_pc = ucast (vsid_reg_pc M m')\<rparr>)"

fun bus_log :: "'m vsid_mem \<Rightarrow> bus_op list \<Rightarrow> 'm \<Rightarrow> bus_access list" where
  "bus_log M [] m = []"
| "bus_log M (op # ops) m = bus_cycle M op m # bus_log M ops (snd (plain_do M op ([], m)))"

lemma plain_do_machine: "snd (plain_do M op (rs, m)) = snd (plain_do M op ([], m))"
  by (cases op) (auto simp: Let_def split: prod.split)

lemma vsid_do_step:
  "vsid_do M op (rs, m, b) =
     (let (rs', m') = plain_do M op (rs, m)
      in (rs', m', bustrace_observe_access (vsid_cycles_per_second M) (bus_cycle M op m) b))"
  by (cases op) (auto simp: memmap_mem_store_def memmap_mem_store_dummy_def memmap_mem_read_def
      memmap_mem_read_dummy_def vsid_observe_def Let_def split: prod.split)

lemma vsid_run:
  "fold (vsid_do M) ops (rs, m, b) =
     (let (rs', m') = fold (plain_do M) ops (rs, m)
      in (rs', m', fold (bustrace_observe_access (vsid_cycles_per_second M)) (bus_log M ops m) b))"
proof (induction ops arbitrary: rs m b)
  case (Cons op ops)
  obtain rs1 m1 where p: "plain_do M op (rs, m) = (rs1, m1)" by fastforce
  then have "snd (plain_do M op ([], m)) = m1" using plain_do_machine [of M op rs m] by simp
  with Cons.IH show ?case by (simp add: vsid_do_step p)
qed simp

text \<open>The bus trace of a VSID run is additive: with or without a trace file, the program reads the same
  values and leaves the machine in the same state as in a build without the hook. And it is the run's:
  with a file to write, what is on disk after the shutdown is the trace of every access in order, at the
  clock and PC it happened with, marked as a write, a read, an opcode fetch or a dummy cycle.\<close>

theorem vsid_bus_traced:
  assumes "fold (vsid_do M) ops (rs, m, s, w) = (rs', m', s', w')"
  shows "(rs', m') = fold (plain_do M) ops (rs, m) \<and>
    (bustrace_open s = 0 \<and> bustrace_filename s = Some f \<and> f \<noteq> [] \<and> w_openable w f \<and> ops \<noteq> [] \<longrightarrow>
     w_files (snd (bustrace_shutdown (s', w'))) f =
       Some (bt_capture (of_int (vsid_cycles_per_second M)) (bus_log M ops m)))"
proof -
  obtain rs1 m1 where p: "fold (plain_do M) ops (rs, m) = (rs1, m1)" by fastforce
  have e: "rs' = rs1" "m' = m1"
    "(s', w') = fold (bustrace_observe_access (vsid_cycles_per_second M)) (bus_log M ops m) (s, w)"
    using assms by (simp_all add: vsid_run p)
  have "bus_log M ops m \<noteq> []" if "ops \<noteq> []" using that by (cases ops) simp_all
  with bustrace_session_file [of s f w "bus_log M ops m" "vsid_cycles_per_second M"] show ?thesis
    by (simp add: p e)
qed

text \<open>A machine with RAM only and a clock that counts accesses.\<close>

definition demo_vsid :: "((u16 \<Rightarrow> u8) \<times> u64) vsid_mem" where
  "demo_vsid =
     \<lparr>mem_write = (\<lambda>a x (ram, t). (ram(a := x), t + 1)), mem_write_dummy = (\<lambda>a x (ram, t). (ram(a := x), t + 1)),
      mem_read = (\<lambda>a (ram, t). (ram a, ram, t + 1)), mem_read_dummy = (\<lambda>a (ram, t). (ram a, ram, t + 1)),
      memmap_mark_store = (\<lambda>_ m. m), memmap_mark_read = (\<lambda>_ m. m), memmap_state_opcode = (\<lambda>(ram, t). t = 0),
      vsid_maincpu_clk = snd, vsid_reg_pc = (\<lambda>_. 0x1000), vsid_cycles_per_second = 985248\<rparr>"

lemma vsid_bus_traced_witness:
  "let w = \<lparr>w_files = Map.empty, w_openable = \<lambda>_. True, w_log = []\<rparr>;
       s = \<lparr>bustrace_filename = Some ''t'', bustrace_fd = None,
            bustrace_core = fst (revice_bustrace_begin 0 None None w), bustrace_open = 0\<rparr>;
       (rs, m, s, w) = fold (vsid_do demo_vsid) [Read 0x1000, Store 0xd400 7, Read 0xd400] ([], (\<lambda>_. 0xea, 0), s, w)
   in rs = [0xea, 7] \<and> w_files (snd (bustrace_shutdown (s, w))) ''t'' = Some (bt_capture 985248
     [\<lparr>acc_cycle = 1, acc_addr = 0x1000, acc_val = 0xea, acc_rw = 2, acc_pc = 0x1000\<rparr>,
      \<lparr>acc_cycle = 1, acc_addr = 0xd400, acc_val = 7, acc_rw = 1, acc_pc = 0x1000\<rparr>,
      \<lparr>acc_cycle = 3, acc_addr = 0xd400, acc_val = 7, acc_rw = 0, acc_pc = 0x1000\<rparr>])"
proof -
  let ?ops = "[Read 0x1000, Store 0xd400 7, Read 0xd400]"
  define w where "w = \<lparr>w_files = Map.empty, w_openable = \<lambda>_. True, w_log = []\<rparr>"
  define s where "s = \<lparr>bustrace_filename = Some ''t'', bustrace_fd = None,
    bustrace_core = fst (revice_bustrace_begin 0 None None w), bustrace_open = 0\<rparr>"
  obtain rs' m' s' w' where r: "fold (vsid_do demo_vsid) ?ops ([], (\<lambda>_. 0xea, 0), s, w) = (rs', m', s', w')"
    by (metis surj_pair)
  have rs: "fst (fold (plain_do demo_vsid) ?ops ([], (\<lambda>_. 0xea, 0))) = [0xea, 7]" by (simp add: demo_vsid_def)
  have log: "bus_log demo_vsid ?ops (\<lambda>_. 0xea, 0) =
      [\<lparr>acc_cycle = 1, acc_addr = 0x1000, acc_val = 0xea, acc_rw = 2, acc_pc = 0x1000\<rparr>,
       \<lparr>acc_cycle = 1, acc_addr = 0xd400, acc_val = 7, acc_rw = 1, acc_pc = 0x1000\<rparr>,
       \<lparr>acc_cycle = 3, acc_addr = 0xd400, acc_val = 7, acc_rw = 0, acc_pc = 0x1000\<rparr>]"
    by (simp add: demo_vsid_def)
  have "bustrace_open s = 0" "bustrace_filename s = Some ''t''" "w_openable w ''t''" "?ops \<noteq> []"
    by (simp_all add: s_def w_def)
  with vsid_bus_traced [OF r, of "''t''"] have "rs' = [0xea, 7]" "w_files (snd (bustrace_shutdown (s', w'))) ''t'' =
      Some (bt_capture (of_int (vsid_cycles_per_second demo_vsid)) (bus_log demo_vsid ?ops (\<lambda>_. 0xea, 0)))"
    unfolding rs [symmetric] by (metis fst_conv, metis list.distinct(1))
  moreover have "(of_int (vsid_cycles_per_second demo_vsid) :: u64) = 985248" by (simp add: demo_vsid_def)
  ultimately show ?thesis
    unfolding w_def [symmetric] s_def [symmetric] Let_def by (simp only: r prod.case log simp_thms)
qed

section \<open>SID writes\<close>

text \<open>The call of \<open>sound_store\<close> into the playback device: the new \<open>dump2\<close> before the old \<open>dump\<close>; a device
  with neither ends the function, which is \<open>Inr\<close>.\<close>

record sound_clocks =
  sc_maincpu_clk :: u64
  sc_wclk :: u64
  sc_irq_clk :: u64
  sc_nmi_clk :: u64

definition sound_store_dump ::
    "'s sound_device_t \<Rightarrow> sound_clocks \<Rightarrow> u16 \<Rightarrow> u8 \<Rightarrow> int \<Rightarrow> 's \<Rightarrow> ((int \<times> 's) + 's) option" where
  "sound_store_dump playdev K addr val chipno st =
     (case sd_dump2 playdev of
        Some dump2 \<Rightarrow> map_option Inl (dump2 (sc_maincpu_clk K - sc_wclk K) (sc_maincpu_clk K - sc_irq_clk K)
          (sc_maincpu_clk K - sc_nmi_clk K) (of_int chipno) addr val st)
      | None \<Rightarrow> (case sd_dump playdev of
          Some dump \<Rightarrow> map_option Inl (dump addr val (sc_maincpu_clk K - sc_wclk K) st)
        | None \<Rightarrow> Some (Inr st)))"

lemma sound_store_asid:
  "sound_store_dump (asid_device A) K addr val chipno st =
     map_option (\<lambda>st. Inl (0, st)) (asid_dump2 A (of_int chipno) addr val st)"
  by (simp add: sound_store_dump_def asid_device_def option.map_comp comp_def)

section \<open>The keyboard\<close>

definition read_ciapa_hook :: "u8 \<Rightarrow> u8 \<Rightarrow> ('v, 'a) kmx_state \<Rightarrow> ('v, 'a) kmx_state option" where
  \<comment> \<open>\<open>old_pb\<close> and the digital joystick of port 1\<close>
  "read_ciapa_hook old_pb joy1 = mon_keymatrix_cia1_pa_read (old_pb AND joy1)"

definition read_ciapb_hook :: "u8 \<Rightarrow> u8 \<Rightarrow> ('v, 'a) kmx_state \<Rightarrow> ('v, 'a) kmx_state option" where
  "read_ciapb_hook old_pa joy2 = mon_keymatrix_cia1_pb_read (old_pa AND joy2)"

lemma hook_samples:
  "line_hit line (port AND joy) k \<longleftrightarrow>
     kind k = 0 \<and> 0 \<le> line k \<and> line k \<le> 7 \<and> (\<not> bit port (nat (line k)) \<or> \<not> bit joy (nat (line k)))"
  by (auto simp: line_hit_def bit_and_iff)

datatype kmx_verb = KMX_TAP | KMX_PRESS | KMX_RELEASE | KMX_POKE | KMX_SHOW | KMX_NAMES

definition kmx_verb_of :: "string \<Rightarrow> kmx_verb option" where
  \<comment> \<open>the tokens of the \<open>KMX_VERB\<close> start condition\<close>
  "kmx_verb_of =
     map_of [(''tap'', KMX_TAP), (''press'', KMX_PRESS), (''release'', KMX_RELEASE), (''poke'', KMX_POKE),
       (''show'', KMX_SHOW), (''names'', KMX_NAMES)]"

definition keymatrix_rule ::
    "('v, 'a) vice_keyboard \<Rightarrow> kmx_verb \<Rightarrow> string option \<Rightarrow> ('v, 'a) kmx_state \<Rightarrow> ('v, 'a) kmx_state option" where
  \<comment> \<open>the actions of the grammar's rules; \<open>show\<close> and \<open>names\<close> have no argument\<close>
  "keymatrix_rule V verb arg = (case verb of
     KMX_TAP \<Rightarrow> mon_keymatrix_tap V arg | KMX_PRESS \<Rightarrow> mon_keymatrix_press V arg
   | KMX_RELEASE \<Rightarrow> mon_keymatrix_release V arg | KMX_POKE \<Rightarrow> mon_keymatrix_poke V arg
   | KMX_SHOW \<Rightarrow> mon_keymatrix_show V | KMX_NAMES \<Rightarrow> mon_keymatrix_names V)"

lemma keymatrix_rule_op:
  "keymatrix_rule V verb arg = mon_do V (case verb of KMX_TAP \<Rightarrow> Tap arg | KMX_PRESS \<Rightarrow> Press arg
     | KMX_RELEASE \<Rightarrow> Release arg | KMX_POKE \<Rightarrow> Poke arg | KMX_SHOW \<Rightarrow> Show | KMX_NAMES \<Rightarrow> Names)"
  by (rule ext) (cases verb; simp add: keymatrix_rule_def mon_do_def)

end
