(* ===== verification/Vsid_Startup.thy ===== *)
theory Vsid_Startup
  imports Vice_Hooks
begin

text \<open>
  The wiring of the bus trace into VSID (\<open>integration/vice/patches\<close> 08): the registration of its resource
  and its option when the program starts, and its shutdown. VICE's registries and its command line are
  a parameter with stated laws; \<open>Inl\<close> is an early return of the patched function, \<open>Inr\<close> goes on in it.
\<close>

section \<open>The patched functions\<close>

type_synonym 'v startup_state = "'v \<times> bt_statics \<times> bt_world"

record 'v vice_startup =
  resources_register_string :: "resource_string_t list \<Rightarrow> 'v startup_state \<Rightarrow> int \<times> 'v startup_state"
  cmdline_register_options :: "cmdline_option_t list \<Rightarrow> 'v startup_state \<Rightarrow> int \<times> 'v startup_state"
  init_resource_fail :: "string \<Rightarrow> 'v startup_state \<Rightarrow> 'v startup_state"
  init_cmdline_options_fail :: "string \<Rightarrow> 'v startup_state \<Rightarrow> 'v startup_state"
  resources_set_defaults :: "'v startup_state \<Rightarrow> int \<times> 'v startup_state"
  parse_command_line :: "string list \<Rightarrow> 'v startup_state \<Rightarrow> int \<times> 'v startup_state"

definition machine_resources_init ::
    "'v vice_startup \<Rightarrow> (string option \<Rightarrow> string option \<Rightarrow> int \<times> string option) \<Rightarrow> 'v startup_state \<Rightarrow>
       (int \<times> 'v startup_state) + 'v startup_state" where
  "machine_resources_init V u st =
     (let (r, st) = bustrace_resources_init (resources_register_string V) u st
      in if r < 0 then Inl (- 1, init_resource_fail V ''bustrace'' st) else Inr st)"

definition machine_cmdline_options_init :: "'v vice_startup \<Rightarrow> 'v startup_state \<Rightarrow> int \<times> 'v startup_state" where
  "machine_cmdline_options_init V st =
     (let (r, st) = bustrace_cmdline_options_init (cmdline_register_options V) st
      in if r < 0 then (- 1, init_cmdline_options_fail V ''bustrace'' st) else (0, st))"

record 'm machine_parts =
  ciacore_shutdown :: "bool \<Rightarrow> 'm \<Rightarrow> 'm" \<comment> \<open>of the first or the second CIA\<close>
  vicii_shutdown :: "'m \<Rightarrow> 'm"

definition machine_specific_shutdown :: "'m machine_parts \<Rightarrow> 'm bus_state \<Rightarrow> 'm bus_state" where
  "machine_specific_shutdown P = (\<lambda>(m, b).
     let m = ciacore_shutdown P True m;
         m = ciacore_shutdown P False m;
         b = bustrace_shutdown b
     in (vicii_shutdown P m, b))"

section \<open>VICE's registries\<close>

text \<open>
  What VICE documents of its registries: \<open>known\<close> and \<open>options\<close> are what has been registered, and
  registering only enters a table. Once everything is registered, setting the defaults gives each string
  resource its factory value through its setter; an option on the command line that sets a resource calls
  the resource's setter with its argument.
\<close>

definition factory_settings :: "resource_string_t list \<Rightarrow> bt_statics \<times> bt_world \<Rightarrow> bt_statics \<times> bt_world" where
  "factory_settings = fold (\<lambda>r b. snd (res_set_func r (Some (res_factory_value r)) b))"

definition startup_laws ::
    "'v vice_startup \<Rightarrow> ('v \<Rightarrow> resource_string_t list) \<Rightarrow> ('v \<Rightarrow> cmdline_option_t list) \<Rightarrow> bool" where
  "startup_laws V known options \<longleftrightarrow>
     (\<forall>t v b r v' b'. resources_register_string V t (v, b) = (r, v', b') \<and> 0 \<le> r \<longrightarrow>
        known v' = known v @ t \<and> options v' = options v \<and> b' = b) \<and>
     (\<forall>os v b r v' b'. cmdline_register_options V os (v, b) = (r, v', b') \<and> 0 \<le> r \<longrightarrow>
        known v' = known v \<and> options v' = options v @ os \<and> b' = b) \<and>
     (\<forall>v b r v' b'. resources_set_defaults V (v, b) = (r, v', b') \<and> 0 \<le> r \<longrightarrow>
        known v' = known v \<and> options v' = options v \<and> b' = factory_settings (known v) b) \<and>
     (\<forall>v b. snd (snd (parse_command_line V [] (v, b))) = b) \<and>
     (\<forall>name arg opt res v b.
        find (\<lambda>opt. opt_name opt = name) (options v) = Some opt \<and> opt_action opt = SET_RESOURCE \<and> opt_need_args opt \<and>
        find (\<lambda>res. res_name res = opt_resource_name opt) (known v) = Some res \<longrightarrow>
        snd (snd (parse_command_line V [name, arg] (v, b))) = snd (res_set_func res (Some arg) b))"

definition fresh_names :: "resource_string_t list \<Rightarrow> cmdline_option_t list \<Rightarrow> bool" where
  \<comment> \<open>nothing else in VICE has the names, and no other resource's setter touches the bus trace\<close>
  "fresh_names known options \<longleftrightarrow>
     (\<forall>r\<in>set known. res_name r \<noteq> ''BusTraceFile'' \<and> (\<forall>val b. snd (res_set_func r val b) = b)) \<and>
     (\<forall>opt\<in>set options. opt_name opt \<noteq> ''-bustrace'')"

section \<open>From the start to the shutdown\<close>

lemma find_append: "find P (xs @ ys) = (case find P xs of None \<Rightarrow> find P ys | Some x \<Rightarrow> Some x)"
  by (induction xs) simp_all

abbreviation retargeted :: "string \<Rightarrow> bt_statics \<Rightarrow> bt_statics" where
  "retargeted f s \<equiv> s\<lparr>bustrace_fd := None, bustrace_open := 0, bustrace_filename := Some f\<rparr>"

lemma set_filename_closed:
  assumes "bustrace_open s = 0" "\<And>old new. snd (u old (Some new)) = Some new"
  shows "snd (set_bustrace_filename u (Some f) (s, w)) = (retargeted f s, w)"
  using assms(1) assms(2) [of "bustrace_filename s" f] by (simp add: set_bustrace_filename_def case_prod_unfold)

lemma factory_settings_apart:
  "\<forall>r\<in>set t. \<forall>val b. snd (res_set_func r val b) = b \<Longrightarrow> factory_settings t b = b"
  by (induction t arbitrary: b) (simp_all add: factory_settings_def del: split_paired_All)

lemma registered:
  assumes "startup_laws V known options" "fresh_names (known v) (options v)" "bustrace_open s = 0"
    and u: "\<And>old new. snd (u old (Some new)) = Some new"
    and "machine_resources_init V u (v, s, w) = Inr st1" "machine_cmdline_options_init V st1 = (0, st2)"
    and "resources_set_defaults V st2 = (0, st3)"
  shows "\<exists>v3. st3 = (v3, retargeted [] s, w) \<and> known v3 = known v @ resources_string u \<and> options v3 = options v @ cmdline_options"
proof -
  obtain r v1 b1 where 1: "resources_register_string V (resources_string u) (v, s, w) = (r, v1, b1)" by (metis surj_pair)
  with assms(5) have r: "0 \<le> r" "st1 = (v1, b1)"
    by (auto simp: machine_resources_init_def bustrace_resources_init_def split: if_splits)
  with 1 assms(1) have v1: "known v1 = known v @ resources_string u" "options v1 = options v" "b1 = (s, w)"
    unfolding startup_laws_def by metis+
  obtain r' v2 b2 where 2: "cmdline_register_options V cmdline_options (v1, b1) = (r', v2, b2)" by (metis surj_pair)
  with assms(6) r have "0 \<le> r'" "st2 = (v2, b2)"
    by (auto simp: machine_cmdline_options_init_def bustrace_cmdline_options_init_def split: if_splits)
  with 2 assms(1) have v2: "known v2 = known v1" "options v2 = options v1 @ cmdline_options" "b2 = b1" "st2 = (v2, b2)"
    unfolding startup_laws_def by metis+
  obtain v3 b3 where 3: "st3 = (v3, b3)" by (cases st3)
  then have "resources_set_defaults V (v2, b2) = (0, v3, b3) \<and> 0 \<le> (0 :: int)" using assms(7) v2(4) by simp
  then have v3: "known v3 = known v2" "options v3 = options v2" "b3 = factory_settings (known v2) b2"
    using assms(1) unfolding startup_laws_def by blast+
  have "factory_settings (known v) (s, w) = (s, w)"
    using assms(2) by (intro factory_settings_apart) (simp add: fresh_names_def)
  then have "b3 = (retargeted [] s, w)"
    by (simp add: v1 v2 v3 factory_settings_def resources_string_def set_filename_closed [OF assms(3) u])
  with v1 v2 v3(1,2) 3 show ?thesis by simp
qed

lemma startup_statics:
  assumes "startup_laws V known options" "fresh_names (known v) (options v)" "bustrace_open s = 0"
    and u: "\<And>old new. snd (u old (Some new)) = Some new"
    and "machine_resources_init V u (v, s, w) = Inr st1" "machine_cmdline_options_init V st1 = (0, st2)"
    and "resources_set_defaults V st2 = (0, st3)"
  shows "snd (snd (parse_command_line V [] st3)) = (retargeted [] s, w)"
    and "snd (snd (parse_command_line V [''-bustrace'', name] st3)) = (retargeted name s, w)"
proof -
  obtain v3 where 3: "st3 = (v3, retargeted [] s, w)" "known v3 = known v @ resources_string u"
    "options v3 = options v @ cmdline_options"
    using registered [OF assms] by blast
  show "snd (snd (parse_command_line V [] st3)) = (retargeted [] s, w)"
    using assms(1) by (simp add: startup_laws_def 3(1))
  have parse: "snd (snd (parse_command_line V [opt_name', arg] (v', b))) = snd (res_set_func res (Some arg) b)"
    if "find (\<lambda>opt. opt_name opt = opt_name') (options v') = Some opt" "opt_action opt = SET_RESOURCE" "opt_need_args opt"
      "find (\<lambda>res. res_name res = opt_resource_name opt) (known v') = Some res" for opt_name' arg opt res v' b
    using assms(1) that unfolding startup_laws_def by blast
  have "find (\<lambda>opt. opt_name opt = ''-bustrace'') (options v) = None" "find (\<lambda>res. res_name res = ''BusTraceFile'') (known v) = None"
    using assms(2) by (simp_all add: find_None_iff fresh_names_def)
  then have "find (\<lambda>opt. opt_name opt = ''-bustrace'') (options v3) = Some (hd cmdline_options)"
    "find (\<lambda>res. res_name res = opt_resource_name (hd cmdline_options)) (known v3) = Some (hd (resources_string u))"
    by (simp_all add: 3 find_append cmdline_options_def resources_string_def)
  moreover have "opt_action (hd cmdline_options) = SET_RESOURCE" "opt_need_args (hd cmdline_options)"
    by (simp_all add: cmdline_options_def)
  ultimately have "snd (snd (parse_command_line V [''-bustrace'', name] st3)) =
      snd (res_set_func (hd (resources_string u)) (Some name) (retargeted [] s, w))"
    unfolding 3(1) by (intro parse)
  also have "\<dots> = (retargeted name s, w)"
    by (simp add: resources_string_def set_filename_closed u)
  finally show "snd (snd (parse_command_line V [''-bustrace'', name] st3)) = (retargeted name s, w)" .
qed

text \<open>C10: A whole VSID run with the bus trace wired in: the resource and the option are registered, the
  defaults set, and, with no saved setting in between, the command line parsed. Started with \<open>-bustrace\<close>
  and a file that can be opened, a run of at least one bus access leaves, after the shutdown, exactly the
  trace of its accesses in the file; started without arguments it writes no file and logs nothing. Either
  way the program reads the same values and the machine ends in the same state as in a build without the
  hook, and the adapter is closed.\<close>

theorem vsid_trace_lifecycle:
  assumes "startup_laws V known options" "fresh_names (known v) (options v)" "bustrace_open s = 0"
    and "\<And>old new. snd (u old (Some new)) = Some new"
    and "machine_resources_init V u (v, s, w) = Inr st1" "machine_cmdline_options_init V st1 = (0, st2)"
    and "resources_set_defaults V st2 = (0, st3)"
    and "parse_command_line V args st3 = (r, v3, b3)" "fold (vsid_do M) ops (rs, m, b3) = (rs', m', b4)"
    and "machine_specific_shutdown P (m', b4) = (m'', s', w')"
  shows "(args = [''-bustrace'', f] \<and> f \<noteq> [] \<and> w_openable w f \<and> ops \<noteq> [] \<longrightarrow>
      w_files w' f = Some (bt_capture (of_int (vsid_cycles_per_second M)) (bus_log M ops m))) \<and>
    (args = [] \<longrightarrow> w' = w) \<and> (rs', m') = fold (plain_do M) ops (rs, m) \<and>
    bustrace_fd s' = None \<and> bustrace_open s' = 0"
proof -
  obtain rs1 m1 where p: "fold (plain_do M) ops (rs, m) = (rs1, m1)" by fastforce
  have e: "rs' = rs1" "m' = m1" "b4 = fold (bustrace_observe_access (vsid_cycles_per_second M)) (bus_log M ops m) b3"
    using assms(9) by (cases b3; simp add: vsid_run p)+
  have sw: "(s', w') = bustrace_shutdown b4"
    using assms(10) by (simp add: machine_specific_shutdown_def Let_def)
  have log: "bus_log M ops m \<noteq> []" if "ops \<noteq> []" using that by (cases ops) simp_all
  note args = startup_statics [OF assms(1-7)]
  have "w_files w' f = Some (bt_capture (of_int (vsid_cycles_per_second M)) (bus_log M ops m))"
    if "args = [''-bustrace'', f]" "f \<noteq> []" "w_openable w f" "ops \<noteq> []"
  proof -
    have "b3 = (retargeted f s, w)" using args(2) [of f] that(1) assms(8) by simp
    then have "bustrace_shutdown (fold (bustrace_observe_access (vsid_cycles_per_second M)) (bus_log M ops m)
        (retargeted f s, w)) = (s', w')"
      using sw e(3) by simp
    then show ?thesis
      using bustrace_session_file [of "retargeted f s" f w "bus_log M ops m" "vsid_cycles_per_second M"] that(2,3)
        log [OF that(4)]
      by simp
  qed
  moreover have "w' = w" if "args = []"
  proof -
    have "b3 = (retargeted [] s, w)" using args(1) that assms(8) by simp
    moreover have "fold (bustrace_observe_access c) as (retargeted [] s, w) = (retargeted [] s, w)" for c as
      by (induction as) (simp_all add: bustrace_off_transparent bustrace_is_enabled_def named_def)
    ultimately show ?thesis using sw e(3) by (simp add: bustrace_shutdown_def)
  qed
  moreover have "bustrace_fd s' = None" "bustrace_open s' = 0"
    using sw by (cases b4; simp add: bustrace_shutdown_def Let_def split: prod.splits if_splits)+
  ultimately show ?thesis by (simp add: e p)
qed

text \<open>A VICE that keeps its registries as lists and knows options with one argument.\<close>

definition demo_startup :: "(resource_string_t list \<times> cmdline_option_t list) vice_startup" where
  "demo_startup =
     \<lparr>resources_register_string = (\<lambda>t ((rs, os), b). (0, (rs @ t, os), b)),
      cmdline_register_options = (\<lambda>t ((rs, os), b). (0, (rs, os @ t), b)),
      init_resource_fail = (\<lambda>_ st. st), init_cmdline_options_fail = (\<lambda>_ st. st),
      resources_set_defaults = (\<lambda>((rs, os), b). (0, (rs, os), factory_settings rs b)),
      parse_command_line = (\<lambda>args ((rs, os), b). case args of
          [name, arg] \<Rightarrow>
            (case find (\<lambda>opt. opt_name opt = name) os of
               None \<Rightarrow> (- 1, (rs, os), b)
             | Some opt \<Rightarrow> (case find (\<lambda>res. res_name res = opt_resource_name opt) rs of
                 None \<Rightarrow> (- 1, (rs, os), b)
               | Some res \<Rightarrow> (let (r, b) = res_set_func res (Some arg) b in (r, (rs, os), b))))
        | _ \<Rightarrow> (0, (rs, os), b))\<rparr>"

lemma demo_startup_laws: "startup_laws demo_startup fst snd"
  by (auto simp: startup_laws_def demo_startup_def Let_def split: prod.splits)

definition demo_parts :: "'m machine_parts" where
  "demo_parts = \<lparr>ciacore_shutdown = (\<lambda>_ m. m), vicii_shutdown = (\<lambda>m. m)\<rparr>"

definition set_string :: "string option \<Rightarrow> string option \<Rightarrow> int \<times> string option" where
  "set_string old new = (0, new)"

lemma vsid_trace_lifecycle_witness:
  "let w = \<lparr>w_files = Map.empty, w_openable = \<lambda>_. True, w_log = []\<rparr>;
       s = \<lparr>bustrace_filename = None, bustrace_fd = None,
            bustrace_core = fst (revice_bustrace_begin 0 None None w), bustrace_open = 0\<rparr>;
       (r, st) = machine_cmdline_options_init demo_startup (projr (machine_resources_init demo_startup set_string (([], []), s, w)));
       (r, st) = resources_set_defaults demo_startup st;
       (r, v, b) = parse_command_line demo_startup [''-bustrace'', ''t''] st;
       (rs, m, b) = fold (vsid_do demo_vsid) [Store 0xd400 7] ([], (\<lambda>_. 0xea, 0), b);
       (m, s, w) = machine_specific_shutdown demo_parts (m, b)
   in w_files w ''t'' = Some (bt_capture 985248
        [\<lparr>acc_cycle = 0, acc_addr = 0xd400, acc_val = 7, acc_rw = 1, acc_pc = 0x1000\<rparr>])"
proof -
  define w where "w = \<lparr>w_files = Map.empty, w_openable = \<lambda>_. True, w_log = []\<rparr>"
  define s where "s = \<lparr>bustrace_filename = None, bustrace_fd = None,
    bustrace_core = fst (revice_bustrace_begin 0 None None w), bustrace_open = 0\<rparr>"
  obtain st1 where 1: "machine_resources_init demo_startup set_string (([], []), s, w) = Inr st1"
    by (simp add: machine_resources_init_def bustrace_resources_init_def demo_startup_def)
  obtain st2 where 2: "machine_cmdline_options_init demo_startup st1 = (0, st2)"
    by (cases st1; cases "fst st1") (simp add: machine_cmdline_options_init_def bustrace_cmdline_options_init_def demo_startup_def)
  obtain st3 where 6: "resources_set_defaults demo_startup st2 = (0, st3)"
    by (cases st2; cases "fst st2") (simp add: demo_startup_def)
  obtain r v b where 3: "parse_command_line demo_startup [''-bustrace'', ''t''] st3 = (r, v, b)" by (metis surj_pair)
  obtain rs m b' where 4: "fold (vsid_do demo_vsid) [Store 0xd400 7] ([], (\<lambda>_. 0xea, 0), b) = (rs, m, b')" by (metis surj_pair)
  obtain m' s' w' where 5: "machine_specific_shutdown demo_parts (m, b') = (m', s', w')" by (metis surj_pair)
  have "fresh_names (fst ([], [])) (snd ([], []))" "bustrace_open s = 0" "w_openable w ''t''"
    "\<And>old new. snd (set_string old (Some new)) = Some new"
    by (simp_all add: fresh_names_def s_def w_def set_string_def)
  with vsid_trace_lifecycle [OF demo_startup_laws _ _ _ 1 2 6 3 4 5, of "''t''"] have
    "w_files w' ''t'' = Some (bt_capture (of_int (vsid_cycles_per_second demo_vsid)) (bus_log demo_vsid [Store 0xd400 7] (\<lambda>_. 0xea, 0)))"
    by simp
  then have "w_files w' ''t'' = Some (bt_capture 985248 [\<lparr>acc_cycle = 0, acc_addr = 0xd400, acc_val = 7, acc_rw = 1, acc_pc = 0x1000\<rparr>])"
    by (simp add: demo_vsid_def)
  then show ?thesis
    unfolding w_def [symmetric] s_def [symmetric] Let_def by (simp only: 1 2 6 3 4 5 sum.sel prod.case)
qed

end
