(* ===== verification/Vice_Log.thy ===== *)
theory Vice_Log
  imports Prelude
begin

text \<open>
  The two repairs of VICE's logging that revice carries (\<open>integration/vice/patches\<close> 07-log and 09): the
  patched functions as far as the patches show them. A null or freed pointer that is used is \<open>None\<close>.
\<close>

section \<open>Closing the log file\<close>

text \<open>An open C stream has text that waits to be written; a stream that is not open has been freed.\<close>

type_synonym stream = nat

record c_streams =
  pending :: "stream \<Rightarrow> string option"
  written :: "stream \<Rightarrow> string"

definition stdout :: stream where "stdout = 1"

definition fflush :: "stream \<Rightarrow> c_streams \<Rightarrow> c_streams option" where
  "fflush f w = do {
     p \<leftarrow> pending w f;
     Some (w\<lparr>pending := (pending w)(f \<mapsto> []), written := (written w)(f := written w f @ p)\<rparr>)
   }"

definition fclose :: "stream \<Rightarrow> c_streams \<Rightarrow> c_streams option" where
  "fclose f w = do { w \<leftarrow> fflush f w; Some (w\<lparr>pending := (pending w)(f := None)\<rparr>) }"

definition log_file_close :: "stream option \<times> c_streams \<Rightarrow> (stream option \<times> c_streams) option" where
  "log_file_close = (\<lambda>(log_file, w). case log_file of
     None \<Rightarrow> Some (None, w)
   | Some f \<Rightarrow> do {
       w \<leftarrow> fflush f w;
       w \<leftarrow> (if f \<noteq> stdout then fclose f w else Some w);
       Some (None, w)
     })"

definition log_file_close_replaced :: "stream option \<times> c_streams \<Rightarrow> (stream option \<times> c_streams) option" where
  \<comment> \<open>with the flush where the patch removes it\<close>
  "log_file_close_replaced = (\<lambda>(log_file, w). case log_file of
     None \<Rightarrow> Some (None, w)
   | Some f \<Rightarrow> do {
       w \<leftarrow> (if f \<noteq> stdout then fclose f w else Some w);
       w \<leftarrow> fflush f w;
       Some (None, w)
     })"

text \<open>Closing an open log writes everything logged and frees no stream that it still uses; the replaced order
  uses a freed stream exactly when the log is not the standard output.\<close>

theorem log_file_close_safe:
  assumes "pending w f = Some p"
  shows "\<exists>w'. log_file_close (Some f, w) = Some (None, w') \<and> written w' = (written w)(f := written w f @ p) \<and>
    pending w' = (pending w)(f := if f = stdout then Some [] else None)"
    and "log_file_close_replaced (Some f, w) = None \<longleftrightarrow> f \<noteq> stdout"
  using assms by (auto simp: log_file_close_def log_file_close_replaced_def fclose_def fflush_def)

lemma log_file_close_safe_witness:
  "let w = \<lparr>pending = [2 \<mapsto> ''x''], written = \<lambda>_. []\<rparr>
   in (\<exists>w'. log_file_close (Some 2, w) = Some (None, w') \<and> written w' 2 = ''x'') \<and> log_file_close_replaced (Some 2, w) = None"
  using log_file_close_safe [of "\<lparr>pending = [2 \<mapsto> ''x''], written = \<lambda>_. []\<rparr>" 2 "''x''"] by (auto simp: Let_def stdout_def)

section \<open>Logging to the standard output\<close>

definition log_stdout ::
    "(string \<Rightarrow> string) \<Rightarrow> bool \<Rightarrow> (string option \<Rightarrow> string \<Rightarrow> 'v \<Rightarrow> 'v) \<Rightarrow> string \<Rightarrow> string \<Rightarrow>
       string option \<times> string option \<Rightarrow> string option \<times> string option \<Rightarrow> 'v \<Rightarrow>
       ((string option \<times> string option) \<times> 'v) option" where
  \<comment> \<open>the branch of \<open>log_helper\<close>: \<open>terminalpre\<close> and \<open>terminaltxt\<close> as they come in, the strings to free and
    the output; \<open>log_archdep\<close> takes the length of its text\<close>
  "log_stdout logskipcolors is_terminal log_archdep pretxt logtxt nocolor terminal v =
     (let (nocolorpre, nocolortxt) = nocolor;
          (nocolorpre, nocolortxt, terminalpre, terminaltxt) =
            (if \<not> is_terminal then
               let nocolorpre = (if nocolorpre = None then Some (logskipcolors pretxt) else nocolorpre);
                   nocolortxt = (if nocolortxt = None then Some (logskipcolors logtxt) else nocolortxt)
               in (nocolorpre, nocolortxt, nocolorpre, nocolortxt)
             else (nocolorpre, nocolortxt, fst terminal, snd terminal))
      in do { txt \<leftarrow> terminaltxt; Some ((nocolorpre, nocolortxt), log_archdep terminalpre txt v) })"

text \<open>Whatever was built before, the logger gets a text: the given one on a terminal, and else the text without
  colours, whether or not it had been built.\<close>

theorem log_stdout_text:
  assumes "snd terminal = Some txt" "fst nocolor \<in> {None, Some (skip pre)}" "snd nocolor \<in> {None, Some (skip log)}"
  shows "\<exists>strings. log_stdout skip tty log_archdep pre log nocolor terminal v =
    Some (strings, if tty then log_archdep (fst terminal) txt v else log_archdep (Some (skip pre)) (skip log) v)"
  using assms by (cases nocolor) (auto simp: log_stdout_def Let_def)

lemma log_stdout_text_witness:
  "\<exists>strings. log_stdout (drop 1) False (\<lambda>p t v. v @ t) ''*p'' ''*t'' (None, None) (Some ''*p'', Some ''*t'') [] =
     Some (strings, ''t'')"
  using log_stdout_text [of "(Some ''*p'', Some ''*t'')" "''*t''" "(None, None)" "drop 1" "''*p''" "''*t''" False "\<lambda>p t v. v @ t" "[]"]
  by simp

end
