(* ===== verification/Keymatrix_Console.thy ===== *)
theory Keymatrix_Console
  imports Keymatrix_Adapter
begin

unbundle bit_operations_syntax

text \<open>
  What the keyboard core prints on the monitor's console (\<open>libs/keymatrix/src/keymatrix_core.c\<close>, through
  \<open>emit_text\<close> and \<open>mon_out\<close>): the text of every verb, on success and on every kind of bad argument, as a
  function of the keyboard contract's state. The interface \<open>km_console\<close> adds to the keyboard what printing
  and \<open>show\<close> rely on.
\<close>

section \<open>The texts\<close>

definition sp_parse :: "string \<Rightarrow> string option \<Rightarrow> string + km_key_t list \<times> int" where
  \<comment> \<open>the keys of an argument line, or what is wrong with it\<close>
  "sp_parse usage args =
     (if no_args args then Inl usage
      else if 256 \<le> length (the args) then Inl (out_line ''error: argument too long'')
      else parse_words km_max_keys (line_words (the args)) [] (- 1))"

definition no_keys :: string where
  "no_keys = out_line ''error: no keys specified''"

definition n_keys :: "km_key_t list \<Rightarrow> string" where
  "n_keys ks = show_nat (length ks) @ '' key'' @ plural (length ks)"

definition key_line :: "km_key_t \<Rightarrow> string" where
  "key_line k = out_line (''  '' @ key_name k @ '' ('' @ show_int (row k) @ '','' @ show_int (col k) @ '')'')"

definition tap_text :: "string option \<Rightarrow> string list" where
  "tap_text args = (case sp_parse tap_usage args of
     Inl msg \<Rightarrow> [msg]
   | Inr (ks, f) \<Rightarrow>
       let frames = (if 0 < f then f else 60)
       in [if ks = [] then no_keys else out_line (''keymatrix: tap '' @ n_keys ks @ '', mode='' @ (if 0 < f then ''tap-fixed'' else ''tap-observed'') @
             '', max '' @ show_int frames @ '' frame'' @ plural (nat frames))])"

definition press_text :: "string option \<Rightarrow> string list" where
  "press_text args = (case sp_parse press_usage args of
     Inl msg \<Rightarrow> [msg]
   | Inr (ks, f) \<Rightarrow>
       (if 0 < f then [out_line (''note: '' @ quoted ''for <frames>'' @ '' has no effect on press; use '' @
            quoted ''tap'' @ '' for that'')] else []) @
       [if ks = [] then no_keys else out_line (''keymatrix: pressed '' @ n_keys ks @ '' (sticky; clear with '' @
            quoted ''keymatrix release'' @ '')'')])"

definition release_text :: "string option \<Rightarrow> string list" where
  "release_text args =
     (if no_args args then [out_line ''keymatrix: released all keys'']
      else case sp_parse [] args of
          Inl msg \<Rightarrow> [msg]
        | Inr (ks, _) \<Rightarrow> [if ks = [] then no_keys else out_line (''keymatrix: released '' @ n_keys ks)])"

definition poke_text :: "string option \<Rightarrow> string list" where
  "poke_text args =
     [if no_args args then poke_usage
      else if 256 \<le> length (the args) then out_line ''error: argument too long''
      else case poke_parse (the args) of
          None \<Rightarrow> poke_usage
        | Some (r, c, v) \<Rightarrow>
            if c \<in> {0..7} \<and> r \<in> {- 8..15}
            then out_line (''keymatrix: poked ('' @ show_int r @ '','' @ show_int c @ '') <- '' @ show_int v)
            else out_line ''error: row must be -8..15, col must be 0..7'']"

text \<open>The picture of the matrix, the special keys, the injection that is active and the last one.\<close>

definition matrix_text :: "(int \<Rightarrow> int \<Rightarrow> bool) \<Rightarrow> string list" where
  "matrix_text down =
     [out_line ''keymatrix: live keyarr (rows down, cols right):'', ''       ''] @
     map (\<lambda>c. show_nat c @ '' '') [0..<8] @ [out_line ''''] @
     concat (map (\<lambda>r. (''  r'' @ show_nat r @ '':  '') #
       map (\<lambda>c. if down (int r) (int c) then ''* '' else ''. '') [0..<8] @ [out_line '''']) [0..<8])"

definition specials_text :: "(int \<Rightarrow> int \<Rightarrow> bool) \<Rightarrow> string" where
  "specials_text down =
     (let state = (\<lambda>r c. if down r c then ''on'' else ''off'')
      in out_line (''  RESTORE: '' @ state km_row_restore_1 km_col_restore_1 @ ''   CAPSLOCK: '' @
           state km_row_capslock km_col_capslock @ ''   4080: '' @ state km_row_4080column km_col_4080column))"

definition injection_text :: "km_injection option \<Rightarrow> string list" where
  "injection_text act = (case act of
     None \<Rightarrow> [CHR 0x0A # out_line ''no active injection'']
   | Some i \<Rightarrow> (CHR 0x0A # out_line (''active injection: '' @ km_mode_str (inj_mode i) @ '', '' @ n_keys (inj_keys i))) #
       map key_line (inj_keys i) @ [reads_line (inj_total i) (inj_sampling i)])"

definition report_text :: "km_report option \<Rightarrow> string list" where
  "report_text rep = (case rep of
     None \<Rightarrow> []
   | Some l \<Rightarrow> (CHR 0x0A # out_line (''last tap: '' @ n_keys (rep_keys l) @ '' ('' @ km_mode_str (rep_mode l) @ '')'')) #
       map key_line (rep_keys l) @
       [out_line (''  released after '' @ show_nat (unat (rep_frames l)) @ '' frame'' @ plural (unat (rep_frames l)) @
          ''; reason: '' @ km_reason_str (rep_reason l)),
        reads_line (rep_total l) (rep_sampling l)])"

definition show_text :: "km_spec \<times> km_world \<Rightarrow> string list" where
  "show_text = (\<lambda>(s, w). matrix_text (w_pressed w) @ [specials_text (w_pressed w)] @ injection_text (sp_inj s) @
     report_text (sp_report s))"

text \<open>The key names in five columns.\<close>

fun names_table :: "nat \<Rightarrow> string list \<Rightarrow> string list" where
  "names_table i [] = []"
| "names_table i (n # ns) = pad_right 12 n # (if (i + 1) mod 5 = 0 then [CHR 0x0A # ''  ''] else []) @ names_table (i + 1) ns"

definition names_text :: "string list" where
  "names_text = (let names = map fst c64_keys in
     [out_line ''keymatrix: known C64 key names (case-insensitive):'' @ ''  ''] @ names_table 0 names @
     (if length names mod 5 \<noteq> 0 then [out_line ''''] else []) @
     [CHR 0x0A # out_line (''  Use '' @ quoted ''keymatrix poke <row> <col> <0|1>'' @ '' for raw matrix bits.''),
      out_line (''  Combine names for chords, e.g. '' @ quoted ''keymatrix tap lshift a'' @ ''.'')])"

definition sp_says :: "km_op \<Rightarrow> km_spec \<times> km_world \<Rightarrow> string list" where
  "sp_says op sw = map (vsnprintf 512) (case op of
     Tap args \<Rightarrow> tap_text args | Press args \<Rightarrow> press_text args | Release args \<Rightarrow> release_text args
   | Poke args \<Rightarrow> poke_text args | Show \<Rightarrow> show_text sw | Names \<Rightarrow> names_text | _ \<Rightarrow> [])"

fun transcript :: "(int \<Rightarrow> int \<Rightarrow> bool) \<Rightarrow> km_op list \<Rightarrow> km_spec \<times> km_world \<Rightarrow> string list" where
  "transcript wired [] sw = []"
| "transcript wired (op # ops) sw = sp_says op sw @ transcript wired ops (sp_do wired op sw)"

section \<open>What the core emits\<close>

lemma parse_args_text:
  assumes "pred_option c_string args"
  shows "km_parse_args args usage = sp_parse usage args"
  using assms parse_key_list_words [of "the args" km_max_keys]
  by (cases args) (auto simp: km_parse_args_def sp_parse_def km_copy_args_def no_args_def)

lemma show_keys_text:
  "n \<le> length ks \<Longrightarrow> for_each (km_show_key km ks) [0..<n] h = Some (km_outs km (map key_line (take n ks)) h)"
  by (induction n)
    (simp_all add: for_each_append km_outs_def km_show_key_def key_line_def aget_def take_Suc_conv_app_nth)

lemma names_steps:
  "i mod 5 = n \<Longrightarrow> fold (km_name_step km) es (n, h) =
     ((i + length es) mod 5, km_outs km (names_table i (map fst es)) h)"
proof (induction es arbitrary: i n h)
  case Nil
  then show ?case by (simp add: km_outs_def)
next
  case (Cons e es)
  have "km_name_step km e (n, h) = ((i + 1) mod 5,
      km_outs km (pad_right 12 (fst e) # (if (i + 1) mod 5 = 0 then [CHR 0x0A # ''  ''] else [])) h)"
    using Cons.prems by (auto simp: km_name_step_def km_outs_def Let_def mod_Suc)
  with Cons.IH [of "i + 1" "(i + 1) mod 5"] show ?case
    by (simp add: km_outs_append)
qed

lemma names_emits: "km_core_names (km, h) = (km, km_outs km names_text h)"
proof -
  have "fold (km_name_step km) c64_keys (0, h) =
      (length (map fst c64_keys) mod 5, km_outs km (names_table 0 (map fst c64_keys)) h)" for h
    using names_steps [of 0 0] by simp
  then show ?thesis
    by (simp add: km_core_names_def names_text_def Let_def km_outf_outs km_outs_append)
qed

section \<open>The console interface\<close>

text \<open>Only printing writes on the console, and the keyboard read back is the one that is pressed.\<close>

locale km_console = km_keyboard host wired pressed alarm_at
  for host :: "'h km_host_t" and wired :: "int \<Rightarrow> int \<Rightarrow> bool"
    and pressed :: "'h \<Rightarrow> int \<Rightarrow> int \<Rightarrow> bool" and alarm_at :: "'h \<Rightarrow> u64 option" +
  fixes out :: "'h \<Rightarrow> 'o" and put :: "string \<Rightarrow> 'o \<Rightarrow> 'o"
  assumes out_emit: "out (emit_text host s h) = put s (out h)"
    and out_keep: "out (set_keyarr_any host r c v h) = out h" "out (clear_keymatrix host h) = out h"
      "out (set_alarm host t h) = out h" "out (cancel_alarm host h) = out h"
    and read_row: "i < 8 \<Longrightarrow> j < 8 \<Longrightarrow> bit (get_keyarr host (int i) h) j = pressed h (int i) (int j)"
    and read_restore: "custom_key_get host KM_CUSTOM_RESTORE1 h \<noteq> 0 \<longleftrightarrow> pressed h km_row_restore_1 km_col_restore_1"
    and read_caps: "custom_key_get host KM_CUSTOM_CAPS h \<noteq> 0 \<longleftrightarrow> pressed h km_row_capslock km_col_capslock"
    and read_4080: "custom_key_get host KM_CUSTOM_4080 h \<noteq> 0 \<longleftrightarrow> pressed h km_row_4080column km_col_4080column"
begin

definition says :: "string list \<Rightarrow> 'h \<Rightarrow> ('h km_core_t \<times> 'h) option \<Rightarrow> bool" where
  \<comment> \<open>an operation that ends well has added these texts to the console, each cut to the buffer of \<open>km_outf\<close>\<close>
  "says ss h r \<longleftrightarrow> (\<forall>km' h'. r = Some (km', h') \<longrightarrow> out h' = fold put (map (vsnprintf 512) ss) (out h))"

lemma says_Some [simp]:
  "says ss h (Some (km', h')) \<longleftrightarrow> out h' = fold put (map (vsnprintf 512) ss) (out h)"
  by (simp add: says_def)

text \<open>A core of this host; the predicate keeps the host's name out of the way.\<close>

definition own :: "'h km_core_t \<Rightarrow> bool" where
  "own km \<longleftrightarrow> km_host km = host"

lemma own_fields [simp]:
  "own (km\<lparr>km_active := a\<rparr>) = own km" "own (km\<lparr>km_mode := m\<rparr>) = own km" "own (km\<lparr>km_keys := ks\<rparr>) = own km"
  "own (km\<lparr>km_n_keys := n\<rparr>) = own km" "own (km\<lparr>cia1_reads_total := t\<rparr>) = own km"
  "own (km\<lparr>cia1_reads_sampling := t\<rparr>) = own km" "own (km\<lparr>timeout_clk := c\<rparr>) = own km"
  "own (km\<lparr>last_reason := r\<rparr>) = own km" "own (km\<lparr>press_clk := c\<rparr>) = own km" "own (km\<lparr>km_last := l\<rparr>) = own km"
  by (simp_all add: own_def)

lemma out_ops [simp]:
  assumes "own km"
  shows "out (km_outf km s h) = put (vsnprintf 512 s) (out h)"
    and "out (km_outs km ss h) = fold put (map (vsnprintf 512) ss) (out h)"
    and "out (set_keyarr_any (km_host km) r c v h) = out h" "out (clear_keymatrix (km_host km) h) = out h"
    and "out (set_alarm (km_host km) t h) = out h" "out (cancel_alarm (km_host km) h) = out h"
proof -
  have host: "km_host km = host" using assms by (simp add: own_def)
  show outf: "out (km_outf km s h) = put (vsnprintf 512 s) (out h)" for s h
    by (simp add: km_outf_def out_emit host)
  show "out (km_outs km ss h) = fold put (map (vsnprintf 512) ss) (out h)"
    by (induction ss arbitrary: h) (simp_all add: km_outs_def outf)
qed (use assms in \<open>simp_all add: own_def out_keep\<close>)

lemma pressed_outs: "own km \<Longrightarrow> pressed (km_outs km ss h) = pressed h"
  using view_outs [of km ss h] view_sel(1) unfolding own_def by metis

text \<open>The steps that say nothing.\<close>

lemma apply_bits_quiet: "own km \<Longrightarrow> km_apply_bits km ks n v h = Some h' \<Longrightarrow> out h' = out h"
  unfolding km_apply_bits_def
  by (erule for_each_keeps [of _ _ _ _ out]) (auto split: bind_splits)

lemma release_now_quiet:
  "own km \<Longrightarrow> km_release_now reason (km, h) = Some (km', h') \<Longrightarrow> out h' = out h \<and> own km'"
  by (auto simp: km_release_now_def Let_def dest: apply_bits_quiet split: if_splits bind_splits)

lemma supersede_quiet:
  "own km \<Longrightarrow> km_supersede_active (km, h) = Some (km', h') \<Longrightarrow> out h' = out h \<and> own km'"
  by (cases "km_active km") (auto simp: km_supersede_active_def dest: release_now_quiet)

lemma drop_released_quiet:
  "own km \<Longrightarrow> km_drop_released ks (km, h) = Some (km', h') \<Longrightarrow> out h' = out h \<and> own km'"
  by (auto simp: km_drop_released_def Let_def dest: release_now_quiet [rotated] split: if_splits bind_splits)

text \<open>The verbs.\<close>

lemma tap_says:
  assumes "own km" "pred_option c_string args"
  shows "says (tap_text args) h (km_core_tap args (km, h))"
  using assms
  by (auto simp: km_core_tap_def tap_text_def parse_args_text says_def Let_def n_keys_def no_keys_def
      dest!: apply_bits_quiet [rotated] supersede_quiet [rotated] split: sum.splits if_splits bind_splits)

lemma press_says:
  assumes "own km" "pred_option c_string args"
  shows "says (press_text args) h (km_core_press args (km, h))"
  using assms
  by (auto simp: km_core_press_def press_text_def parse_args_text says_def Let_def n_keys_def no_keys_def
      dest!: apply_bits_quiet [rotated] supersede_quiet [rotated] split: sum.splits if_splits bind_splits)

lemma release_says:
  assumes "own km" "pred_option c_string args"
  shows "says (release_text args) h (km_core_release args (km, h))"
  using assms
  by (auto simp: km_core_release_def release_text_def parse_args_text says_def Let_def n_keys_def no_keys_def
      dest!: apply_bits_quiet [rotated] release_now_quiet [rotated] drop_released_quiet [rotated]
      split: sum.splits if_splits bind_splits)

lemma poke_says:
  "own km \<Longrightarrow> says (poke_text args) h (Some (km_core_poke args (km, h)))"
  by (auto simp: km_core_poke_def poke_text_def km_copy_args_def split: option.split)

lemma show_row_text:
  assumes "own km" "r < 8"
  shows "km_show_row km r h = km_outs km ((''  r'' @ show_nat r @ '':  '') #
    map (\<lambda>c. if pressed h (int r) (int c) then ''* '' else ''. '') [0..<8] @ [out_line '''']) h"
proof -
  have eq: "map (\<lambda>c. (if bit (get_keyarr host (int r) h) c then ''*'' else ''.'') @ '' '') [0..<8] =
      map (\<lambda>c. if pressed h (int r) (int c) then ''* '' else ''. '') [0..<8]"
    by (rule map_cong [OF refl]) (use read_row [OF assms(2)] in \<open>auto simp del: upt_Suc\<close>)
  from assms(1) show ?thesis
    by (simp add: km_show_row_def own_def Let_def km_outf_outs km_outs_append eq del: upt_Suc)
qed

lemma show_rows_text:
  assumes "own km" "\<forall>r\<in>set rs. r < 8"
  shows "fold (km_show_row km) rs h = km_outs km (concat (map (\<lambda>r. (''  r'' @ show_nat r @ '':  '') #
    map (\<lambda>c. if pressed h (int r) (int c) then ''* '' else ''. '') [0..<8] @ [out_line '''']) rs)) h"
  using assms(2)
proof (induction rs arbitrary: h)
  case (Cons r rs)
  with assms(1) show ?case
    by (simp add: show_row_text pressed_outs km_outs_append del: upt_Suc)
qed (simp add: km_outs_def)

lemma show_says:
  assumes wf: "km_wf host km"
  shows "km_core_show (km, h) = Some (km, km_outs km (show_text (km_abs km, view h)) h)"
proof -
  have own: "own km" and n: "km_n_keys km \<le> length (km_keys km)"
    "last_n_keys (km_last km) \<le> length (last_keys (km_last km))"
    using wf by (simp_all add: km_wf_def own_def)
  have host: "km_host km = host" using own by (simp add: own_def)
  have sp: "on_off (custom_key_get host KM_CUSTOM_RESTORE1 h) = (if pressed h km_row_restore_1 km_col_restore_1 then ''on'' else ''off'')"
    "on_off (custom_key_get host KM_CUSTOM_CAPS h) = (if pressed h km_row_capslock km_col_capslock then ''on'' else ''off'')"
    "on_off (custom_key_get host KM_CUSTOM_4080 h) = (if pressed h km_row_4080column km_col_4080column then ''on'' else ''off'')" for h
    by (simp_all add: on_off_def read_restore read_caps read_4080)
  have rows: "fold (km_show_row km) [0..<8] h = km_outs km (concat (map (\<lambda>r. (''  r'' @ show_nat r @ '':  '') #
      map (\<lambda>c. if pressed h (int r) (int c) then ''* '' else ''. '') [0..<8] @ [out_line '''']) [0..<8])) h" for h
    by (rule show_rows_text [OF own]) simp
  show ?thesis
    by (cases "km_active km"; cases "last_valid (km_last km)")
      (simp_all add: km_core_show_def show_text_def matrix_text_def specials_text_def injection_text_def report_text_def
        km_abs_def n_keys_def n Let_def host sp rows show_keys_text pressed_outs [OF own] km_outf_outs km_outs_append del: upt_Suc)
qed

lemma observe_quiet: "own km \<Longrightarrow> out (snd (km_observe sampled (km, h))) = out h"
  by (simp add: km_observe_def Let_def)

lemma reads_quiet:
  assumes "own km"
  shows "says [] h (km_core_cia1_pa_read m (km, h))" "says [] h (km_core_cia1_pb_read m (km, h))"
  using assms observe_quiet [of "km\<lparr>cia1_reads_total := cia1_reads_total km + 1\<rparr>" _ h]
  by (auto simp: km_core_cia1_pa_read_def km_core_cia1_pb_read_def says_def Let_def dest: sym split: if_splits bind_splits)
    (metis snd_conv)+

lemma binmon_quiet:
  assumes "own km"
  shows "says [] h (map_option snd (km_core_binmon_set body len (km, h)))"
    and "says [] h (map_option snd (km_core_binmon_tap body len (km, h)))"
proof -
  have loop: "out h' = out h" if "for_each (\<lambda>i h. do {
        r \<leftarrow> aget body (1 + i * 3);
        c \<leftarrow> aget body (1 + i * 3 + 1);
        v \<leftarrow> aget body (1 + i * 3 + 2);
        Some (set_keyarr_any (km_host km) (sint r) (sint c) (if v \<noteq> 0 then 1 else 0) h)
      }) is h = Some h'" for "is" h'
    using that by (rule for_each_keeps [of _ _ _ _ out]) (use assms in \<open>auto split: bind_splits\<close>)
  show "says [] h (map_option snd (km_core_binmon_set body len (km, h)))"
    by (auto simp: km_core_binmon_set_def says_def dest!: loop [simplified] split: if_splits bind_splits)
  show "says [] h (map_option snd (km_core_binmon_tap body len (km, h)))"
    using assms by (auto simp: km_core_binmon_tap_def says_def Let_def
        dest!: apply_bits_quiet [rotated] supersede_quiet [rotated] split: if_splits bind_splits)
qed

lemma do_says:
  assumes wf: "km_wf host km" and ok: "op_ok op" and run: "km_do op (km, h) = Some (km', h')"
  shows "out h' = fold put (sp_says op (km_abs km, view h)) (out h)"
proof -
  have own: "own km" using wf by (simp add: km_wf_def own_def)
  have "says (case op of
     Tap args \<Rightarrow> tap_text args | Press args \<Rightarrow> press_text args | Release args \<Rightarrow> release_text args
   | Poke args \<Rightarrow> poke_text args | Show \<Rightarrow> show_text (km_abs km, view h) | Names \<Rightarrow> names_text | _ \<Rightarrow> []) h (km_do op (km, h))"
    using ok own release_now_quiet [OF own, of _ h]
    by (cases op) (auto simp: km_do_def op_ok_def tap_says press_says release_says poke_says show_says [OF wf] names_emits
        reads_quiet binmon_quiet km_core_on_alarm_def says_def [of "[]" h "km_release_now _ _"] simp del: says_Some
        simp: says_Some [of _ _ km "km_outs km _ h"])
  with run show ?thesis by (simp add: sp_says_def)
qed

end

section \<open>The consoles of the test suite and of the monitor\<close>

definition mock_put :: "string \<Rightarrow> string \<Rightarrow> string" where
  \<comment> \<open>the capture buffer of the tests drops a text that no longer fits\<close>
  "mock_put s buf = (if length buf + length s < 32768 then buf @ s else buf)"

interpretation mock_console: km_console km_mock_host mock_wired mock_pressed mock_alarm mk_out mock_put
  by unfold_locales
    (simp_all add: km_mock_host_def km_h_set_def km_h_clear_def km_h_emit_def mock_put_def Let_def mock_pressed_def
      on_matrix_def custom_id_def km_sentinels)

text \<open>On the emulator, \<open>mon_out\<close> writes on the monitor's console and no other call of the adapter does.\<close>

definition console_laws :: "('v, 'a) vice_keyboard \<Rightarrow> ('v \<Rightarrow> 'o) \<Rightarrow> (string \<Rightarrow> 'o \<Rightarrow> 'o) \<Rightarrow> bool" where
  "console_laws V out put \<longleftrightarrow>
     (\<forall>s v. out (mon_out V s v) = put s (out v)) \<and>
     (\<forall>r c x v. out (keyboard_set_keyarr_any V r c x v) = out v) \<and>
     (\<forall>v. out (keyboard_clear_keymatrix V v) = out v) \<and> (\<forall>n v. out (snd (alarm_new V n v)) = out v) \<and>
     (\<forall>a t v. out (alarm_set V a t v) = out v) \<and> (\<forall>a v. out (alarm_unset V a v) = out v)"

lemma kmx_host_console:
  assumes "vice_keyboard_laws V wired pressed armed" "matrix_laws V pressed" "console_laws V out put"
  shows "km_console (kmx_host V) wired (\<lambda>d. pressed (vice d)) (dev_alarm armed) (\<lambda>d. out (vice d)) put"
proof (rule km_console.intro [OF kmx_host_keyboard [OF assms(1)]], unfold_locales)
  have mask: "bit ((x :: int) AND 0xff) j = bit x j" if "j < 8" for x j
    using that bit_mask_iff [of 8 j, where ?'a = int] by (simp add: bit_and_iff mask_eq_exp_minus_1)
  show "bit (get_keyarr (kmx_host V) (int i) d) j = pressed (vice d) (int i) (int j)" if "i < 8" "j < 8" for i j d
    using assms(2) that by (simp add: kmx_host_def h_get_keyarr_def mask matrix_laws_def)
qed (use assms(2,3) in \<open>auto simp: matrix_laws_def console_laws_def kmx_host_def h_set_keyarr_any_def h_emit_def
    h_clear_keymatrix_def h_set_alarm_def h_cancel_alarm_def h_custom_key_get_def case_prod_unfold Let_def split: option.split\<close>)

lemma mon_do_says:
  assumes laws: "vice_keyboard_laws V wired pressed armed" "matrix_laws V pressed" "console_laws V out put"
    and wf: "kmx_wf V s" and ok: "op_ok op" and alarm: "op = Alarm \<longrightarrow> kmx_inited s"
    and run: "mon_do V op (s, d) = Some (s', d')"
  shows "out (vice d') = fold put (sp_says op (kmx_abs V s, kmx_view V pressed armed d)) (out (vice d))"
proof (cases "initialises op \<or> kmx_inited s")
  case True
  with run obtain km where "km_do op (kmx (kmx_ensure V s), d) = Some (km, d')" by (auto simp: mon_do_core)
  with km_console.do_says [OF kmx_host_console [OF laws] _ ok this] wf show ?thesis
    by (simp add: kmx_wf_def kmx_abs_def kmx_view_def)
next
  case False
  then have "d' = d" "sp_says op sw = []" for sw
    using alarm run mon_do_idle(1) [of op s V d] by (cases op; auto simp: sp_says_def)+
  then show ?thesis by simp
qed

lemma mon_run_says:
  assumes laws: "vice_keyboard_laws V wired pressed armed" "matrix_laws V pressed" "console_laws V out put"
  shows "kmx_wf V s \<Longrightarrow> list_all op_ok ops \<Longrightarrow> alarms_after (kmx_inited s) ops \<Longrightarrow>
    \<exists>s' d'. for_each (mon_do V) ops (s, d) = Some (s', d') \<and>
      out (vice d') = fold put (transcript wired ops (kmx_abs V s, kmx_view V pressed armed d)) (out (vice d))"
proof (induction ops arbitrary: s d)
  case Nil
  then show ?case by simp
next
  case (Cons op ops)
  then have op: "op_ok op" "op = Alarm \<longrightarrow> kmx_inited s" by auto
  obtain s1 d1 where m: "mon_do V op (s, d) = Some (s1, d1)" "kmx_wf V s1"
    "kmx_inited s1 = (kmx_inited s \<or> initialises op)"
    "sp_do wired op (kmx_abs V s, kmx_view V pressed armed d) = (kmx_abs V s1, kmx_view V pressed armed d1)"
    using mon_do_step [OF laws(1) Cons.prems(1) op, of d] by auto
  from mon_do_says [OF laws Cons.prems(1) op m(1)] m Cons.IH [of s1 d1] Cons.prems show ?case by auto
qed

section \<open>Properties\<close>

text \<open>C3: From the start of the emulator, what a session of monitor commands, binary requests, CIA reads and
  alarms prints is the transcript of the keyboard contract: every verb answers with its one line or with
  what is wrong with its argument, \<open>show\<close> draws the keys that are down and reports the active and the last
  injection, \<open>names\<close> lists the table, and requests, reads and alarms print nothing.\<close>

theorem mon_keymatrix_console:
  assumes "vice_keyboard_laws V wired pressed armed" "matrix_laws V pressed" "console_laws V out put"
    and "\<not> kmx_inited s" "list_all op_ok ops" "alarms_after False ops"
  shows "\<exists>s' d'. for_each (mon_do V) ops (s, d) = Some (s', d') \<and>
    out (vice d') = fold put (transcript wired ops
      (\<lparr>sp_inj = None, sp_report = None, sp_timeout = 0\<rparr>, kmx_view V pressed armed d)) (out (vice d))"
proof -
  have "kmx_wf V s" using assms(4) by (simp add: kmx_wf_def kmx_ensure_def km_wf_init)
  moreover have "kmx_abs V s = \<lparr>sp_inj = None, sp_report = None, sp_timeout = 0\<rparr>"
    using assms(4) by (simp add: kmx_abs_def kmx_ensure_def km_abs_def km_core_init_def)
  ultimately show ?thesis using mon_run_says [OF assms(1-3), of s ops d] assms(4-6) by auto
qed

lemma vice_mock_console: "matrix_laws vice_mock mock_pressed" "console_laws vice_mock mk_out mock_put"
  by (simp_all add: matrix_laws_def console_laws_def vice_mock_def mock_pressed_def on_matrix_def custom_id_def
      km_sentinels km_h_set_def km_h_clear_def km_h_emit_def mock_put_def Let_def)

lemma mon_keymatrix_console_witness:
  "\<exists>s' d'. for_each (mon_do vice_mock) [Pa_Read 0, Press (Some ''nokey''), Poke None]
      (\<lparr>kmx = km_core_init (kmx_host vice_mock), kmx_inited = False\<rparr>, \<lparr>kmx_alarm = None, vice = km_mock_setup\<rparr>) =
      Some (s', d') \<and>
    mk_out (vice d') = out_line (''error: unknown key '' @ quoted ''nokey'' @ '' (try '' @ quoted ''keymatrix names'' @ '')'') @
      poke_usage"
proof -
  have f: "find_key_by_name ''nokey'' = None"
    by (rule find_key_miss) (simp_all add: c_string_def lower_names_def char_eval)
  have t: "press_text (Some ''nokey'') =
      [out_line (''error: unknown key '' @ quoted ''nokey'' @ '' (try '' @ quoted ''keymatrix names'' @ '')'')]"
    using f by (simp add: press_text_def sp_parse_def no_args_def line_words_def blank_def parse_key_token_def km_max_keys_def char_eval)
  have k: "sp_keys (Some ''nokey'') = None"
    using f by (simp add: sp_keys_def no_args_def line_words_def blank_def parse_key_token_def km_max_keys_def char_eval)
  show ?thesis
    using mon_keymatrix_console [OF vice_mock_laws vice_mock_console, of "\<lparr>kmx = km_core_init (kmx_host vice_mock), kmx_inited = False\<rparr>"
        "[Pa_Read 0, Press (Some ''nokey''), Poke None]" "\<lparr>kmx_alarm = None, vice = km_mock_setup\<rparr>"]
    by (simp add: op_ok_def c_string_def sp_says_def t k poke_text_def no_args_def sp_do_def sp_read_def mock_put_def km_mock_setup_def
        vsnprintf_def poke_usage_def out_line_def quoted_def char_eval)
qed


end
