(* ===== verification/Test_Harness.thy ===== *)
theory Test_Harness
  imports Prelude Clib
begin

text \<open>
  The test harness \<open>tests/revice_test.h\<close>. A unit test is the list of the outcomes of its checks, in order,
  or \<open>None\<close> when the code under test goes outside an array; the harness counts checks and failures and
  turns them into the exit status. The messages of failed checks are not modelled.
\<close>

section \<open>Checks\<close>

record harness =
  revice_tests_run :: int
  revice_tests_failed :: int

definition CHECK :: "bool \<Rightarrow> harness \<Rightarrow> harness" where
  "CHECK cond t =
     (let t = t\<lparr>revice_tests_run := revice_tests_run t + 1\<rparr>
      in if \<not> cond then t\<lparr>revice_tests_failed := revice_tests_failed t + 1\<rparr> else t)"

definition mem_eq :: "'a list \<Rightarrow> 'a list \<Rightarrow> nat \<Rightarrow> bool option" where
  \<comment> \<open>\<open>memcmp (a, b, n) == 0\<close>\<close>
  "mem_eq a b n = do { x \<leftarrow> aslice a 0 n; y \<leftarrow> aslice b 0 n; Some (x = y) }"

definition REVICE_TEST_MAIN_END :: "harness \<Rightarrow> int" where
  "REVICE_TEST_MAIN_END t = (if revice_tests_failed t \<noteq> 0 then 1 else 0)"

type_synonym unit_test = "bool list option"

definition run_tests :: "unit_test list \<Rightarrow> (int \<times> harness) option" where
  \<comment> \<open>a test program's \<open>main\<close>: its tests one after the other, then the exit status\<close>
  "run_tests tests = do {
     t \<leftarrow> for_each (\<lambda>test t. do { cs \<leftarrow> test; Some (fold CHECK cs t) }) tests
            \<lparr>revice_tests_run = 0, revice_tests_failed = 0\<rparr>;
     Some (REVICE_TEST_MAIN_END t, t)
   }"

section \<open>Suites that pass\<close>

definition passes :: "nat \<Rightarrow> unit_test \<Rightarrow> bool" where
  \<comment> \<open>this many checks, which all hold\<close>
  "passes n test \<longleftrightarrow> (case test of None \<Rightarrow> False | Some cs \<Rightarrow> length cs = n \<and> list_all (\<lambda>c. c) cs)"

lemma check_true:
  "list_all (\<lambda>c. c) cs \<Longrightarrow> fold CHECK cs t = t\<lparr>revice_tests_run := revice_tests_run t + int (length cs)\<rparr>"
  by (induction cs arbitrary: t) (simp_all add: CHECK_def)

lemma run_passing:
  assumes "list_all2 passes ns tests"
  shows "run_tests tests = Some (0, \<lparr>revice_tests_run = int (sum_list ns), revice_tests_failed = 0\<rparr>)"
proof -
  have "for_each (\<lambda>test t. do { cs \<leftarrow> test; Some (fold CHECK cs t) }) tests t =
      Some (t\<lparr>revice_tests_run := revice_tests_run t + int (sum_list ns)\<rparr>)" for t
    using assms
    by (induction ns tests arbitrary: t rule: list_all2_induct)
      (auto simp: passes_def check_true split: option.splits)
  then show ?thesis by (simp add: run_tests_def REVICE_TEST_MAIN_END_def)
qed

section \<open>Library functions of the tests\<close>

fun strstr :: "string \<Rightarrow> string \<Rightarrow> string option" where
  \<comment> \<open>the text from the first occurrence on\<close>
  "strstr [] needle = (if needle = [] then Some [] else None)"
| "strstr (c # cs) needle =
     (if take (length needle) (c # cs) = needle then Some (c # cs) else strstr cs needle)"

definition contains :: "string \<Rightarrow> string \<Rightarrow> bool" where
  \<comment> \<open>\<open>strstr (s, needle) != NULL\<close>\<close>
  "contains s needle \<longleftrightarrow> strstr s needle \<noteq> None"

lemma contains_prefix: "contains (needle @ r) needle"
  by (cases "needle @ r"; cases needle) (auto simp: contains_def)

lemma contains_later: "contains s needle \<Longrightarrow> contains (p @ s) needle"
  by (induction p) (auto simp: contains_def)

lemma contains_append: "contains (p @ needle @ r) needle"
  by (intro contains_later contains_prefix)

lemma contains_before: "contains s needle \<Longrightarrow> contains (s @ r) needle"
proof (induction s)
  case Nil
  then show ?case using contains_prefix [of needle r] by (simp add: contains_def split: if_splits)
next
  case (Cons c cs)
  show ?case
  proof (cases "take (length needle) (c # cs) = needle")
    case True
    then have "length needle \<le> length (c # cs)" by (metis length_take min.cobounded1)
    with True have "take (length needle) (c # cs @ r) = needle"
      using take_append [of "length needle" "c # cs" r] by simp
    then show ?thesis by (simp add: contains_def)
  next
    case False
    with Cons show ?thesis by (simp add: contains_def)
  qed
qed

lemma contains_in: "s \<in> set ss \<Longrightarrow> contains s needle \<Longrightarrow> contains (concat ss) needle"
  by (auto simp: in_set_conv_decomp) (intro contains_later contains_before)

lemma contains_take: "length (p @ needle) \<le> k \<Longrightarrow> contains (take k (p @ needle @ r)) needle"
  using contains_append [of p needle "take (k - length (p @ needle)) r"] by simp

lemma contains_cons: "contains s needle \<Longrightarrow> contains (c # s) needle"
  using contains_later [of s needle "[c]"] by simp

definition bytes :: "string \<Rightarrow> u8 list" where
  "bytes s = map (\<lambda>c. of_nat (ord c)) s"

end
