(* ===== verification/Test_Keymatrix.thy ===== *)
theory Test_Keymatrix
  imports Test_Harness Keymatrix_Console
begin

unbundle bit_operations_syntax

text \<open>
  The unit tests \<open>libs/keymatrix/tests/test_keymatrix.c\<close>, run on the model: every check of the program holds
  of the definitions the theorems are about, on the mock keyboard the tests use. Every test is evaluated
  by the simplifier.
\<close>

section \<open>The tests\<close>

definition km_setup :: km_state where
  "km_setup = (km_core_init km_mock_host, km_mock_setup)"

definition down :: "km_mock_t \<Rightarrow> int \<Rightarrow> nat \<Rightarrow> bool" where
  \<comment> \<open>\<open>(m.keyarr[row] & (1 << col)) != 0\<close>\<close>
  "down m r c \<longleftrightarrow> mk_keyarr m r AND push_bit c 1 \<noteq> 0"

definition test_names :: unit_test where
  "test_names = (let (km, m) = km_core_names km_setup
     in Some [contains (mk_out m) ''LSHIFT'', contains (mk_out m) ''RUNSTOP'', contains (mk_out m) ''RESTORE''])"

definition test_tap_single :: unit_test where
  "test_tap_single = do {
     (km, m) \<leftarrow> km_core_tap (Some ''a'') km_setup;
     Some [down m 1 2, km_active km, km_mode km = KM_MODE_TAP_OBSERVED, mk_alarm_set m,
       contains (mk_out m) ''tap 1 key'']
   }"

definition test_tap_chord :: unit_test where
  "test_tap_chord = do {
     (km, m) \<leftarrow> km_core_tap (Some ''lshift a'') km_setup;
     Some [down m 1 7, down m 1 2, km_n_keys km = 2]
   }"

definition test_unknown_key :: unit_test where
  "test_unknown_key = do {
     (km, m) \<leftarrow> km_core_tap (Some ''notakey'') km_setup;
     Some [\<not> km_active km, contains (mk_out m) ''unknown key'']
   }"

definition test_rc_pair :: unit_test where
  "test_rc_pair = do {
     (km, m) \<leftarrow> km_core_tap (Some ''7,7'') km_setup;
     Some [down m 7 7]
   }"

definition test_observed_release :: unit_test where
  "test_observed_release = do {
     (km, m) \<leftarrow> km_core_tap (Some ''a'') km_setup;
     (km, m) \<leftarrow> km_core_cia1_pa_read 0x00 (km, m);
     let read = [cia1_reads_total km = 1, cia1_reads_sampling km = 1, last_reason km = KM_RELEASE_OBSERVED,
       mk_alarm_clk m = mk_clock m + 1];
     (km, m) \<leftarrow> km_core_on_alarm (km, m);
     Some (read @ [\<not> km_active km, \<not> down m 1 2, last_release (km_last km) = KM_RELEASE_OBSERVED,
       last_valid (km_last km)])
   }"

definition test_no_sample_when_row_driven_high :: unit_test where
  "test_no_sample_when_row_driven_high = do {
     (km, m) \<leftarrow> km_core_tap (Some ''a'') km_setup;
     (km, m) \<leftarrow> km_core_cia1_pa_read 0xff (km, m);
     Some [cia1_reads_total km = 1, cia1_reads_sampling km = 0, last_reason km = KM_RELEASE_NONE]
   }"

definition test_timeout_release :: unit_test where
  "test_timeout_release = do {
     (km, m) \<leftarrow> km_core_tap (Some ''a'') km_setup;
     let m = m\<lparr>mk_clock := mk_clock m + of_int (60 * mk_cpf m)\<rparr>;
     (km, m) \<leftarrow> km_core_on_alarm (km, m);
     Some [\<not> km_active km, last_release (km_last km) = KM_RELEASE_TIMEOUT]
   }"

definition test_fixed_mode_ignores_observation :: unit_test where
  "test_fixed_mode_ignores_observation = do {
     (km, m) \<leftarrow> km_core_tap (Some ''a for 5'') km_setup;
     let tap = [km_mode km = KM_MODE_TAP_FIXED];
     (km, m) \<leftarrow> km_core_cia1_pa_read 0x00 (km, m);
     Some (tap @ [cia1_reads_sampling km = 1, last_reason km = KM_RELEASE_NONE, km_active km])
   }"

definition test_press_sticky :: unit_test where
  "test_press_sticky = do {
     (km, m) \<leftarrow> km_core_press (Some ''a'') km_setup;
     let press = [km_mode km = KM_MODE_PRESS_STICKY, \<not> mk_alarm_set m];
     (km, m) \<leftarrow> km_core_cia1_pa_read 0x00 (km, m);
     Some (press @ [km_active km])
   }"

definition test_release_all :: unit_test where
  "test_release_all = do {
     (km, m) \<leftarrow> km_core_press (Some ''a'') km_setup;
     (km, m) \<leftarrow> km_core_release (Some '''') (km, m);
     Some [\<not> km_active km, mk_clear_count m = 1]
   }"

definition test_release_subset :: unit_test where
  "test_release_subset = do {
     (km, m) \<leftarrow> km_core_press (Some ''a z'') km_setup;
     (km, m) \<leftarrow> km_core_release (Some ''a'') (km, m);
     let first = [\<not> down m 1 2, down m 1 4, km_n_keys km = 1];
     (km, m) \<leftarrow> km_core_release (Some ''z'') (km, m);
     Some (first @ [\<not> km_active km])
   }"

definition test_poke :: unit_test where
  "test_poke =
     (let (km, m) = km_core_poke (Some ''7 7 1'') km_setup;
          set = [down m 7 7];
          (km, m) = km_core_poke (Some ''7 7 0'') (km, m);
          clear = [\<not> down m 7 7];
          (km, m) = km_core_poke (Some ''9 9 1'') (km, m)
      in Some (set @ clear @ [contains (mk_out m) ''row must be'']))"

definition test_custom_key :: unit_test where
  "test_custom_key = do {
     (km, m) \<leftarrow> km_core_tap (Some ''restore'') km_setup;
     Some [mk_custom m KM_CUSTOM_RESTORE1 = 1]
   }"

definition test_binmon_set :: unit_test where
  "test_binmon_set = (let body = [1, 1, 2, 1] in do {
     (r, km, m) \<leftarrow> km_core_binmon_set body 4 km_setup;
     (r', km, m') \<leftarrow> km_core_binmon_set body 2 (km, m);
     Some [r = 0, down m 1 2, r' < 0]
   })"

definition test_binmon_tap :: unit_test where
  "test_binmon_tap = do {
     (r, km, m) \<leftarrow> km_core_binmon_tap [0, 60, 0, 1, 1, 2] 6 km_setup;
     let tap = [r = 0, km_active km, down m 1 2, km_mode km = KM_MODE_TAP_OBSERVED];
     (r, km, m) \<leftarrow> km_core_binmon_tap [0, 60, 0, 0] 4 (km, m);
     Some (tap @ [r < 0])
   }"

definition test_binmon_get_layout :: unit_test where
  "test_binmon_get_layout = do {
     st \<leftarrow> km_core_tap (Some ''a'') km_setup;
     (r, out, len) \<leftarrow> km_core_binmon_get (Some (replicate KM_BINMON_GET_RESPONSE_SIZE 0))
       (Some KM_BINMON_GET_RESPONSE_SIZE) st;
     buf \<leftarrow> out;
     row1 \<leftarrow> aget buf 1;
     n \<leftarrow> aget buf 21;
     lo \<leftarrow> aget buf 22;
     hi \<leftarrow> aget buf 23;
     let frames_left = (ucast lo OR push_bit 8 (ucast hi) :: u16);
     (r', _) \<leftarrow> km_core_binmon_get out (Some 10) st;
     Some [r = 0, len = Some KM_BINMON_GET_RESPONSE_SIZE, row1 = push_bit 2 1, n = 1,
       frames_left \<le> 60 \<and> 58 \<le> frames_left, r' < 0]
   }"

definition test_supersede :: unit_test where
  "test_supersede = do {
     (km, m) \<leftarrow> km_core_tap (Some ''a'') km_setup;
     (km, m) \<leftarrow> km_core_tap (Some ''b'') (km, m);
     Some [\<not> down m 1 2, down m 3 4, km_n_keys km = 1, last_release (km_last km) = KM_RELEASE_MANUAL]
   }"

definition keymatrix_tests :: "unit_test list" where
  "keymatrix_tests =
     [test_names, test_tap_single, test_tap_chord, test_unknown_key, test_rc_pair, test_observed_release,
      test_no_sample_when_row_driven_high, test_timeout_release, test_fixed_mode_ignores_observation,
      test_press_sticky, test_release_all, test_release_subset, test_poke, test_custom_key, test_binmon_set,
      test_binmon_tap, test_binmon_get_layout, test_supersede]"

section \<open>They pass\<close>

abbreviation key :: "int \<Rightarrow> int \<Rightarrow> string \<Rightarrow> km_key_t" where
  "key r c n \<equiv> \<lparr>row = r, col = c, kind = if r < 0 then 1 else 0, key_name = n\<rparr>"

lemma key_names:
  "find_key_by_name ''a'' = Some (key 1 2 ''A'')" "find_key_by_name ''b'' = Some (key 3 4 ''B'')"
  "find_key_by_name ''z'' = Some (key 1 4 ''Z'')" "find_key_by_name ''lshift'' = Some (key 1 7 ''LSHIFT'')"
  "find_key_by_name ''restore'' = Some (key (- 3) 0 ''RESTORE'')" "find_key_by_name ''notakey'' = None"
proof -
  show "find_key_by_name ''notakey'' = None"
    by (rule find_key_miss) (simp_all add: c_string_def lower_names_def char_eval)
qed (rule find_key_hit, simp_all add: c64_keys_def km_sentinels char_eval)+

lemma arguments:
  "sp_parse u (Some ''a'') = Inr ([key 1 2 ''A''], - 1)" "sp_parse u (Some ''b'') = Inr ([key 3 4 ''B''], - 1)"
  "sp_parse u (Some ''z'') = Inr ([key 1 4 ''Z''], - 1)"
  "sp_parse u (Some ''a z'') = Inr ([key 1 2 ''A'', key 1 4 ''Z''], - 1)"
  "sp_parse u (Some ''a for 5'') = Inr ([key 1 2 ''A''], 5)"
  "sp_parse u (Some ''lshift a'') = Inr ([key 1 7 ''LSHIFT'', key 1 2 ''A''], - 1)"
  "sp_parse u (Some ''restore'') = Inr ([key (- 3) 0 ''RESTORE''], - 1)"
  "sp_parse u (Some ''7,7'') = Inr ([key 7 7 ''7,7''], - 1)"
  "sp_parse u (Some ''notakey'') =
     Inl (out_line (''error: unknown key '' @ quoted ''notakey'' @ '' (try '' @ quoted ''keymatrix names'' @ '')''))"
  by (simp_all add: sp_parse_def no_args_def km_max_keys_def line_words_def blank_def parse_key_token_def
      parse_rc_pair_def vsnprintf_def bad_frames_def key_names char_eval)

lemma numbers: "show_nat (Suc 0) = ''1''" "show_nat 2 = ''2''" "show_int 60 = ''60''" "show_int 5 = ''5''"
  by (simp_all add: char_eval)

lemmas eval = passes_def km_setup_def parse_args_text arguments c_string_def chr_def char_of_def km_core_init_def
  km_supersede_active_def km_copy_keys_Some km_apply_bits_Some km_max_keys_def km_outf_def km_mock_host_def
  km_mock_setup_def km_h_emit_def km_h_set_def on_matrix_def down_def plural_def numbers vsnprintf_def out_line_def Let_def

lemma tap_pass:
  "passes 5 test_tap_single" "passes 3 test_tap_chord" "passes 2 test_unknown_key" "passes 1 test_rc_pair"
  "passes 1 test_custom_key"
  by (simp_all add: eval km_core_tap_def test_tap_single_def test_tap_chord_def test_unknown_key_def test_rc_pair_def
      test_custom_key_def contains_def quoted_def custom_id_def km_sentinels)

lemmas events = km_core_cia1_pa_read_def km_line_sampled_Some line_hit_def km_observe_def km_core_on_alarm_def
  km_release_now_def

lemma release_pass:
  "passes 8 test_observed_release" "passes 3 test_no_sample_when_row_driven_high" "passes 2 test_timeout_release"
  "passes 4 test_fixed_mode_ignores_observation"
  by (simp_all add: eval km_core_tap_def events test_observed_release_def test_no_sample_when_row_driven_high_def
      test_timeout_release_def test_fixed_mode_ignores_observation_def)

lemma press_pass:
  "passes 3 test_press_sticky" "passes 2 test_release_all" "passes 4 test_release_subset"
  by (simp_all add: eval km_core_press_def km_core_release_def events km_drop_released_def km_surviving_Some same_key_def
      no_args_def test_press_sticky_def test_release_all_def test_release_subset_def km_h_clear_def)

lemma poke_pass: "passes 3 test_poke"
proof -
  have "poke_parse ''7 7 1'' = Some (7, 7, 1)" "poke_parse ''7 7 0'' = Some (7, 7, 0)"
    "poke_parse ''9 9 1'' = Some (9, 9, 1)"
    by (simp_all add: poke_parse_def poke_number_def km_tok_def blank_def char_eval)
  moreover have "show_int 7 = ''7''" "show_int 0 = ''0''" "show_int 1 = ''1''" by (simp_all add: char_eval)
  ultimately show ?thesis
    by (simp add: eval km_core_poke_def no_args_def km_copy_args_def test_poke_def contains_def)
qed

lemma binmon_pass:
  "passes 3 test_binmon_set" "passes 5 test_binmon_tap" "passes 6 test_binmon_get_layout" "passes 4 test_supersede"
  by (simp_all add: eval km_core_tap_def km_core_binmon_set_def km_core_binmon_tap_def km_core_binmon_get_def
      km_get_response_def km_frames_left_def frames_or_default_def binmon_key_def test_binmon_set_def test_binmon_tap_def
      test_binmon_get_layout_def test_supersede_def events aget_def aset_def aput_def upt_rec put_le32_def put_le16_def
      take_Suc_update km_cpf_or_pal_def)

lemma put_all:
  "length buf + length (concat ss) < 32768 \<Longrightarrow> fold mock_put ss buf = buf @ concat ss"
  by (induction ss arbitrary: buf) (simp_all add: mock_put_def)

lemma names_table_width:
  "list_all (\<lambda>n. length n \<le> 12) ns \<Longrightarrow>
     length (concat (map (vsnprintf 512) (names_table i ns))) \<le> 15 * length ns"
  by (induction i ns rule: names_table.induct) (auto simp: vsnprintf_def pad_right_def)

lemma names_table_shows:
  "\<lbrakk>n \<in> set ns; length n \<le> 12\<rbrakk> \<Longrightarrow>
     contains (concat (map (vsnprintf 512) (names_table i ns))) n"
proof (induction i ns rule: names_table.induct)
  case (2 i m ms)
  show ?case
  proof (cases "n = m")
    case True
    with 2 show ?thesis
      by (auto simp: vsnprintf_def pad_right_def intro!: contains_prefix contains_before)
  next
    case False
    with 2 show ?thesis by (auto intro!: contains_later)
  qed
qed simp

lemma names_output:
  "length (concat (map (vsnprintf 512) names_text)) < 32768"
  "n \<in> fst ` set c64_keys \<Longrightarrow> length n \<le> 12 \<Longrightarrow> contains (concat (map (vsnprintf 512) names_text)) n"
proof -
  let ?out = "\<lambda>ss. concat (map (vsnprintf 512) ss)" and ?table = "names_table 0 (map fst c64_keys)"
  have short: "length (?out ss) \<le> 511 * length ss" for ss
    by (induction ss) (simp_all add: vsnprintf_def)
  obtain a bs where parts: "names_text = a # ?table @ bs" "length bs \<le> 3"
    by (simp add: names_text_def Let_def)
  have "length c64_keys \<le> 100" "list_all (\<lambda>n. length n \<le> 12) (map fst c64_keys)"
    by (simp_all add: c64_keys_def)
  with names_table_width [of "map fst c64_keys" 0] have "length (?out ?table) \<le> 1500" by simp
  with short [of "[a]"] short [of bs] parts(2) show "length (?out names_text) < 32768"
    unfolding parts(1) by simp
  show "contains (?out names_text) n" if "n \<in> fst ` set c64_keys" "length n \<le> 12"
    unfolding parts(1) using that names_table_shows [of n "map fst c64_keys" 0]
    by (simp add: contains_later contains_before)
qed

lemma names_pass: "passes 3 test_names"
proof -
  have "''LSHIFT'' \<in> fst ` set c64_keys" "''RUNSTOP'' \<in> fst ` set c64_keys" "''RESTORE'' \<in> fst ` set c64_keys"
    by (simp_all add: c64_keys_def)
  moreover have "mock_console.own (km_core_init km_mock_host)" by (simp add: mock_console.own_def km_core_init_def)
  then have "mk_out (km_outs (km_core_init km_mock_host) names_text km_mock_setup) =
      concat (map (vsnprintf 512) names_text)"
    using names_output(1) by (simp add: km_mock_setup_def put_all)
  ultimately show ?thesis
    by (simp add: passes_def test_names_def km_setup_def names_emits names_output(2))
qed

section \<open>The suite\<close>

text \<open>The program of unit tests of the keyboard core, run on the model, makes 62 checks, none of which fails.\<close>

theorem keymatrix_suite:
  "run_tests keymatrix_tests = Some (0, \<lparr>revice_tests_run = 62, revice_tests_failed = 0\<rparr>)"
  using run_passing [of "[3, 5, 3, 2, 1, 8, 3, 2, 4, 3, 2, 4, 3, 1, 3, 5, 6, 4]" keymatrix_tests]
  by (simp add: keymatrix_tests_def names_pass tap_pass [simplified] release_pass press_pass poke_pass binmon_pass)

end
