(* ===== verification/Test_Cores.thy ===== *)
theory Test_Cores
  imports Test_Harness Checkpoint Drive_Attach Bustrace Video
begin

unbundle bit_operations_syntax

text \<open>
  The unit tests of the four small cores (\<open>libs/checkpoint/tests\<close>, \<open>libs/driveattach/tests\<close>,
  \<open>libs/bustrace/tests\<close> and \<open>libs/video/tests\<close>), run on the model. A local array the test leaves
  uninitialised is zero.
\<close>

section \<open>Silent checkpoints\<close>

definition test_legacy_body_no_silent :: unit_test where
  "test_legacy_body_no_silent = do {
     r8 \<leftarrow> checkpoint_decode_silent (Some (replicate 8 0)) 8;
     r9 \<leftarrow> checkpoint_decode_silent (Some (replicate 9 0)) 9;
     Some [r8 = 0, r9 = 0]
   }"

definition test_extended_body_silent_set :: unit_test where
  "test_extended_body_silent_set = do {
     body10 \<leftarrow> aset (replicate 10 0) 9 1;
     r \<leftarrow> checkpoint_decode_silent (Some body10) 10;
     body10 \<leftarrow> aset body10 9 0x42;
     r' \<leftarrow> checkpoint_decode_silent (Some body10) 10;
     Some [r = 1, r' = 1]
   }"

definition test_extended_body_silent_clear :: unit_test where
  "test_extended_body_silent_clear = do {
     body10 \<leftarrow> aset (replicate 10 0) 9 0;
     r \<leftarrow> checkpoint_decode_silent (Some body10) 10;
     Some [r = 0]
   }"

definition test_null :: unit_test where
  "test_null = do { r \<leftarrow> checkpoint_decode_silent None 10; Some [r = 0] }"

definition checkpoint_tests :: "unit_test list" where
  "checkpoint_tests = [test_legacy_body_no_silent, test_extended_body_silent_set, test_extended_body_silent_clear,
     test_null]"

lemma checkpoint_pass:
  "passes 2 test_legacy_body_no_silent" "passes 2 test_extended_body_silent_set"
  "passes 1 test_extended_body_silent_clear" "passes 1 test_null"
  by code_simp+

section \<open>Drive attach\<close>

definition test_attach :: unit_test where
  "test_attach = (let body = [8, 0, 5] @ bytes ''x.d64'' in do {
     (r, req) \<leftarrow> da_decode (Some body) (of_nat (length body)) (Some da_zeroed);
     req \<leftarrow> req;
     Some [r = DA_OK, \<not> da_detach req, da_unit req = 8, da_drive req = 0, cstr (da_path req) = bytes ''x.d64'']
   })"

definition test_detach :: unit_test where
  "test_detach = do {
     (r, req) \<leftarrow> da_decode (Some [9, 1, 0]) 3 (Some da_zeroed);
     req \<leftarrow> req;
     p \<leftarrow> aget (da_path req) 0;
     Some [r = DA_OK, da_detach req, da_unit req = 9, da_drive req = 1, p = 0]
   }"

definition test_short_body :: unit_test where
  "test_short_body = do {
     (r, req) \<leftarrow> da_decode (Some [8, 0]) 2 (Some da_zeroed);
     Some [r = DA_ERR_LENGTH]
   }"

definition test_truncated_path :: unit_test where
  "test_truncated_path = (let body = [8, 0, 5] @ bytes ''x'' in do {
     (r, req) \<leftarrow> da_decode (Some body) (of_nat (length body)) (Some da_zeroed);
     Some [r = DA_ERR_LENGTH]
   })"

definition test_bad_unit :: unit_test where
  "test_bad_unit = do {
     (r, req) \<leftarrow> da_decode (Some [7, 0, 0]) 3 (Some da_zeroed);
     body \<leftarrow> aset [7, 0, 0] 0 12;
     (r', req) \<leftarrow> da_decode (Some body) 3 req;
     Some [r = DA_ERR_PARAM, r' = DA_ERR_PARAM]
   }"

definition test_bad_drive :: unit_test where
  "test_bad_drive = do {
     (r, req) \<leftarrow> da_decode (Some [8, 2, 0]) 3 (Some da_zeroed);
     Some [r = DA_ERR_PARAM]
   }"

definition test_max_path :: unit_test where
  "test_max_path = do {
     body \<leftarrow> aput (replicate (3 + 255) 0) 0 [11, 0, 255];
     body \<leftarrow> for_each (\<lambda>i body. aset body (3 + i) (of_nat (ord CHR ''a''))) [0..<255] body;
     (r, req) \<leftarrow> da_decode (Some body) (3 + 255) (Some da_zeroed);
     req \<leftarrow> req;
     p \<leftarrow> aget (da_path req) 255;
     Some [r = DA_OK, length (cstr (da_path req)) = 255, p = 0]
   }"

definition driveattach_tests :: "unit_test list" where
  "driveattach_tests = [test_attach, test_detach, test_short_body, test_truncated_path, test_bad_unit, test_bad_drive,
     test_max_path]"

lemma driveattach_pass:
  "passes 5 test_attach" "passes 5 test_detach" "passes 1 test_short_body" "passes 1 test_truncated_path"
  "passes 2 test_bad_unit" "passes 1 test_bad_drive"
  by code_simp+

lemma max_path_pass: "passes 3 test_max_path"
proof -
  let ?a = "of_nat (ord CHR ''a'') :: u8"
  have "?a \<noteq> 0" by (simp add: ord_def)
  then have "cstr (replicate 255 ?a @ [0]) = replicate 255 ?a"
    by (simp only: cstr_def) (subst takeWhile_append2; simp)
  moreover have "aput (replicate (3 + 255) 0) 0 [11, 0, 255] = Some ([11, 0, 255] @ replicate 255 (0 :: u8))"
    by (simp add: aput_def)
  moreover have "for_each (\<lambda>i body. aset body (3 + i) ?a) [0..<255] ([11, 0, 255] @ replicate 255 0) =
      Some ([11, 0, 255] @ replicate 255 ?a)"
    by (subst for_each_store) (simp_all add: map_replicate_const)
  ultimately show ?thesis
    by (simp add: passes_def test_max_path_def da_decode_eq da_request_def aget_def nth_append)
qed

section \<open>Video recording\<close>

definition video_setup :: "bool \<Rightarrow> mock_t video_core_t \<times> mock_t" where
  \<comment> \<open>the second component is booted in warp; \<open>m.start_should_fail\<close> is the argument\<close>
  "video_setup fail = (video_core_init mock_host, mock_setup fail)"

definition make_start :: "u8 list \<Rightarrow> string \<Rightarrow> (u8 list \<times> u32) option" where
  "make_start buf path = (let n = length path in do {
     buf \<leftarrow> aset buf 0 1;
     buf \<leftarrow> aset buf 1 (of_nat n);
     buf \<leftarrow> aput buf 2 (bytes path);
     Some (buf, of_nat (2 + n))
   })"

definition out_avi :: string where "out_avi = ''/renders/out.avi''"

definition test_start_forces_warp_off :: unit_test where
  "test_start_forces_warp_off = do {
     (body, len) \<leftarrow> make_start (replicate 64 0) out_avi;
     let (v, m) = video_setup False;
     (r, v, m) \<leftarrow> video_core_binmon_record v body len m;
     Some [r = VIDEO_OK, m_start_calls m = 1, m_recording m = 1, m_warp m = 0, m_last_path m = bytes out_avi]
   }"

definition test_stop_restores_warp :: unit_test where
  "test_stop_restores_warp = do {
     (start, len) \<leftarrow> make_start (replicate 64 0) out_avi;
     let (v, m) = video_setup False;
     (r, v, m) \<leftarrow> video_core_binmon_record v start len m;
     let w = m_warp m;
     (r', v, m) \<leftarrow> video_core_binmon_record v [0] 1 m;
     Some [r = VIDEO_OK, w = 0, r' = VIDEO_OK, m_stop_calls m = 1, m_recording m = 0, m_warp m = 1]
   }"

definition test_rejected :: "u8 list \<Rightarrow> unit_test" where
  \<comment> \<open>the four tests of a malformed body; a null body is the empty one\<close>
  "test_rejected body = (let (v, m) = video_setup False in do {
     (r, v, m) \<leftarrow> video_core_binmon_record v body (of_nat (length body)) m;
     Some [r = VIDEO_ERR_LENGTH]
   })"

definition test_double_start_refused :: unit_test where
  "test_double_start_refused = do {
     (body, len) \<leftarrow> make_start (replicate 64 0) out_avi;
     let (v, m) = video_setup False;
     (r, v, m) \<leftarrow> video_core_binmon_record v body len m;
     (r', v, m) \<leftarrow> video_core_binmon_record v body len m;
     Some [r = VIDEO_OK, r' = VIDEO_ERR_FAILURE, m_start_calls m = 1, m_warp m = 0]
   }"

definition test_start_failure_restores_warp :: unit_test where
  "test_start_failure_restores_warp = do {
     (body, len) \<leftarrow> make_start (replicate 64 0) out_avi;
     let (v, m) = video_setup True;
     (r, v, m) \<leftarrow> video_core_binmon_record v body len m;
     Some [r = VIDEO_ERR_FAILURE, m_recording m = 0, m_warp m = 1]
   }"

definition video_tests :: "unit_test list" where
  "video_tests = [test_start_forces_warp_off, test_stop_restores_warp, test_rejected [], test_rejected [1],
     test_rejected [1, 0], test_rejected ([1, 10] @ bytes ''ab''), test_double_start_refused,
     test_start_failure_restores_warp]"

lemma video_pass:
  "passes 5 test_start_forces_warp_off" "passes 6 test_stop_restores_warp" "passes 1 (test_rejected [])"
  "passes 1 (test_rejected [1])" "passes 1 (test_rejected [1, 0])" "passes 1 (test_rejected ([1, 10] @ bytes ''ab''))"
  "passes 4 test_double_start_refused" "passes 3 test_start_failure_restores_warp"
  by code_simp+

section \<open>Bus traces\<close>

text \<open>The capture of the tests, which append what is emitted to a buffer none of them fills.\<close>

abbreviation cap_sink :: "(unit \<Rightarrow> u8 list \<Rightarrow> u8 list \<Rightarrow> u8 list) option" where
  "cap_sink \<equiv> Some (\<lambda>_ buf cap. cap @ buf)"

definition acc :: "u64 \<Rightarrow> u16 \<Rightarrow> u8 \<Rightarrow> u8 \<Rightarrow> u16 \<Rightarrow> bus_access" where
  "acc cycle addr val rw pc = \<lparr>acc_cycle = cycle, acc_addr = addr, acc_val = val, acc_rw = rw, acc_pc = pc\<rparr>"

definition test_header_layout :: unit_test where
  "test_header_layout = (let (bt, cap) = revice_bustrace_begin 985248 cap_sink () [] in do {
     eq \<leftarrow> mem_eq cap (bytes ''RBT1'' @ [0x01, 0x00, 0x0a, 0x01, 0xa0, 0x08, 0x0f, 0x00, 0x00, 0x00, 0x00, 0x00]) 16;
     Some [length cap = REVICE_BUSTRACE_HEADER_SIZE, eq]
   })"

definition test_single_record_layout :: unit_test where
  "test_single_record_layout = (
     let st = revice_bustrace_begin 0 cap_sink () [];
         st = revice_bustrace_access (acc 100 0xd400 0x21 REVICE_BUSTRACE_RW_WRITE 0x1234) st;
         st' = revice_bustrace_end st
     in do {
       rec \<leftarrow> aslice (snd st) REVICE_BUSTRACE_HEADER_SIZE REVICE_BUSTRACE_REC_SIZE;
       eq \<leftarrow> mem_eq rec [0x64, 0x00, 0x00, 0x00, 0x00, 0xd4, 0x21, 0x01, 0x34, 0x12] 10;
       Some [length (snd st) = REVICE_BUSTRACE_HEADER_SIZE + REVICE_BUSTRACE_REC_SIZE, eq,
         length (snd st') = REVICE_BUSTRACE_HEADER_SIZE + REVICE_BUSTRACE_REC_SIZE + REVICE_BUSTRACE_TRAILER_SIZE]
     })"

definition test_cycle_deltas :: unit_test where
  "test_cycle_deltas = (
     let (bt, cap) = fold revice_bustrace_access
           [acc 10 0x1000 0x00 0 0x0800, acc 25 0x1001 0x01 0 0x0801, acc 25 0x1002 0x02 0 0x0802]
           (revice_bustrace_begin 0 cap_sink () [])
     in do {
       r0 \<leftarrow> aget cap 16;
       r1 \<leftarrow> aget cap (16 + 10);
       r2 \<leftarrow> aget cap (16 + 10 + 10);
       Some [r0 = 10, r1 = 15, r2 = 0]
     })"

definition sid_write :: "nat \<Rightarrow> bus_access" where
  \<comment> \<open>the access of one iteration of the loop of the next test\<close>
  "sid_write i = acc (of_nat (i * 7)) (of_nat (0xd400 + i)) (of_nat i) REVICE_BUSTRACE_RW_WRITE (of_nat (0x1000 + i))"

definition test_trailer_count_and_crc :: unit_test where
  "test_trailer_count_and_crc = (
     let st = fold (\<lambda>i. revice_bustrace_access (sid_write i)) [0..<5] (revice_bustrace_begin 985248 cap_sink () []);
         (bt, cap) = revice_bustrace_end st
     in do {
       tr \<leftarrow> aslice cap (length cap - REVICE_BUSTRACE_TRAILER_SIZE) REVICE_BUSTRACE_TRAILER_SIZE;
       recs \<leftarrow> aslice cap REVICE_BUSTRACE_HEADER_SIZE (5 * REVICE_BUSTRACE_REC_SIZE);
       Some [tr ! 0 = 0x52, tr ! 1 = 0x42, tr ! 2 = 0x54, tr ! 3 = 0x65,
         le_val (take 8 (drop 4 tr)) = 5,
         le_val (take 4 (drop 12 tr)) = unat (revice_bustrace_crc32 0 recs)]
     })"

definition test_rw_flag_bits :: unit_test where
  "test_rw_flag_bits = (
     let rw = REVICE_BUSTRACE_RW_WRITE OR REVICE_BUSTRACE_RW_DUMMY;
         (bt, cap) = revice_bustrace_access (acc 1 0x1000 0xaa rw 0x2000) (revice_bustrace_begin 0 cap_sink () [])
     in do {
       r6 \<leftarrow> aget cap (16 + 6);
       r7 \<leftarrow> aget cap (16 + 7);
       Some [r6 = 0xaa, r7 = rw]
     })"

definition test_determinism :: unit_test where
  "test_determinism = (
     let run = (\<lambda>cap. snd (revice_bustrace_end (fold (\<lambda>i.
             let rw = (if odd i then REVICE_BUSTRACE_RW_WRITE else 0);
                 rw = (if i mod 8 = 0 then rw OR REVICE_BUSTRACE_RW_OPCODE else rw)
             in revice_bustrace_access (acc (of_nat (i * 3)) (of_nat (0x0800 + i * 5)) (of_nat (i * 13)) rw
                  (of_nat (0x1000 + i))))
           [0..<256] (revice_bustrace_begin 1022727 cap_sink () cap))));
         a = run [];
         b = run []
     in do { eq \<leftarrow> mem_eq a b (length a); Some [length a = length b, eq] })"

definition test_access_without_begin_is_noop :: unit_test where
  "test_access_without_begin_is_noop = (
     let bt = \<lparr>bt_emit = None, bt_ctx = (), bt_last_cycle = 0, bt_rec_count = 0, bt_crc = 0, bt_started = False\<rparr>;
         (bt, cap) = revice_bustrace_end (revice_bustrace_access (acc 1 0x1000 0x00 0 0x0800) (bt, [] :: u8 list))
     in Some [length cap = 0])"

definition test_crc32_known_vector :: unit_test where
  "test_crc32_known_vector = Some [revice_bustrace_crc32 0 (bytes ''123456789'') = 0xCBF43926]"

definition bustrace_tests :: "unit_test list" where
  "bustrace_tests = [test_header_layout, test_single_record_layout, test_cycle_deltas, test_trailer_count_and_crc,
     test_determinism, test_rw_flag_bits, test_access_without_begin_is_noop, test_crc32_known_vector]"

lemma determinism_pass: "passes 2 test_determinism"
  by (simp add: passes_def test_determinism_def mem_eq_def aslice_Some Let_def)

lemmas bt_eval = passes_def mem_eq_def aslice_Some Let_def revice_bustrace_begin_def revice_bustrace_access_def
  revice_bustrace_end_def bt_emit_span_def bt_header_def bt_record_def bt_delta_def acc_def aget_def put_u16_def
  put_u32_def put_u64_def bytes_def upt_rec

lemma bustrace_layout_pass:
  "passes 2 test_header_layout" "passes 3 test_single_record_layout" "passes 3 test_cycle_deltas"
  "passes 2 test_rw_flag_bits" "passes 1 test_access_without_begin_is_noop"
  by (simp_all add: bt_eval test_header_layout_def test_single_record_layout_def test_cycle_deltas_def
      test_rw_flag_bits_def test_access_without_begin_is_noop_def ord_def)

lemma crc_pass: "passes 1 test_crc32_known_vector"
proof -
  have b: "bytes ''123456789'' = [0x31, 0x32, 0x33, 0x34, 0x35, 0x36, 0x37, 0x38, 0x39]"
    by (simp add: bytes_def ord_def)
  have bits: "(crc_bit ^^ 8) x = crc_bit (crc_bit (crc_bit (crc_bit (crc_bit (crc_bit (crc_bit (crc_bit x)))))))" for x
    by (simp add: numeral_eq_Suc)
  show ?thesis
    by (simp add: passes_def test_crc32_known_vector_def b revice_bustrace_crc32_def crc_byte_def bits crc_bit_def)
qed

lemma trailer_pass: "passes 6 test_trailer_count_and_crc"
proof -
  define recs where "recs = bt_records 0 (map sid_write [0..<5])"
  have "snd (revice_bustrace_end (fold (\<lambda>i. revice_bustrace_access (sid_write i)) [0..<5]
      (revice_bustrace_begin 985248 cap_sink () []))) = bt_capture 985248 (map sid_write [0..<5])"
    by (simp add: bt_capture_def bt_session_def fold_map o_def)
  then have "snd (revice_bustrace_end (fold (\<lambda>i. revice_bustrace_access (sid_write i)) [0..<5]
      (revice_bustrace_begin 985248 cap_sink () []))) = bt_header 985248 @ recs @ bt_trailer 5 (revice_bustrace_crc32 0 recs)"
    by (simp add: bt_capture_trace bt_trace_def recs_def)
  moreover have "length recs = 50" by (simp add: recs_def)
  ultimately show ?thesis
    by (simp add: passes_def test_trailer_count_and_crc_def case_prod_unfold Let_def aslice_Some bt_trailer_def wire_simps)
qed

section \<open>The suites\<close>

theorem core_suites:
  "run_tests checkpoint_tests = Some (0, \<lparr>revice_tests_run = 6, revice_tests_failed = 0\<rparr>)"
  "run_tests driveattach_tests = Some (0, \<lparr>revice_tests_run = 18, revice_tests_failed = 0\<rparr>)"
  "run_tests video_tests = Some (0, \<lparr>revice_tests_run = 22, revice_tests_failed = 0\<rparr>)"
  "run_tests bustrace_tests = Some (0, \<lparr>revice_tests_run = 20, revice_tests_failed = 0\<rparr>)"
  using run_passing [of "[2, 2, 1, 1]" checkpoint_tests] run_passing [of "[5, 5, 1, 1, 2, 1, 3]" driveattach_tests]
    run_passing [of "[5, 6, 1, 1, 1, 1, 4, 3]" video_tests] run_passing [of "[2, 3, 3, 6, 2, 2, 1, 1]" bustrace_tests]
  by (simp_all add: checkpoint_tests_def checkpoint_pass [simplified] driveattach_tests_def driveattach_pass [simplified]
      max_path_pass video_tests_def video_pass [simplified] bustrace_tests_def bustrace_layout_pass [simplified]
      crc_pass [simplified] trailer_pass determinism_pass)

end
