(* ===== verification/Test_Asid.thy ===== *)
theory Test_Asid
  imports Test_Harness Asid Asid_Clock
begin

unbundle bit_operations_syntax

text \<open>
  The unit tests \<open>libs/asid/tests/test_asid.c\<close> of the ASID codec, run on the model: the golden messages of the
  two update forms, the register masks, the forced flush, the bounds and the clock conversions.
\<close>

section \<open>The tests\<close>

type_synonym asid_test = "asid_core_t \<times> capture_t"

definition asid_init :: "int \<Rightarrow> asid_test option" where
  "asid_init use = do { core \<leftarrow> asid_core_init use; Some (core, []) }"

definition set_reg :: "u8 \<Rightarrow> u8 \<Rightarrow> u8 \<Rightarrow> asid_test \<Rightarrow> asid_test option" where
  "set_reg chip reg byte = asid_core_set_reg cap_emit chip reg byte"

definition flush :: "u8 \<Rightarrow> u64 \<Rightarrow> asid_test \<Rightarrow> asid_test option" where
  "flush chip nsec = asid_core_flush cap_emit chip nsec"

definition msg :: "asid_test \<Rightarrow> nat \<Rightarrow> u8 list option" where
  "msg t i = map_option (\<lambda>(chip, bytes, nsec). bytes) (aget (snd t) i)"

abbreviation count :: "asid_test \<Rightarrow> nat" where "count t \<equiv> length (snd t)"

definition test_standard_update_single_reg :: unit_test where
  "test_standard_update_single_reg = do {
     t0 \<leftarrow> asid_init 0;
     t1 \<leftarrow> set_reg 0 0 0x42 t0;
     t2 \<leftarrow> flush 0 0 t1;
     (chip, bytes, nsec) \<leftarrow> aget (snd t2) 0;
     eq \<leftarrow> mem_eq bytes [0xf0, 0x2d, 0x4e, 0x01, 0x00, 0x00, 0x00, 0x00, 0x00, 0x00, 0x00, 0x42, 0xf7] 13;
     t3 \<leftarrow> flush 0 0 t2;
     Some [count t1 = 0, count t2 = 1, chip = 0, length bytes = 13, eq, count t3 = 1]
   }"

definition test_standard_update_msb :: unit_test where
  "test_standard_update_msb = do {
     t \<leftarrow> asid_init 0;
     t \<leftarrow> set_reg 0 0 0x80 t;
     t \<leftarrow> flush 0 0 t;
     bytes \<leftarrow> msg t 0;
     eq \<leftarrow> mem_eq bytes [0xf0, 0x2d, 0x4e, 0x01, 0x00, 0x00, 0x00, 0x01, 0x00, 0x00, 0x00, 0x00, 0xf7] 13;
     Some [count t = 1, length bytes = 13, eq]
   }"

definition test_update_reg_short_form :: unit_test where
  "test_update_reg_short_form = do {
     t \<leftarrow> asid_init 1;
     t \<leftarrow> set_reg 0 0 0x42 t;
     t \<leftarrow> flush 0 0 t;
     bytes \<leftarrow> msg t 0;
     eq \<leftarrow> mem_eq bytes [0xf0, 0x2d, 0x6c, 0x00, 0x42, 0xf7] 6;
     Some [count t = 1, length bytes = 6, eq, bytes_saved (fst t) = 7]
   }"

definition test_update_reg_short_form_msb :: unit_test where
  "test_update_reg_short_form_msb = do {
     t \<leftarrow> asid_init 1;
     t \<leftarrow> set_reg 0 0 0x80 t;
     t \<leftarrow> flush 0 0 t;
     bytes \<leftarrow> msg t 0;
     eq \<leftarrow> mem_eq bytes [0xf0, 0x2d, 0x6c, 0x40, 0x00, 0xf7] 6;
     Some [count t = 1, eq]
   }"

definition test_update_reg_control_last :: unit_test where
  "test_update_reg_control_last = do {
     t \<leftarrow> asid_init 1;
     t \<leftarrow> set_reg 0 4 0x21 t;
     t \<leftarrow> set_reg 0 5 0x11 t;
     t \<leftarrow> flush 0 0 t;
     bytes \<leftarrow> msg t 0;
     Some [count t = 1, length bytes = 8, bytes ! 2 = 0x6c, bytes ! 3 = 5, bytes ! 4 = 0x11, bytes ! 5 = 4,
       bytes ! 6 = 0x21, bytes ! 7 = 0xf7]
   }"

definition test_regmask_clamps :: unit_test where
  "test_regmask_clamps = do {
     t \<leftarrow> asid_init 1;
     t \<leftarrow> set_reg 0 3 0xff t;
     t \<leftarrow> set_reg 0 21 0xff t;
     t \<leftarrow> flush 0 0 t;
     bytes \<leftarrow> msg t 0;
     Some [count t = 1, bytes ! 0 = 0xf0, bytes ! 1 = 0x2d, bytes ! 2 = 0x6c, bytes ! 3 = 3, bytes ! 4 = 0x0f,
       bytes ! 5 = 21, bytes ! 6 = 0x07, bytes ! 7 = 0xf7, length bytes = 8]
   }"

definition test_noop_write_ignored :: unit_test where
  "test_noop_write_ignored = do {
     t \<leftarrow> asid_init 0;
     t \<leftarrow> set_reg 0 0 0x00 t;
     t \<leftarrow> flush 0 0 t;
     Some [count t = 0]
   }"

definition test_control_register_forces_flush :: unit_test where
  "test_control_register_forces_flush = do {
     t \<leftarrow> asid_init 0;
     t1 \<leftarrow> set_reg 0 4 0x10 t;
     t2 \<leftarrow> set_reg 0 4 0x11 t1;
     (chip, bytes, nsec) \<leftarrow> aget (snd t2) 0;
     eq \<leftarrow> mem_eq bytes [0xf0, 0x2d, 0x4e, 0x00, 0x00, 0x00, 0x02, 0x00, 0x00, 0x00, 0x00, 0x10, 0xf7] 13;
     t3 \<leftarrow> flush 0 123 t2;
     (chip', bytes', nsec') \<leftarrow> aget (snd t3) 1;
     Some [count t1 = 0, count t2 = 1, nsec = 0, length bytes = 13, eq, count t3 = 2, nsec' = 123, bytes' ! 11 = 0x11]
   }"

definition test_two_chips_independent :: unit_test where
  "test_two_chips_independent = do {
     t \<leftarrow> asid_init 0;
     t \<leftarrow> set_reg 0 0 0x11 t;
     t \<leftarrow> set_reg 1 0 0x22 t;
     t \<leftarrow> flush 0 0 t;
     t \<leftarrow> flush 1 0 t;
     bytes0 \<leftarrow> msg t 0;
     bytes1 \<leftarrow> msg t 1;
     Some [count t = 2, bytes0 ! 2 = 0x4e, bytes0 ! 11 = 0x11, bytes1 ! 2 = 0x50, bytes1 ! 11 = 0x22]
   }"

definition test_bounds :: unit_test where
  "test_bounds = do {
     t \<leftarrow> asid_init 0;
     t \<leftarrow> set_reg ASID_CHIPS 0 0x42 t;
     t \<leftarrow> set_reg 0 ASID_NUM_REGS 0x42 t;
     t \<leftarrow> flush 0 0 t;
     Some [count t = 0]
   }"

definition test_fixed_messages :: unit_test where
  "test_fixed_messages = do {
     eq \<leftarrow> mem_eq asid_start_msg [0xf0, 0x2d, 0x4c, 0xf7] 4;
     eq' \<leftarrow> mem_eq asid_stop_msg [0xf0, 0x2d, 0x4d, 0xf7] 4;
     Some [eq, eq']
   }"

definition test_timing_helpers :: unit_test where
  "test_timing_helpers = do {
     zero \<leftarrow> asid_clock_to_nanos 0 985248;
     pal \<leftarrow> asid_clock_to_nanos 985248 985248;
     ntsc \<leftarrow> asid_clock_to_nanos 1022727 1022727;
     short \<leftarrow> asid_clock_to_nanos 100000 1022727;
     long \<leftarrow> asid_clock_to_nanos 100000 985248;
     unset \<leftarrow> asid_clock_to_nanos 985248 0;
     Some [asid_should_flush_on_irq 1000 0, \<not> asid_should_flush_on_irq 100 0, \<not> asid_should_flush_on_irq 256 0,
       zero = 0, pal = 1000000000, ntsc = 1000000000, short < long, unset = pal]
   }"

definition asid_tests :: "unit_test list" where
  "asid_tests = [test_standard_update_single_reg, test_standard_update_msb, test_update_reg_short_form,
     test_update_reg_short_form_msb, test_update_reg_control_last, test_regmask_clamps, test_noop_write_ignored,
     test_control_register_forces_flush, test_two_chips_independent, test_bounds, test_fixed_messages,
     test_timing_helpers]"

section \<open>Evaluation\<close>

text \<open>A register write that forces no flush, and a flush, with the working buffers left out.\<close>

definition written :: "asid_core_t \<Rightarrow> nat \<Rightarrow> nat \<Rightarrow> u8 \<Rightarrow> asid_core_t" where
  "written core c r v = core\<lparr>chips := (chips core)[c := (chips core ! c)
     \<lparr>sid_register := (sid_register (chips core ! c))[r := v],
      sid_modified := (sid_modified (chips core ! c))[r := True], sid_modified_flag := True\<rparr>]\<rparr>"

lemma set_reg_clean:
  assumes "core_wf core" "unat chip < 2" "unat reg < 25" "\<not> sid_modified (chips core ! unat chip) ! unat reg"
    and "sid_register (chips core ! unat chip) ! unat reg \<noteq> regmask ! unat reg AND byte"
  shows "set_reg chip reg byte (core, cap) =
      Some (written core (unat chip) (unat reg) (regmask ! unat reg AND byte), cap)" (is ?set)
    and "core_wf (written core (unat chip) (unat reg) (regmask ! unat reg AND byte))"
proof -
  have ok: "chip_ok (unat chip) (chips core ! unat chip)" "length (chips core) = 2"
    using chip_ok_nth assms(1,2) by (simp_all add: core_wf_def)
  with assms show set: ?set
    by (simp add: set_reg_def asid_core_set_reg_def chip_ok_def chip_wf_def array_simps word_le_nat_alt Let_def written_def)
  then show "core_wf (written core (unat chip) (unat reg) (regmask ! unat reg AND byte))"
    using asid_set_reg_wf [OF assms(1), of cap_emit chip reg byte cap] by (auto simp: set_reg_def)
qed

lemma flush_ok:
  assumes "core_wf core" "unat chip < 2" "sid_modified_flag (chips core ! unat chip)"
  shows "\<exists>ub rb. core_wf (flushed ub rb (unat chip) core) \<and>
    flush chip nsec (core, cap) = Some (flushed ub rb (unat chip) core, cap @ [(chip, flush_msg core (unat chip), nsec)])"
  using asid_core_flush_ok [OF assms, of cap_emit nsec cap] by (auto simp: flush_def cap_emit_def)

lemma flush_clean:
  "core_wf core \<Longrightarrow> \<not> sid_modified_flag (chips core ! unat chip) \<Longrightarrow> flush chip nsec (core, cap) = Some (core, cap)"
  by (simp add: flush_def asid_core_flush_def core_wf_def aget_def word_le_nat_alt)

lemma fresh_wf: "core_wf (asid_fresh use)"
  using asid_rel_fresh by (simp add: asid_rel_def)

lemma asid_init_fresh: "asid_init use = Some (asid_fresh use, [])"
  by (simp add: asid_init_def asid_core_init_fresh)

lemmas codec = written_def flushed_def flush_msg_def saves_def asid_fresh_def asid_chip_zero_def Let_def regmask_def

lemma mask_of_numeral:
  "mask_of P (numeral k) =
     (if P (pred_numeral k) then mask_of P (pred_numeral k) OR push_bit (pred_numeral k) 1 else mask_of P (pred_numeral k))"
  by (simp add: numeral_eq_Suc)

lemma all_dirty_regs: "dirty_regs st = filter (\<lambda>r. sid_modified st ! unat r) regmap"
  by (simp add: dirty_upto_def regmap_def)

lemmas codes = upd_msg_def reg_msg_def all_dirty_regs asid_update_def asid_update_reg_def sevens_def payload_def
  reg_pairs_def reg_pair_def upt_rec regmap_def

lemmas header_bits = mask_of_numeral dirty_bit_def msb_bit_def regmap_def

lemma fixed_pass: "passes 2 test_fixed_messages"
  by code_simp

lemma fresh_write:
  assumes "unat chip < 2" "unat reg < 25" "regmask ! unat reg AND byte \<noteq> 0"
  shows "set_reg chip reg byte (asid_fresh use, cap) =
      Some (written (asid_fresh use) (unat chip) (unat reg) (regmask ! unat reg AND byte), cap)"
    and "core_wf (written (asid_fresh use) (unat chip) (unat reg) (regmask ! unat reg AND byte))"
proof -
  from assms(1) have "unat chip = 0 \<or> unat chip = 1" by (simp add: less_2_cases_iff)
  then have "sid_register (chips (asid_fresh use) ! unat chip) = replicate 25 0"
    "sid_modified (chips (asid_fresh use) ! unat chip) = replicate 25 False"
    by (auto simp: asid_fresh_def asid_chip_zero_def)
  then show "set_reg chip reg byte (asid_fresh use, cap) =
      Some (written (asid_fresh use) (unat chip) (unat reg) (regmask ! unat reg AND byte), cap)"
    "core_wf (written (asid_fresh use) (unat chip) (unat reg) (regmask ! unat reg AND byte))"
    using set_reg_clean [OF fresh_wf [of use] assms(1,2), where byte = byte] assms by simp_all
qed

text \<open>A flush after a write sends the message, and leaves nothing to send.\<close>

lemma send:
  assumes "core_wf core" "core_wf (written core (unat chip) r v)" "unat chip < 2"
  shows "\<exists>ub rb. let core = written core (unat chip) r v; core' = flushed ub rb (unat chip) core in core_wf core' \<and>
    flush chip nsec (core, cap) = Some (core', cap @ [(chip, flush_msg core (unat chip), nsec)]) \<and>
    (\<forall>nsec cap. flush chip nsec (core', cap) = Some (core', cap))"
proof -
  let ?core = "written core (unat chip) r v"
  have "sid_modified_flag (chips ?core ! unat chip)"
    using assms(1,3) by (simp add: written_def core_wf_def)
  from flush_ok [OF assms(2,3) this, of nsec cap] obtain ub rb where
    "flush chip nsec (?core, cap) = Some (flushed ub rb (unat chip) ?core, cap @ [(chip, flush_msg ?core (unat chip), nsec)])"
    "core_wf (flushed ub rb (unat chip) ?core)" by blast
  moreover have "\<not> sid_modified_flag (chips (flushed ub rb (unat chip) ?core) ! unat chip)"
    using assms(2,3) by (simp add: flushed_def core_wf_def Let_def)
  ultimately show ?thesis
    unfolding Let_def by (intro exI [of _ ub] exI [of _ rb]) (simp add: flush_clean)
qed

lemma update_msgs:
  "flush_msg (written (asid_fresh 0) 0 0 0x42) 0 = [0xf0, 0x2d, 0x4e, 0x01, 0x00, 0x00, 0x00, 0x00, 0x00, 0x00, 0x00, 0x42, 0xf7]"
  "flush_msg (written (asid_fresh 0) 0 0 0x80) 0 = [0xf0, 0x2d, 0x4e, 0x01, 0x00, 0x00, 0x00, 0x01, 0x00, 0x00, 0x00, 0x00, 0xf7]"
  "flush_msg (written (asid_fresh 0) 0 4 0x10) 0 = [0xf0, 0x2d, 0x4e, 0x00, 0x00, 0x00, 0x02, 0x00, 0x00, 0x00, 0x00, 0x10, 0xf7]"
  by (simp_all add: codec codes header_bits)

lemma reg_msgs:
  "flush_msg (written (asid_fresh 1) 0 0 0x42) 0 = [0xf0, 0x2d, 0x6c, 0x00, 0x42, 0xf7]"
  "flush_msg (written (asid_fresh 1) 0 0 0x80) 0 = [0xf0, 0x2d, 0x6c, 0x40, 0x00, 0xf7]"
  "flush_msg (written (written (asid_fresh 1) 0 4 0x21) 0 5 0x11) 0 = [0xf0, 0x2d, 0x6c, 5, 0x11, 4, 0x21, 0xf7]"
  "flush_msg (written (written (asid_fresh 1) 0 3 0x0f) 0 21 0x07) 0 = [0xf0, 0x2d, 0x6c, 3, 0x0f, 21, 0x07, 0xf7]"
  by (simp_all add: codec codes)

lemmas test_simps = passes_def asid_init_fresh msg_def aget_def mem_eq_def aslice_Some regmask_def

lemma update_pass: "passes 6 test_standard_update_single_reg" "passes 3 test_standard_update_msb"
proof -
  note w = fresh_write [of 0 0 "0x42" 0, unfolded regmask_def, simplified]
    fresh_write [of 0 0 "0x80" 0, unfolded regmask_def, simplified]
  show "passes 6 test_standard_update_single_reg"
    using send [of "asid_fresh 0" 0 0 "0x42" 0 "[]"]
    by (auto simp: fresh_wf w test_simps test_standard_update_single_reg_def update_msgs Let_def)
  show "passes 3 test_standard_update_msb"
    using send [of "asid_fresh 0" 0 0 "0x80" 0 "[]"]
    by (auto simp: fresh_wf w test_simps test_standard_update_msb_def update_msgs Let_def)
qed

lemma short_form_pass: "passes 4 test_update_reg_short_form" "passes 2 test_update_reg_short_form_msb"
proof -
  note w = fresh_write [of 0 0 "0x42" 1, unfolded regmask_def, simplified]
    fresh_write [of 0 0 "0x80" 1, unfolded regmask_def, simplified]
  have "bytes_saved (flushed ub rb 0 (written (asid_fresh 1) 0 0 0x42)) = 7" for ub rb
    by (simp add: codec codes)
  then show "passes 4 test_update_reg_short_form"
    using send [of "asid_fresh 1" 0 0 "0x42" 0 "[]"]
    by (auto simp: fresh_wf w test_simps test_update_reg_short_form_def reg_msgs Let_def)
  show "passes 2 test_update_reg_short_form_msb"
    using send [of "asid_fresh 1" 0 0 "0x80" 0 "[]"]
    by (auto simp: fresh_wf w test_simps test_update_reg_short_form_msb_def reg_msgs Let_def)
qed

lemma two_regs_pass: "passes 8 test_update_reg_control_last" "passes 10 test_regmask_clamps"
proof -
  note w = fresh_write [of 0 4 "0x21" 1, unfolded regmask_def, simplified]
    fresh_write [of 0 3 "0xff" 1, unfolded regmask_def, simplified]
  have w': "set_reg 0 5 0x11 (written (asid_fresh 1) 0 4 0x21, cap) =
      Some (written (written (asid_fresh 1) 0 4 0x21) 0 5 0x11, cap)"
    "core_wf (written (written (asid_fresh 1) 0 4 0x21) 0 5 0x11)"
    "set_reg 0 21 0xff (written (asid_fresh 1) 0 3 0x0f, cap) =
      Some (written (written (asid_fresh 1) 0 3 0x0f) 0 21 0x07, cap)"
    "core_wf (written (written (asid_fresh 1) 0 3 0x0f) 0 21 0x07)" for cap
    using set_reg_clean [of "written (asid_fresh 1) 0 4 0x21" 0 5 "0x11"]
      set_reg_clean [of "written (asid_fresh 1) 0 3 0x0f" 0 21 "0xff"] w
    by (simp_all add: regmask_def) (simp_all add: codec)
  show "passes 8 test_update_reg_control_last"
    using send [of "written (asid_fresh 1) 0 4 0x21" 0 5 "0x11" 0 "[]"]
    by (auto simp: w w' test_simps test_update_reg_control_last_def reg_msgs Let_def)
  show "passes 10 test_regmask_clamps"
    using send [of "written (asid_fresh 1) 0 3 0x0f" 0 21 "0x07" 0 "[]"]
    by (auto simp: w w' test_simps test_regmask_clamps_def reg_msgs Let_def)
qed

lemma ignored_pass: "passes 1 test_noop_write_ignored" "passes 1 test_bounds"
proof -
  have "set_reg 0 0 0 (asid_fresh 0, []) = Some (asid_fresh 0, [])"
    "set_reg 2 0 0x42 (asid_fresh 0, []) = Some (asid_fresh 0, [])"
    "set_reg 0 25 0x42 (asid_fresh 0, []) = Some (asid_fresh 0, [])"
    by (simp_all add: set_reg_def asid_core_set_reg_def aget_def asid_fresh_def asid_chip_zero_def regmask_def)
  moreover have "flush 0 0 (asid_fresh 0, []) = Some (asid_fresh 0, [])"
    by (rule flush_clean [OF fresh_wf]) (simp add: asid_fresh_def asid_chip_zero_def)
  ultimately show "passes 1 test_noop_write_ignored" "passes 1 test_bounds"
    by (simp_all add: test_simps test_noop_write_ignored_def test_bounds_def)
qed

text \<open>A write that forces a flush.\<close>

lemma forced_msg:
  "flush_msg (written (flushed ub rb 0 (written (asid_fresh 0) 0 4 0x10)) 0 4 0x11) 0 ! 11 = 0x11"
  by (simp add: codec codes header_bits)

lemma set_reg_forced:
  assumes "core_wf core" "core_wf (written core (unat chip) (unat reg) v)" "unat chip < 2" "reg = 4 \<or> reg = 11 \<or> reg = 18"
    and "v \<noteq> regmask ! unat reg AND byte"
  shows "\<exists>ub rb. let core = written core (unat chip) (unat reg) v; core' = flushed ub rb (unat chip) core in
    core_wf core' \<and> core_wf (written core' (unat chip) (unat reg) (regmask ! unat reg AND byte)) \<and>
    set_reg chip reg byte (core, cap) = Some (written core' (unat chip) (unat reg) (regmask ! unat reg AND byte),
      cap @ [(chip, flush_msg core (unat chip), 0)])"
proof -
  let ?c = "unat chip" and ?r = "unat reg" and ?v = "regmask ! unat reg AND byte"
  let ?core = "written core ?c ?r v"
  have "unat reg < 25" using assms(4) by auto
  moreover obtain ub rb where f: "core_wf (flushed ub rb ?c ?core)"
    "flush chip 0 (?core, cap) = Some (flushed ub rb ?c ?core, cap @ [(chip, flush_msg ?core ?c, 0)])"
    using send [OF assms(1-3), of 0 cap] by (auto simp: Let_def)
  moreover have "chip_ok ?c (chips core ! ?c)" "chip_ok ?c (chips ?core ! ?c)" "chip_ok ?c (chips (flushed ub rb ?c ?core) ! ?c)"
    using chip_ok_nth assms(1-3) f(1) by blast+
  ultimately have "set_reg chip reg byte (?core, cap) = Some (written (flushed ub rb ?c ?core) ?c ?r ?v,
      cap @ [(chip, flush_msg ?core ?c, 0)])"
    using assms
    by (simp add: set_reg_def asid_core_set_reg_def flush_def chip_ok_def chip_wf_def array_simps word_le_nat_alt Let_def
        core_wf_def) (simp add: written_def core_wf_def)
  moreover from this have "core_wf (written (flushed ub rb ?c ?core) ?c ?r ?v)"
    using asid_set_reg_wf [OF assms(2), of cap_emit chip reg byte cap] by (auto simp: set_reg_def)
  ultimately show ?thesis using f(1) by (auto simp: Let_def)
qed

lemma forced_flush_pass: "passes 8 test_control_register_forces_flush"
proof -
  note w = fresh_write [of 0 4 "0x10" 0, unfolded regmask_def, simplified]
  obtain ub rb where f: "core_wf (flushed ub rb 0 (written (asid_fresh 0) 0 4 0x10))"
    "core_wf (written (flushed ub rb 0 (written (asid_fresh 0) 0 4 0x10)) 0 4 0x11)"
    "set_reg 0 4 0x11 (written (asid_fresh 0) 0 4 0x10, []) =
       Some (written (flushed ub rb 0 (written (asid_fresh 0) 0 4 0x10)) 0 4 0x11,
         [(0, flush_msg (written (asid_fresh 0) 0 4 0x10) 0, 0)])"
    using set_reg_forced [of "asid_fresh 0" 0 4 "0x10" "0x11" "[]"] w by (auto simp: fresh_wf Let_def regmask_def)
  then show ?thesis
    using send [OF f(1), of 0 4 "0x11" 123 "[(0, flush_msg (written (asid_fresh 0) 0 4 0x10) 0, 0)]"]
    by (auto simp: w test_simps test_control_register_forces_flush_def update_msgs forced_msg Let_def)
qed

lemma chip_1_msg:
  "flush_msg (flushed ub rb 0 (written (written (asid_fresh 0) 0 0 0x11) 1 0 0x22)) 1 =
     flush_msg (written (asid_fresh 0) 1 0 0x22) 1"
  "flush_msg (written (written (asid_fresh 0) 0 0 0x11) 1 0 0x22) 0 = flush_msg (written (asid_fresh 0) 0 0 0x11) 0"
  "flush_msg (written (asid_fresh 0) 0 0 0x11) 0 ! 2 = 0x4e" "flush_msg (written (asid_fresh 0) 1 0 0x22) 1 ! 2 = 0x50"
  "flush_msg (written (asid_fresh 0) 0 0 0x11) 0 ! 11 = 0x11" "flush_msg (written (asid_fresh 0) 1 0 0x22) 1 ! 11 = 0x22"
  by (simp_all add: codec codes header_bits)

lemma two_chips_pass: "passes 5 test_two_chips_independent"
proof -
  let ?a = "written (asid_fresh 0) 0 0 0x11"
  let ?b = "written ?a 1 0 0x22"
  note w = fresh_write [of 0 0 "0x11" 0, unfolded regmask_def, simplified]
  have w': "set_reg 1 0 0x22 (?a, []) = Some (?b, [])" "core_wf ?b"
    using set_reg_clean [of ?a 1 0 "0x22"] w by (simp_all add: regmask_def) (simp_all add: codec)
  have "sid_modified_flag (chips ?b ! 0)" by (simp add: codec)
  then obtain ub rb where f: "core_wf (flushed ub rb 0 ?b)"
    "flush 0 0 (?b, []) = Some (flushed ub rb 0 ?b, [(0, flush_msg ?b 0, 0)])"
    using flush_ok [of ?b 0 0 "[]"] w'(2) by auto
  have "sid_modified_flag (chips (flushed ub rb 0 ?b) ! 1)" by (simp add: codec)
  then obtain ub' rb' where
    "flush 1 0 (flushed ub rb 0 ?b, [(0, flush_msg ?b 0, 0)]) =
       Some (flushed ub' rb' 1 (flushed ub rb 0 ?b), [(0, flush_msg ?b 0, 0), (1, flush_msg (flushed ub rb 0 ?b) 1, 0)])"
    using flush_ok [of "flushed ub rb 0 ?b" 1 0 "[(0, flush_msg ?b 0, 0)]"] f(1) by auto
  with f(2) show ?thesis
    by (simp add: w w' test_simps test_two_chips_independent_def chip_1_msg [unfolded One_nat_def])
qed

lemma whole_second:
  assumes "unat clock < 2 ^ 53" "clock_rate cps = unat clock"
  shows "asid_clock_to_nanos clock cps = Some 1000000000"
proof -
  let ?n = "fp_nat (unat clock)"
  have "fp_val ?n \<noteq> 0" "0 < fst ?n"
    using fp_rate_pos [of cps] fp_val_fst_pos [of ?n] by (simp_all add: assms(2))
  then have "fp_val (fp_div ?n ?n) = real 1"
    unfolding fp_div_def case_prod_unfold split by (intro fp_round_exact) (simp_all add: fp_exact)
  then have "fp_val (nanos clock cps) = real 1000000000"
    unfolding nanos_def assms(2) by (intro fp_mul_exact) (simp_all add: e9_val)
  then have "fp_trunc (nanos clock cps) = 1000000000"
    by (rule fp_trunc_nat [rotated]) (simp add: nanos_def)
  then show ?thesis by (simp add: asid_clock_to_nanos_eq fp_to_u64_def)
qed

lemma shorter_cycles:
  obtains s l where "asid_clock_to_nanos 100000 1022727 = Some s" "asid_clock_to_nanos 100000 985248 = Some l" "s < l"
proof -
  have r: "clock_rate 1022727 = 1022727" "clock_rate 985248 = 985248" by (simp_all add: clock_rate_def)
  obtain s where s: "asid_clock_to_nanos 100000 1022727 = Some s" "real (unat s) < 97777804 + 2"
    using clock_to_nanos_near [of 100000 1022727] unfolding r abs_less_iff by auto
  obtain l where l: "asid_clock_to_nanos 100000 985248 = Some l" "101497288 - 2 < real (unat l)"
    using clock_to_nanos_near [of 100000 985248] unfolding r abs_less_iff by auto
  from s(2) l(2) have "real (unat s) < real (unat l)" by linarith
  then have "s < l" by (simp only: word_less_nat_alt of_nat_less_iff)
  with s(1) l(1) show ?thesis by (rule that)
qed

lemma timing_pass: "passes 8 test_timing_helpers"
proof -
  have "asid_clock_to_nanos 0 985248 = Some 0"
    by (simp add: asid_clock_to_nanos_def fp_nat_def fp_round_def fp_div_def fp_mul_def fp_to_u64_def
        fp_trunc_def Let_def case_prod_unfold)
  moreover obtain s l where "asid_clock_to_nanos 100000 1022727 = Some s" "asid_clock_to_nanos 100000 985248 = Some l" "s < l"
    by (rule shorter_cycles)
  ultimately show ?thesis
    by (simp add: passes_def test_timing_helpers_def whole_second clock_rate_def asid_should_flush_on_irq_def)
qed

section \<open>The suite\<close>

text \<open>The program of unit tests of the ASID codec, run on the model, makes 58 checks, none of which fails.\<close>

theorem asid_suite: "run_tests asid_tests = Some (0, \<lparr>revice_tests_run = 58, revice_tests_failed = 0\<rparr>)"
  using run_passing [of "[6, 3, 4, 2, 8, 10, 1, 8, 5, 1, 2, 8]" asid_tests]
  by (simp add: asid_tests_def update_pass short_form_pass two_regs_pass ignored_pass [simplified] forced_flush_pass
      two_chips_pass fixed_pass timing_pass)

end
