(* ===== verification/Test_Screen.thy ===== *)
theory Test_Screen
  imports Test_Harness Screen_Render
begin

unbundle bit_operations_syntax

text \<open>
  The unit tests \<open>libs/screen/tests/test_screen.c\<close> of the packer and the renderer, run on the model over the
  synthetic memory of the tests.
\<close>

section \<open>The tests\<close>

record mem_t =
  mem_ram :: "u16 \<Rightarrow> u8"
  mem_colorram :: "nat \<Rightarrow> u8"
  mem_chargen :: "nat \<Rightarrow> u8"

definition zero_mem :: mem_t where
  "zero_mem = \<lparr>mem_ram = \<lambda>_. 0, mem_colorram = \<lambda>_. 0, mem_chargen = \<lambda>_. 0\<rparr>"

definition hello :: mem_t where
  "hello = zero_mem\<lparr>mem_ram := (\<lambda>_. 0)(0x0400 := 8, 0x0401 := 5, 0x0402 := 12, 0x0403 := 12, 0x0404 := 15)\<rparr>"

definition inputs :: "mem_t \<Rightarrow> screen_inputs_t" where
  "inputs m = default_inputs (mem_ram m) (\<lambda>a. mem_colorram m (unat (a - 0xd800)))
     (\<lambda>a. mem_chargen m (unat (a AND 0x0fff)))"

definition pack :: "screen_inputs_t \<Rightarrow> (int \<times> u8 list \<times> u32) option" where
  \<comment> \<open>into \<open>buf[SCREEN_RESPONSE_SIZE]\<close>\<close>
  "pack inp = do {
     (r, buf, len) \<leftarrow> screen_pack (Some inp) (Some (replicate 4072 0)) 4072 (Some 4072);
     buf \<leftarrow> buf;
     len \<leftarrow> len;
     Some (r, buf, len)
   }"

definition test_pack_default_header :: unit_test where
  "test_pack_default_header = do {
     (r, buf, len) \<leftarrow> pack (inputs zero_mem);
     screen \<leftarrow> get_le16 buf 14;
     charset \<leftarrow> get_le16 buf 16;
     bitmap \<leftarrow> get_le16 buf 18;
     pl \<leftarrow> get_le32 buf 20;
     Some [r = 0, len = 4072, buf ! 0 = 0, buf ! 1 = 25, buf ! 2 = 40, buf ! 3 = charset_rom_upper_gfx, buf ! 4 = 0,
       buf ! 5 = 0x0e, buf ! 6 = 0x06, buf ! 10 = 0x1b, buf ! 11 = 0x08, buf ! 12 = 0x14,
       screen = 0x0400, charset = 0x1000, bitmap = 0, pl = 4048]
   }"

definition test_pack_payload :: unit_test where
  "test_pack_payload = (
     let m = hello\<lparr>mem_colorram := \<lambda>i. (of_nat i AND 0x0f) OR 0xa0, mem_chargen := \<lambda>i. of_nat i AND 0xff\<rparr> in do {
     (r, buf, len) \<leftarrow> pack (inputs m);
     Some [r = 0, buf ! (24 + 0) = 8, buf ! (24 + 4) = 15, buf ! (1024 + 0) = 0, buf ! (1024 + 15) = 15,
       buf ! (2024 + 0) = 0, buf ! (2024 + 7) = 7, buf ! (2024 + 255) = 255]
   })"

definition test_pack_custom_ram_charset :: unit_test where
  "test_pack_custom_ram_charset = (
     let m = zero_mem\<lparr>mem_ram := \<lambda>a. if 0x3000 \<le> a \<and> a < 0x3800 then ucast (a - 0x3000) AND 0x7f else 0\<rparr> in do {
     (r, buf, len) \<leftarrow> pack ((inputs m)\<lparr>d018 := 0x1c\<rparr>);
     charset \<leftarrow> get_le16 buf 16;
     Some [r = 0, buf ! 3 = charset_ram, charset = 0x3000, buf ! (2024 + 0) = 0, buf ! (2024 + 9) = 9]
   })"

definition test_pack_bitmap_mode :: unit_test where
  "test_pack_bitmap_mode = do {
     (r, buf, len) \<leftarrow> pack ((inputs zero_mem)\<lparr>d011 := 0x3b, d018 := 0x18\<rparr>);
     bitmap \<leftarrow> get_le16 buf 18;
     Some [r = 0, buf ! 0 = 2, bitmap \<noteq> 0]
   }"

definition test_pack_buffer_too_small :: unit_test where
  "test_pack_buffer_too_small = do {
     (r, buf, len) \<leftarrow> screen_pack (Some (inputs zero_mem)) (Some (replicate 10 0)) 10 (Some 10);
     Some [r < 0]
   }"

definition test_screencode_to_ascii :: unit_test where
  "test_screencode_to_ascii = Some
     [screen_screencode_to_ascii 0x00 = CHR ''@'', screen_screencode_to_ascii 0x01 = CHR ''A'',
      screen_screencode_to_ascii 0x1a = CHR ''Z'', screen_screencode_to_ascii 0x20 = CHR '' '',
      screen_screencode_to_ascii 0x80 = CHR ''@'', screen_screencode_to_ascii 0x40 = CHR ''.'']"

definition r_emit :: "string emit" where
  \<comment> \<open>appends to \<open>g_out\<close>, whose 65536 bytes no test fills\<close>
  "r_emit s g_out = g_out @ s"

definition test_render_grid :: unit_test where
  "test_render_grid = do {
     (r, buf, len) \<leftarrow> pack (inputs hello);
     grid \<leftarrow> screen_render (Some buf) len 0 r_emit [];
     raw \<leftarrow> screen_render (Some buf) len 1 r_emit [];
     Some [contains grid ''HELLO'', contains grid ''vic_mode=normal-text'',
       contains grid ''charset_kind=ROM upper/graphics'', contains raw ''screen RAM hex'']
   }"

definition screen_tests :: "unit_test list" where
  "screen_tests = [test_pack_default_header, test_pack_payload, test_pack_custom_ram_charset, test_pack_bitmap_mode,
     test_pack_buffer_too_small, test_screencode_to_ascii, test_render_grid]"

section \<open>Evaluation\<close>

lemma pack_response: "pack inp = Some (0, screen_response inp, 4072)"
  using screen_pack_Some [of 4072 "replicate 4072 0" inp 4072] by (simp add: pack_def)

lemma get_le_response:
  "i + 1 < 24 \<Longrightarrow> get_le16 (screen_response inp) i = get_le16 (header inp) i"
  "i + 3 < 24 \<Longrightarrow> get_le32 (screen_response inp) i = get_le32 (header inp) i"
  by (simp_all add: get_le16_def get_le32_def aget_def response_parts)

lemmas registers = inputs_def default_inputs_def zero_mem_def header_def header_bytes_def screen_sizes put_le16_def
  put_le32_def derive_vic_mode_def derive_vic_bank_def screen_addr_def charset_vic_addr_def bitmap_addr_def
  charset_in_chargen_window_def charset_kind_def charset_kinds

lemmas payload_cells = response_parts(2) [of 0] response_parts(2) [of 4] response_parts(3) [of 0] response_parts(3) [of 15]
  response_parts(4) [of 0] response_parts(4) [of 7] response_parts(4) [of 9] response_parts(4) [of 255]

lemmas tests = passes_def pack_response get_le_response response_parts response_parts(1) [of 0]
  response_parts(1) [of "Suc 0"] payload_cells [simplified]

lemma header_pass: "passes 16 test_pack_default_header"
  by (simp add: tests test_pack_default_header_def) (simp add: registers get_le16_def get_le32_def aget_def)

lemma bitmap_pass: "passes 3 test_pack_bitmap_mode"
  by (simp add: tests test_pack_bitmap_mode_def) (simp add: registers get_le16_def get_le32_def aget_def)

lemma small_pass: "passes 1 test_pack_buffer_too_small"
  by (simp add: passes_def test_pack_buffer_too_small_def screen_pack_def screen_sizes)

lemma ascii_pass: "passes 6 test_screencode_to_ascii"
proof -
  have "screen_screencode_to_ascii x = char_of (let n = unat x mod 128 in if n < 32 then 64 + n else if n < 64 then n else 46)"
    for x by (simp only: screencode_ascii [symmetric] ord_def char_of_char)
  then show ?thesis
    by (simp add: passes_def test_screencode_to_ascii_def char_of_def bit_Suc_0_iff)
qed

lemma custom_pass: "passes 5 test_pack_custom_ram_charset"
  by (simp add: tests test_pack_custom_ram_charset_def charset_bytes_def charset_byte_def)
   (simp add: registers get_le16_def get_le32_def aget_def)

lemma payload_pass: "passes 8 test_pack_payload"
  by (simp add: tests test_pack_payload_def charset_bytes_def charset_byte_def screen_bytes_def color_bytes_def)
    (simp add: registers hello_def)

lemma printed_mentions:
  assumes "p @ needle @ r \<in> set ss" "length (p @ needle) \<le> 255"
  shows "contains (printed ss) needle"
  unfolding printed_def
proof (rule contains_in)
  show "vsnprintf 256 (p @ needle @ r) \<in> set (map (vsnprintf 256) ss)" using assms(1) by simp
  show "contains (vsnprintf 256 (p @ needle @ r)) needle"
    unfolding vsnprintf_def by (rule contains_take) (use assms(2) in simp)
qed

lemma header_mentions:
  "contains (printed (header_chunks (screen_response (inputs m)))) ''vic_mode=normal-text''"
  "contains (printed (header_chunks (screen_response (inputs m)))) ''charset_kind=ROM upper/graphics''"
proof -
  let ?buf = "screen_response (inputs m)"
  have "vic_mode_name (?buf ! 0) = ''normal-text''" "charset_kind_name (?buf ! 3) = ''ROM upper/graphics''"
    by (simp_all add: tests registers vic_mode_name_def charset_kind_name_def)
  then obtain r r' where chunks: "''screen: '' @ ''vic_mode=normal-text'' @ r \<in> set (header_chunks ?buf)"
    "''        '' @ ''charset_kind=ROM upper/graphics'' @ r' \<in> set (header_chunks ?buf)"
    by (auto simp: header_chunks_def nl_def Let_def)
  show "contains (printed (header_chunks ?buf)) ''vic_mode=normal-text''"
    by (rule printed_mentions [OF chunks(1)]) simp
  show "contains (printed (header_chunks ?buf)) ''charset_kind=ROM upper/graphics''"
    by (rule printed_mentions [OF chunks(2)]) simp
qed

lemma hello_shown: "contains (shown_grid (inputs hello)) ''HELLO''"
proof -
  let ?f = "\<lambda>c. screen_screencode_to_ascii (read_ram (inputs hello) (screen_addr (inputs hello) + of_nat (40 * 0 + c)))"
  have "[0..<40] = [0, 1, 2, 3, 4] @ [5..<40]" by (simp add: upt_rec)
  moreover have "map ?f [0, 1, 2, 3, 4] = ''HELLO''"
    by (simp add: registers hello_def screen_screencode_to_ascii_def chr_def char_of_def bit_Suc_0_iff)
  ultimately have "map ?f [0..<40] = ''HELLO'' @ map ?f [5..<40]" by (simp only: map_append)
  then have "contains (shown_row (inputs hello) 0) ''HELLO''"
    unfolding shown_row_def by (simp only: append_assoc) (intro contains_later contains_prefix)
  then have "contains (concat (map (shown_row (inputs hello)) [0..<25])) ''HELLO''"
    by (rule contains_in [rotated]) simp
  then show ?thesis
    by (simp add: shown_grid_def contains_later contains_before contains_cons)
qed

lemma render_pass: "passes 4 test_render_grid"
proof -
  let ?buf = "screen_response (inputs hello)"
  have r: "r_emit = (\<lambda>s h. h @ s)" by (simp add: r_emit_def fun_eq_iff)
  have "[CHR 0x0A] @ ''screen RAM hex'' @ nl ('' (first '' @ show_nat 1000 @ '' bytes):'') \<in> set (raw_chunks ?buf 1000)"
    by (simp add: raw_chunks_def nl_def)
  then have "contains (printed (raw_chunks ?buf 1000)) ''screen RAM hex''"
    by (rule printed_mentions) simp
  then show ?thesis
    using header_mentions hello_shown
    by (simp add: passes_def test_render_grid_def pack_response screen_render_all r emit_all_printed Let_def printed_grid
        contains_later contains_before)
qed

section \<open>The suite\<close>

theorem screen_suite: "run_tests screen_tests = Some (0, \<lparr>revice_tests_run = 43, revice_tests_failed = 0\<rparr>)"
  using run_passing [of "[16, 8, 5, 3, 1, 6, 4]" screen_tests]
  by (simp add: screen_tests_def header_pass payload_pass custom_pass bitmap_pass small_pass [simplified] ascii_pass
      render_pass)

end
