(* ===== verification/Spec2Isabelle.thy ===== *)
theory Spec2Isabelle
  imports Asid_Adapter Video_Adapter Remote Vsid_Startup Vice_Log Keymatrix_Console
    Test_Keymatrix Test_Cores Test_Asid Test_Screen
begin

text \<open>
  Verification library of revice.

  revice adds seven features to the VICE emulators. Each is a library \<open>src/libs/<name>\<close> with a pure C core
  (\<open>src/<name>_core.c\<close>, \<open>include/revice_<name>.h\<close>) and, where it needs the emulator, an adapter in
  \<open>vice/\<close>. The cores know nothing of VICE: they reach it through callbacks the adapter installs. The
  adapters hold the static state, create the core on first use and translate VICE's calls.

  \<^bold>\<open>Conventions\<close> (Prelude, Clib). C integers are words of their width (\<open>u8\<close> .. \<open>u64\<close>), so wrap-around is
  that of the code; a C \<open>int\<close> that cannot overflow is an \<open>int\<close>. An array is the list of its elements and is
  only accessed through \<open>aget\<close>, \<open>aset\<close>, \<open>aput\<close>, \<open>aslice\<close>, which are \<open>None\<close> outside it: a theorem with a
  \<open>Some\<close> result is also the proof that no access leaves an array. A counted loop is \<open>for_each\<close>. A pointer
  that may be null is an option. A callback with its context is a function on a host state \<open>'h\<close>; VICE,
  ALSA and the C file functions, which are not in the repository, are parameters (records of functions
  over a state \<open>'v\<close>) and what is relied on of them is a named predicate (\<open>vice_video_laws\<close>,
  \<open>vice_keyboard_laws\<close>, \<open>alsa_laws\<close>) or a locale. Clib models the C library on strings: \<open>strtol\<close>, \<open>tolower\<close>,
  \<open>isspace\<close> and the conversions of \<open>printf\<close>. Double models non-negative \<open>double\<close> and \<open>float\<close> values as
  exact fractions rounded to nearest even after every operation, and bounds the error. The constants of
  the headers are abbreviations under their C names.

  \<^bold>\<open>ASID\<close> (\<open>libs/asid\<close>). Asid is the codec: the dirty registers of two SID chips, packed into one of two
  system exclusive forms. It is refined against a contract without bytes (\<open>sp_do\<close>), and read back by a
  receiver; \<open>asid_transport\<close> is the interface of the emit callback. Asid_Clock is the conversion of cycles
  and nanoseconds in floating point, Asid_Device the sound device of \<open>soundasid.c\<close> with its walk over ALSA's
  clients and ports, and Asid_Adapter the
  composition: the device's emit callback meets the codec's interface, so what the device hands to the
  sequencer in a session is what the emulator wrote. What was handed over is a ghost list of messages, each
  with its due time and whether ALSA accepted it; \<open>played\<close> is the order in which a receiver gets the
  accepted ones, which is the hand-over order only if the due times ascend (\<open>forced_flush_overtakes\<close>).

  \<^bold>\<open>Bus trace\<close> (\<open>libs/bustrace\<close>). Bustrace is the serializer: header, records with saturated deltas and a
  running CRC, trailer; the reader of \<open>Bustrace\<close> gets back what was observed, and damage in one
  byte is detected. \<open>append_sink\<close> is the interface of the emit callback. Bustrace_Adapter is the static
  state and file of \<open>soundbustrace.c\<close>, with the invariant that every closed file is a complete trace.

  \<^bold>\<open>Keymatrix\<close> (\<open>libs/keymatrix\<close>). Key_Table is the key table, Key_Parse the argument parser, which edits
  its buffer in place and is shown equal to a recursion over words; Keymatrix is the core: the monitor
  verbs, the hooks in the CIA's port reads, the release alarm, the binary commands. Keymatrix_Spec states
  what it promises (at most one injection, which holds its keys down and is released by a scan, a
  timeout or a command) and the interface \<open>km_keyboard\<close> of its host; Keymatrix_Mock interprets it on the
  test suite's keyboard and derives the refinement, the reachable-state invariant and that a tap ends.
  Keymatrix_Adapter is \<open>mon_keymatrix.c\<close> with its compile-time checks, which meets the same interface over VICE's keyboard and alarms.
  Keymatrix_Console is what the verbs print, as a function of the contract's state (\<open>sp_says\<close>); the interface
  \<open>km_console\<close> extends \<open>km_keyboard\<close> by the console.

  \<^bold>\<open>Screen\<close> (\<open>libs/screen\<close>). Screen packs the VIC-II state and the memory it shows into a response,
  Screen_Render prints a response it does not trust; Screen_Adapter is the C64 provider and the monitor
  command (\<open>c64screen.c\<close>, \<open>mon_screen.c\<close>), so the command's output is a function of the machine's memory.

  \<^bold>\<open>Video\<close> (\<open>libs/video\<close>). Video is the recording core, which forces warp off while it records and
  restores it; Video_Adapter is \<open>mon_video.c\<close>. \<open>video_recorder\<close> is the interface of the host.

  \<^bold>\<open>Drive attach, checkpoint\<close> (\<open>libs/driveattach\<close>, \<open>libs/checkpoint\<close>). Drive_Attach and Checkpoint are
  the decoders of two binary-monitor bodies.

  \<^bold>\<open>Binary monitor\<close> (\<open>integration/vice/patches\<close> 03 and 06). Binmon is the handlers of the five opcodes and
  the dispatch; VICE's reply and disk functions are \<open>vice_binmon\<close> and what is relied on of them
  \<open>binmon_laws\<close>, with ghost logs of the replies and of the disk calls. Remote proves them, in the locales
  \<open>binmon_host\<close> and \<open>remote_host\<close> for the emulator's side, against the wire contract: \<open>remote_run\<close> is the
  contract of a session over all five opcodes, one reply for each request; \<open>kb_serves\<close> is its keyboard
  part, whose GET answers the 24 bytes \<open>status_bytes\<close> of the contract's state (\<open>status_answer\<close>). A DRIVE_ATTACH
  request is contracted by \<open>drive_served\<close> (the disk calls made and the reply), a SCREEN_GET request by
  \<open>screen_served\<close> and \<open>screen_answer\<close>. Where the code departs from the documented answer, the frames of a
  press made before an earlier tap's timeout and the character set in bitmap mode, the contract leaves the
  bytes open, and \<open>km_press_stale_timeout\<close> and \<open>screen_bitmap_payload\<close> show what the code answers. That no operation of the keyboard adapter sends a reply or
  touches a disk follows from the keyboard refinement itself, by carrying the log as an unwired key.

  \<^bold>\<open>Other call sites\<close> (patches 01, 02, 04, 05, 07). Vice_Hooks is the on-hit code of a checkpoint with its
  silent flag, the memory functions of the VSID processor with the bus hook, the call of a sound device
  on a SID write, the CIA hooks and the rules of the \<open>keymatrix\<close> verbs. Vsid_Startup (patch 08) is the wiring of
  the bus trace into the start and the shutdown of VSID, over VICE's resource and option registries
  (\<open>startup_laws\<close>: registering enters a table, the defaults are set later through the setters), and the
  life of a trace from the command line to the file. Vice_Log (patches 07-log and 09)
  is the two repairs of VICE's logging.

  \<^bold>\<open>Unit tests\<close> (\<open>src/tests\<close>, \<open>libs/*/tests\<close>). Test_Harness is the harness, Test_Keymatrix, Test_Cores,
  Test_Asid and Test_Screen the seven test programs, run on the definitions the theorems are about. The
  lemmas \<open>keymatrix_suite\<close>, \<open>asid_suite\<close>, \<open>screen_suite\<close> and \<open>core_suites\<close> evaluate their 229 checks: a test
  of the model against the expectations the repository states itself, and not one of its properties.

  \<^bold>\<open>Bounds and termination\<close>. Theorems about bodies and responses cover every length a 32-bit length field can
  give. The ASID device's laws bound the machine's uptime by \<open>2\<^sup>5\<^sup>3\<close> ns and the cycle counter by \<open>2\<^sup>4\<^sup>1\<close>,
  below which the floating-point conversions are defined. The capture callbacks of the tests have no
  limit here, which no test reaches. All loops but two are counted or structural; the walks over ALSA's clients and
  ports are partial functions, \<open>None\<close> when they do not end, and \<open>asid_init_returns\<close> shows that they end for
  queries that step upwards.

  \<^bold>\<open>Not modelled\<close>. VICE's own code around the patched lines, which the repository does not hold: the parts
  of CHECKPOINT_SET that the patches do not show, the lexer's other states, the rest of \<open>vsid.c\<close> and \<open>log.c\<close>.
  Temporary checkpoints are among these. ALSA's handles are part of its state: that \<open>asid_close\<close> frees them, and
  what a second close or a use after it does, is not modelled. The ports do not change during one walk over
  them. The fields of \<open>sound_device_t\<close> after \<open>close\<close> are constants with no behaviour here. The messages of failed
  checks, the build scripts and the CI carry no emulator logic. The lines of the C sources that no definition
  models are comments, includes, prototypes and the declarations of the types of local variables.
\<close>

end
